(* ===== verification/Prelude.thy ===== *)
theory Prelude
  imports Main "HOL-Library.Word" "HOL-Library.Multiset" "HOL-Library.Sublist"
begin

unbundle bit_operations_syntax

text \<open>
  Shared vocabulary of the development: the machine types of the program (an LP64
  little-endian GNU/Linux host), the ways a C function can stop without returning,
  a bind operator for functions that may stop, C strings as NUL-terminated character
  lists, and generic lemmas on lists, words and multisets that several components use.
\<close>

section \<open>Collections of facts\<close>

named_theorems run_simps \<open>evaluation of the bind operator and of the stop values\<close>
named_theorems wf_intros \<open>well-formedness facts about the operations of a component\<close>
named_theorems parse_simps \<open>evaluation rules of the scanners\<close>

section \<open>Machine types\<close>

type_synonym u8 = "8 word"
type_synonym u32 = "32 word"

text \<open>
  \<open>struct in_addr\<close> holds its address in network byte order; \<open>s_addr\<close> is the 32-bit
  value as the host reads it. \<open>struct ether_addr\<close> is an array of six octets.
\<close>

type_synonym in_addr = "32 word"
type_synonym ether_addr = "8 word list"

definition wf_mac :: "ether_addr \<Rightarrow> bool" where
  "wf_mac m \<longleftrightarrow> length m = 6"

text \<open>The byte order conversion of a little-endian host: reversal of the four octets.\<close>

definition ntohl :: "u32 \<Rightarrow> u32" where
  "ntohl w = push_bit 24 (take_bit 8 w) OR push_bit 16 (take_bit 8 (drop_bit 8 w))
             OR push_bit 8 (take_bit 8 (drop_bit 16 w)) OR drop_bit 24 w"

abbreviation htonl :: "u32 \<Rightarrow> u32" where
  "htonl \<equiv> ntohl"

text \<open>Conversion of a value to a signed 32-bit \<open>int\<close>, as gcc does it: modulo \<open>2 ^ 32\<close>.\<close>

definition to_int32 :: "int \<Rightarrow> int" where
  "to_int32 v = (v + 2 ^ 31) mod 2 ^ 32 - 2 ^ 31"

text \<open>C's integer division truncates towards zero.\<close>

definition c_div :: "int \<Rightarrow> int \<Rightarrow> int" where
  "c_div a b = sgn a * sgn b * (\<bar>a\<bar> div \<bar>b\<bar>)"

definition c_mod :: "int \<Rightarrow> int \<Rightarrow> int" where
  "c_mod a b = a - c_div a b * b"

lemma c_div_nonneg: "0 \<le> a \<Longrightarrow> 0 < b \<Longrightarrow> c_div a b = a div b"
  by (auto simp: c_div_def sgn_if)

lemma c_mod_nonneg: "0 \<le> a \<Longrightarrow> 0 < b \<Longrightarrow> c_mod a b = a mod b"
  by (simp add: c_mod_def c_div_nonneg minus_div_mult_eq_mod)

section \<open>Functions that may stop\<close>

text \<open>
  A call of \<open>exit\<close>, a failed \<open>assert\<close>, a signed overflow (undefined in C), an access outside of
  a buffer (undefined in C) or the exhaustion of the recursion bound of a model; a
  function that may stop returns a value of \<open>stop + 'a\<close>, with \<open>Inl\<close> for the stop.
\<close>

datatype stop = Exit int | AssertFail | SignedOverflow | OutOfBounds | OutOfFuel

type_synonym 'a run = "stop + 'a"

fun bindR :: "'a run \<Rightarrow> ('a \<Rightarrow> 'b run) \<Rightarrow> 'b run" where
  "bindR (Inl s) f = Inl s"
| "bindR (Inr x) f = f x"

definition assertR :: "bool \<Rightarrow> 'a run \<Rightarrow> 'a run" where
  "assertR b r = (if b then r else Inl AssertFail)"

lemma bindR_Inr_iff [run_simps]: "bindR m f = Inr y \<longleftrightarrow> (\<exists>x. m = Inr x \<and> f x = Inr y)"
  by (cases m) auto

lemma bindR_Inl_iff [run_simps]:
  "bindR m f = Inl s \<longleftrightarrow> m = Inl s \<or> (\<exists>x. m = Inr x \<and> f x = Inl s)"
  by (cases m) auto

lemma bindR_InrE: "bindR m f = Inr y \<Longrightarrow> (\<And>x. m = Inr x \<Longrightarrow> f x = Inr y \<Longrightarrow> thesis) \<Longrightarrow> thesis"
  by (cases m) auto

lemma assertR_True [simp]: "assertR True r = r"
  by (simp add: assertR_def)

lemma assertR_Inr_iff [run_simps]: "assertR b r = Inr y \<longleftrightarrow> b \<and> r = Inr y"
  by (simp add: assertR_def)

text \<open>
  A call satisfies a specification: it either returns a value with property \<open>Q\<close> or stops for one of
  the reasons in \<open>S\<close>. With \<open>S = {}\<close> it returns.
\<close>

definition specR :: "stop set \<Rightarrow> 'a run \<Rightarrow> ('a \<Rightarrow> bool) \<Rightarrow> bool" where
  "specR S r Q \<longleftrightarrow> (case r of Inl s \<Rightarrow> s \<in> S | Inr x \<Rightarrow> Q x)"

lemma specR_simps [simp]:
  "specR S (Inr x) Q = Q x" "specR S (Inl s) Q \<longleftrightarrow> s \<in> S"
  "specR S (bindR m f) Q = specR S m (\<lambda>x. specR S (f x) Q)"
  by (cases m; simp add: specR_def)+

lemma specR_assert [simp]: "b \<Longrightarrow> specR S (assertR b r) Q = specR S r Q"
  by simp

lemma specR_conseq: "specR S r P \<Longrightarrow> S \<subseteq> T \<Longrightarrow> (\<And>x. P x \<Longrightarrow> Q x) \<Longrightarrow> specR T r Q"
  by (auto simp: specR_def split: sum.splits)

lemma specR_if [simp]: "specR S (if b then r else r') Q \<longleftrightarrow> (b \<longrightarrow> specR S r Q) \<and> (\<not> b \<longrightarrow> specR S r' Q)"
  by simp

lemma specR_total: "specR {} r Q \<Longrightarrow> \<exists>x. r = Inr x \<and> Q x"
  by (auto simp: specR_def split: sum.splits)

text \<open>A call repeated for each element of a list, stopping at the first stop.\<close>

fun foldR :: "('s \<Rightarrow> 'a \<Rightarrow> 's run) \<Rightarrow> 's \<Rightarrow> 'a list \<Rightarrow> 's run" where
  "foldR f s [] = Inr s"
| "foldR f s (x # xs) = bindR (f s x) (\<lambda>s'. foldR f s' xs)"

lemma foldR_append: "foldR f s (xs @ ys) = bindR (foldR f s xs) (\<lambda>s'. foldR f s' ys)"
proof (induction xs arbitrary: s)
  case (Cons x xs)
  then show ?case by (cases "f s x") simp_all
qed simp

lemma foldR_inv:
  "(\<And>s x s'. P s \<Longrightarrow> f s x = Inr s' \<Longrightarrow> P s') \<Longrightarrow> P s \<Longrightarrow> foldR f s xs = Inr s' \<Longrightarrow> P s'"
  by (induction xs arbitrary: s) (auto simp: run_simps)

section \<open>C strings\<close>

abbreviation NUL :: char where "NUL \<equiv> CHR 0x00"
abbreviation TAB :: char where "TAB \<equiv> CHR 0x09"
abbreviation NL :: char where "NL \<equiv> CHR 0x0A"

text \<open>The string a \<open>char *\<close> at index \<open>i\<close> of a buffer denotes: up to the first NUL.\<close>

definition cstr :: "string \<Rightarrow> nat \<Rightarrow> string" where
  "cstr buf i = takeWhile (\<lambda>c. c \<noteq> NUL) (drop i buf)"

lemma length_cstr: "length (cstr buf i) \<le> length buf - i"
  unfolding cstr_def by (metis length_drop length_takeWhile_le)

section \<open>Checked memory accesses\<close>

text \<open>Reading and writing bytes of a buffer, reading the C string at an index, and copying.\<close>

definition readR :: "string \<Rightarrow> nat \<Rightarrow> char run" where
  "readR buf i = (if i < length buf then Inr (buf ! i) else Inl OutOfBounds)"

definition pokeR :: "string \<Rightarrow> nat \<Rightarrow> char \<Rightarrow> string run" where
  "pokeR buf i c = (if i < length buf then Inr (buf[i := c]) else Inl OutOfBounds)"

definition cstrR :: "string \<Rightarrow> nat \<Rightarrow> string run" where
  "cstrR buf i = (if NUL \<in> set (drop i buf) then Inr (cstr buf i) else Inl OutOfBounds)"

definition sliceR :: "string \<Rightarrow> nat \<Rightarrow> nat \<Rightarrow> string run" where
  "sliceR buf i n = (if i + n \<le> length buf then Inr (take n (drop i buf)) else Inl OutOfBounds)"

definition memcpyR :: "string \<Rightarrow> nat \<Rightarrow> string \<Rightarrow> string run" where
  "memcpyR buf i src =
     (if i + length src \<le> length buf then Inr (take i buf @ src @ drop (i + length src) buf) else Inl OutOfBounds)"

text \<open>A line: a buffer whose byte at \<open>e\<close> is the terminating NUL.\<close>

definition line_buf :: "string \<Rightarrow> nat \<Rightarrow> bool" where
  "line_buf buf e \<longleftrightarrow> e < length buf \<and> buf ! e = NUL"

lemma readR_ok [simp]: "i < length buf \<Longrightarrow> readR buf i = Inr (buf ! i)"
  by (simp add: readR_def)

lemma pokeR_ok [simp]: "i < length buf \<Longrightarrow> pokeR buf i c = Inr (buf[i := c])"
  by (simp add: pokeR_def)

lemma line_buf_NUL: "line_buf buf e \<Longrightarrow> i \<le> e \<Longrightarrow> NUL \<in> set (drop i buf)"
  unfolding line_buf_def in_set_conv_nth by (auto intro!: exI[of _ "e - i"])

lemma cstrR_ok [simp]: "line_buf buf e \<Longrightarrow> i \<le> e \<Longrightarrow> cstrR buf i = Inr (cstr buf i)"
  using line_buf_NUL[of buf e i] by (simp add: cstrR_def)

lemma line_buf_update: "line_buf buf e \<Longrightarrow> line_buf (buf[i := NUL]) e"
  by (cases "i = e") (auto simp: line_buf_def)

text \<open>The C string at \<open>i\<close> of a line ends at or before its terminator.\<close>

lemma length_takeWhile_bound: "j < length xs \<Longrightarrow> \<not> P (xs ! j) \<Longrightarrow> length (takeWhile P xs) \<le> j"
  by (metis linorder_not_le nth_length_takeWhile takeWhile_nth set_takeWhileD nth_mem le_eq_less_or_eq less_imp_le_nat)

lemma line_buf_cstr: "line_buf buf e \<Longrightarrow> i \<le> e \<Longrightarrow> i + length (cstr buf i) \<le> e"
proof -
  assume b: "line_buf buf e" "i \<le> e"
  then have "e - i < length (drop i buf)" "drop i buf ! (e - i) = NUL" by (auto simp: line_buf_def)
  then have "length (cstr buf i) \<le> e - i" unfolding cstr_def by (intro length_takeWhile_bound) auto
  with b show ?thesis by simp
qed

end
