(* ===== verification/Vector.thy ===== *)
theory Vector
  imports Prelude
begin

text \<open>
  The interface of the \<open>ensc_vector\<close> library, whose sources are not part of the program. A vector
  is represented by its contents, the list of the elements between \<open>Vector_begin\<close> and
  \<open>Vector_end\<close>; a pointer to an element is an index. The operations are a parameter, a
  record of functions; the locale \<open>vector_lib\<close> states what the program relies on. The
  record \<open>list_vector\<close> is a reference implementation that meets the contract.
\<close>

section \<open>Operations\<close>

record ('e, 'k) vector_ops =
  Vector_init :: "'e list"
  Vector_clear :: "'e list \<Rightarrow> 'e list"
  Vector_resize :: "'e list \<Rightarrow> 'e list"
  Vector_pushback :: "'e list \<Rightarrow> 'e list \<times> nat"
  Vector_popback :: "'e list \<Rightarrow> 'e list"
  Vector_search :: "'e list \<Rightarrow> 'k \<Rightarrow> ('k \<Rightarrow> 'e \<Rightarrow> int) \<Rightarrow> nat option"
  Vector_insert :: "'e list \<Rightarrow> 'k \<Rightarrow> ('k \<Rightarrow> 'e \<Rightarrow> int) \<Rightarrow> 'e list \<times> nat"
  Vector_sort :: "'e list \<Rightarrow> ('e \<Rightarrow> 'e \<Rightarrow> int) \<Rightarrow> 'e list"
  Vector_unique :: "'e list \<Rightarrow> ('e \<Rightarrow> 'e \<Rightarrow> int) \<Rightarrow> 'e list"

section \<open>Contract\<close>

text \<open>The vector is ordered as a binary search for \<open>k\<close> needs it: greater, equal, smaller.\<close>

definition search_order :: "('k \<Rightarrow> 'e \<Rightarrow> int) \<Rightarrow> 'k \<Rightarrow> 'e list \<Rightarrow> bool" where
  "search_order cmp k xs \<longleftrightarrow> sorted_wrt (\<lambda>x y. sgn (cmp k y) \<le> sgn (cmp k x)) xs"

text \<open>A comparison function is a total preorder on the elements of \<open>S\<close>.\<close>

definition cmp_order :: "('e \<Rightarrow> 'e \<Rightarrow> int) \<Rightarrow> 'e set \<Rightarrow> bool" where
  "cmp_order cmp S \<longleftrightarrow>
     (\<forall>x\<in>S. \<forall>y\<in>S. cmp x y \<le> 0 \<longleftrightarrow> 0 \<le> cmp y x)
   \<and> (\<forall>x\<in>S. \<forall>y\<in>S. \<forall>z\<in>S. cmp x y \<le> 0 \<longrightarrow> cmp y z \<le> 0 \<longrightarrow> cmp x z \<le> 0)"

locale vector_lib =
  fixes V :: "('e, 'k) vector_ops"
  assumes init: "Vector_init V = []"
    and clear: "Vector_clear V xs = []"
    and resize: "Vector_resize V xs = xs"
    and pushback: "\<exists>junk. Vector_pushback V xs = (xs @ [junk], length xs)"
    and popback: "Vector_popback V xs = butlast xs"
    and search_found: "search_order cmp k xs \<Longrightarrow> Vector_search V xs k cmp = Some i \<Longrightarrow> i < length xs \<and> cmp k (xs ! i) = 0"
    and search_missing: "search_order cmp k xs \<Longrightarrow> Vector_search V xs k cmp = None \<Longrightarrow> x \<in> set xs \<Longrightarrow> cmp k x \<noteq> 0"
    and insert_slot: "search_order cmp k xs \<Longrightarrow>
       \<exists>i junk. Vector_insert V xs k cmp = (take i xs @ junk # drop i xs, i) \<and> i \<le> length xs
              \<and> (\<forall>x\<in>set (take i xs). 0 \<le> cmp k x) \<and> (\<forall>x\<in>set (drop i xs). cmp k x \<le> 0)"
    and sort: "cmp_order scmp (set xs) \<Longrightarrow>
       mset (Vector_sort V xs scmp) = mset xs \<and> sorted_wrt (\<lambda>x y. scmp x y \<le> 0) (Vector_sort V xs scmp)"
    and unique: "subseq (Vector_unique V xs ucmp) xs
       \<and> (\<forall>x\<in>set xs. \<exists>y\<in>set (Vector_unique V xs ucmp). y = x \<or> ucmp y x = 0)"
begin

text \<open>Appending an element: the slot that \<open>Vector_pushback\<close> returns is filled in.\<close>

lemma append_element: "Vector_pushback V xs = (ys, i) \<Longrightarrow> ys[i := x] = xs @ [x]"
  using pushback[of xs] by auto

text \<open>Inserting an element: the new slot is filled in.\<close>

lemma insert_element:
  assumes "search_order cmp k xs" "Vector_insert V xs k cmp = (ys, i)"
  shows "i < length ys \<and> (\<exists>as bs. xs = as @ bs \<and> ys[i := x] = as @ x # bs
      \<and> (\<forall>a\<in>set as. 0 \<le> cmp k a) \<and> (\<forall>b\<in>set bs. cmp k b \<le> 0))"
proof -
  obtain j junk where j: "ys = take j xs @ junk # drop j xs" "i = j" "j \<le> length xs"
      "\<forall>x\<in>set (take j xs). 0 \<le> cmp k x" "\<forall>x\<in>set (drop j xs). cmp k x \<le> 0"
    using insert_slot[OF assms(1)] assms(2) by auto
  have "ys[i := x] = take j xs @ x # drop j xs" using j(1-3) by (simp add: list_update_append)
  then show ?thesis
    by (intro conjI exI[of _ "take j xs"] exI[of _ "drop j xs"]) (use j in auto)
qed

lemma set_sort: "cmp_order scmp (set xs) \<Longrightarrow> set (Vector_sort V xs scmp) = set xs"
  using sort mset_eq_setD by blast

lemma length_sort: "cmp_order scmp (set xs) \<Longrightarrow> length (Vector_sort V xs scmp) = length xs"
  using sort mset_eq_length by blast

lemma set_unique: "set (Vector_unique V xs ucmp) \<subseteq> set xs"
  using unique[of xs ucmp] by (auto dest: list_emb_set)

end

lemma cmp_order_mono: "cmp_order cmp T \<Longrightarrow> S \<subseteq> T \<Longrightarrow> cmp_order cmp S"
  unfolding cmp_order_def by blast

section \<open>Reference implementation\<close>

fun first_index :: "('a \<Rightarrow> bool) \<Rightarrow> 'a list \<Rightarrow> nat" where
  "first_index P [] = 0"
| "first_index P (x # xs) = (if P x then 0 else Suc (first_index P xs))"

definition list_search :: "'e list \<Rightarrow> 'k \<Rightarrow> ('k \<Rightarrow> 'e \<Rightarrow> int) \<Rightarrow> nat option" where
  "list_search xs k cmp =
     (let i = first_index (\<lambda>x. cmp k x = 0) xs in if i < length xs then Some i else None)"

definition list_insert :: "'e \<Rightarrow> 'e list \<Rightarrow> 'k \<Rightarrow> ('k \<Rightarrow> 'e \<Rightarrow> int) \<Rightarrow> 'e list \<times> nat" where
  "list_insert junk xs k cmp =
     (let i = first_index (\<lambda>x. cmp k x \<le> 0) xs in (take i xs @ junk # drop i xs, i))"

fun insort_cmp :: "('e \<Rightarrow> 'e \<Rightarrow> int) \<Rightarrow> 'e \<Rightarrow> 'e list \<Rightarrow> 'e list" where
  "insort_cmp cmp x [] = [x]"
| "insort_cmp cmp x (y # ys) = (if cmp x y \<le> 0 then x # y # ys else y # insort_cmp cmp x ys)"

definition list_sort :: "'e list \<Rightarrow> ('e \<Rightarrow> 'e \<Rightarrow> int) \<Rightarrow> 'e list" where
  "list_sort xs cmp = foldr (insort_cmp cmp) xs []"

fun list_unique :: "'e list \<Rightarrow> ('e \<Rightarrow> 'e \<Rightarrow> int) \<Rightarrow> 'e list" where
  "list_unique (x # y # ys) cmp =
     (if cmp x y = 0 then list_unique (x # ys) cmp else x # list_unique (y # ys) cmp)"
| "list_unique xs cmp = xs"

definition list_vector :: "'e \<Rightarrow> ('e, 'k) vector_ops" where
  "list_vector junk =
     \<lparr>Vector_init = [], Vector_clear = (\<lambda>_. []), Vector_resize = (\<lambda>xs. xs),
      Vector_pushback = (\<lambda>xs. (xs @ [junk], length xs)), Vector_popback = butlast,
      Vector_search = list_search, Vector_insert = list_insert junk,
      Vector_sort = list_sort, Vector_unique = list_unique\<rparr>"

lemma first_index_found: "first_index P xs < length xs \<Longrightarrow> P (xs ! first_index P xs)"
  by (induction xs) auto

lemma first_index_le: "first_index P xs \<le> length xs"
  by (induction xs) auto

lemma first_index_before: "x \<in> set (take (first_index P xs) xs) \<Longrightarrow> \<not> P x"
  by (induction xs) (auto split: if_splits)

lemma first_index_missing: "\<not> first_index P xs < length xs \<Longrightarrow> x \<in> set xs \<Longrightarrow> \<not> P x"
  by (induction xs) (auto split: if_splits)

lemma first_index_after:
  "search_order cmp k xs \<Longrightarrow> x \<in> set (drop (first_index (\<lambda>x. cmp k x \<le> 0) xs) xs) \<Longrightarrow> cmp k x \<le> 0"
proof (induction xs)
  case (Cons y ys)
  then show ?case
    by (auto simp: search_order_def sgn_if split: if_splits)
qed simp

lemma mset_insort_cmp: "mset (insort_cmp cmp x xs) = add_mset x (mset xs)"
  by (induction xs) auto

lemma mset_list_sort: "mset (list_sort xs cmp) = mset xs"
  unfolding list_sort_def by (induction xs) (auto simp: mset_insort_cmp)

lemma sorted_insort_cmp:
  "cmp_order cmp (insert x (set xs)) \<Longrightarrow> sorted_wrt (\<lambda>x y. cmp x y \<le> 0) xs
   \<Longrightarrow> sorted_wrt (\<lambda>x y. cmp x y \<le> 0) (insort_cmp cmp x xs)"
proof (induction xs)
  case (Cons y ys)
  have s: "set (insort_cmp cmp x ys) = insert x (set ys)"
    using mset_insort_cmp[of cmp x ys] by (metis set_mset_add_mset_insert set_mset_mset)
  have o: "cmp_order cmp (insert x (set ys))" using Cons.prems(1) by (rule cmp_order_mono) auto
  show ?case
  proof (cases "cmp x y \<le> 0")
    case True
    have "cmp x z \<le> 0" if "z \<in> set ys" for z
    proof -
      have "cmp y z \<le> 0" using Cons.prems(2) that by simp
      with True that Cons.prems(1) show ?thesis unfolding cmp_order_def by (meson insertI1 insertI2 list.set_intros)
    qed
    with True Cons.prems(2) show ?thesis by simp
  next
    case False
    have "cmp y x \<le> 0 \<longleftrightarrow> 0 \<le> cmp x y" using Cons.prems(1) unfolding cmp_order_def by simp
    then have "cmp y x \<le> 0" using False by linarith
    with False Cons.IH[OF o] Cons.prems(2) show ?thesis by (simp add: s)
  qed
qed simp

lemma sorted_list_sort:
  "cmp_order cmp (set xs) \<Longrightarrow> sorted_wrt (\<lambda>x y. cmp x y \<le> 0) (list_sort xs cmp)"
proof (induction xs)
  case (Cons x xs)
  have "set (list_sort xs cmp) = set xs" by (rule mset_eq_setD[OF mset_list_sort])
  then have "cmp_order cmp (insert x (set (list_sort xs cmp)))" using Cons.prems by simp
  moreover have "sorted_wrt (\<lambda>x y. cmp x y \<le> 0) (list_sort xs cmp)"
    using cmp_order_mono[OF Cons.prems set_subset_Cons] by (rule Cons.IH)
  moreover have "list_sort (x # xs) cmp = insort_cmp cmp x (list_sort xs cmp)"
    by (simp add: list_sort_def)
  ultimately show ?case by (simp add: sorted_insort_cmp)
qed (simp add: list_sort_def)

lemma subseq_list_unique: "subseq (list_unique xs cmp) xs"
proof (induction xs cmp rule: list_unique.induct)
  case (1 x y ys cmp)
  then show ?case by (cases "cmp x y = 0") (auto intro: subseq_order.trans)
qed auto

lemma hd_list_unique: "xs \<noteq> [] \<Longrightarrow> hd xs \<in> set (list_unique xs cmp)"
  by (induction xs cmp rule: list_unique.induct) auto

lemma list_unique_covers: "x \<in> set xs \<Longrightarrow> \<exists>y\<in>set (list_unique xs cmp). y = x \<or> cmp y x = 0"
proof (induction xs cmp rule: list_unique.induct)
  case (1 a b ys cmp)
  show ?case
  proof (cases "cmp a b = 0")
    case True
    then have "a \<in> set (list_unique (a # b # ys) cmp)" using hd_list_unique[of "a # ys"] by simp
    with True 1 show ?thesis by auto
  next
    case False
    with 1 show ?thesis by auto
  qed
qed auto

interpretation lv: vector_lib "list_vector junk" for junk :: 'e
proof (unfold_locales, goal_cases)
  case (8 cmp k xs)
  let ?i = "first_index (\<lambda>x. cmp k x \<le> 0) xs"
  have "0 \<le> cmp k x" if "x \<in> set (take ?i xs)" for x
    using first_index_before[OF that] by simp
  moreover have "Vector_insert (list_vector junk) xs k cmp = (take ?i xs @ junk # drop ?i xs, ?i)"
    by (simp add: list_vector_def list_insert_def Let_def)
  ultimately show ?case
    using first_index_after[OF 8] first_index_le[of "\<lambda>x. cmp k x \<le> 0" xs] by blast
next
  case (6 cmp k xs i)
  then show ?case
    using first_index_found[of "\<lambda>x. cmp k x = 0" xs]
    by (simp add: list_vector_def list_search_def Let_def split: if_splits)
next
  case (7 cmp k xs x)
  then show ?case
    using first_index_missing[of "\<lambda>x. cmp k x = 0" xs x]
    by (simp add: list_vector_def list_search_def Let_def split: if_splits)
qed (simp_all add: list_vector_def mset_list_sort sorted_list_sort subseq_list_unique list_unique_covers)

lemma list_vector_lib: "vector_lib (list_vector junk)"
  by (rule lv.vector_lib_axioms)

end
