(* ===== verification/Clib.thy ===== *)
theory Clib
  imports Prelude
begin

text \<open>
  The functions of the C library the program parses and prints with, on the strings that
  C strings denote: \<open>strtol\<close> (with the number of characters it consumed instead of
  the end pointer), \<open>inet_aton\<close>, \<open>inet_ntoa\<close>, \<open>memcmp\<close>. The GNU C library is
  the reference; \<open>long\<close> has 64 bits.
\<close>

section \<open>Characters\<close>

definition isspace :: "char \<Rightarrow> bool" where
  "isspace c \<longleftrightarrow> c = CHR '' '' \<or> (9 \<le> (of_char c :: nat) \<and> (of_char c :: nat) \<le> 13)"

definition isdigit :: "char \<Rightarrow> bool" where
  "isdigit c \<longleftrightarrow> 48 \<le> (of_char c :: nat) \<and> (of_char c :: nat) \<le> 57"

definition digit_in :: "nat \<Rightarrow> char \<Rightarrow> nat option" where
  "digit_in base c =
     (let n = of_char c :: nat;
          v = (if 48 \<le> n \<and> n \<le> 57 then n - 48
               else if 97 \<le> n \<and> n \<le> 122 then n - 87
               else if 65 \<le> n \<and> n \<le> 90 then n - 55 else 36)
      in if v < base \<and> v < 36 then Some v else None)"

section \<open>Numbers\<close>

fun digits_acc :: "nat \<Rightarrow> nat \<Rightarrow> nat \<Rightarrow> string \<Rightarrow> nat \<times> nat" where
  "digits_acc base acc n [] = (acc, n)"
| "digits_acc base acc n (c # cs) =
     (case digit_in base c of
        None \<Rightarrow> (acc, n)
      | Some d \<Rightarrow> digits_acc base (acc * base + d) (Suc n) cs)"

definition hex_prefix :: "string \<Rightarrow> bool" where
  "hex_prefix s \<longleftrightarrow>
     (case s of c0 # c1 # c2 # _ \<Rightarrow> c0 = CHR ''0'' \<and> (c1 = CHR ''x'' \<or> c1 = CHR ''X'') \<and> digit_in 16 c2 \<noteq> None
      | _ \<Rightarrow> False)"

definition strtol_base :: "nat \<Rightarrow> string \<Rightarrow> nat \<times> nat" where
  "strtol_base base s =
     (if (base = 0 \<or> base = 16) \<and> hex_prefix s then (16, 2)
      else if base = 0 then (if s \<noteq> [] \<and> hd s = CHR ''0'' then (8, 0) else (10, 0))
      else (base, 0))"

definition long_clamp :: "int \<Rightarrow> int" where
  "long_clamp v = max (- (2 ^ 63)) (min (2 ^ 63 - 1) v)"

definition strtol :: "nat \<Rightarrow> string \<Rightarrow> int \<times> nat" where
  "strtol base s =
     (let ws = length (takeWhile isspace s);
          s1 = drop ws s;
          neg = (s1 \<noteq> [] \<and> hd s1 = CHR ''-'');
          sg = (if s1 \<noteq> [] \<and> (hd s1 = CHR ''-'' \<or> hd s1 = CHR ''+'') then 1 else 0);
          s2 = drop sg s1;
          (b, pre) = strtol_base base s2;
          (v, n) = digits_acc b 0 0 (drop pre s2)
      in if n = 0 then (0, 0)
         else (long_clamp (if neg then - int v else int v), ws + sg + pre + n))"

text \<open>Decimal digits of a number, most significant first.\<close>

definition digit_char :: "nat \<Rightarrow> char" where
  "digit_char d = char_of (48 + d)"

fun dec :: "nat \<Rightarrow> string" where
  "dec n = (if n < 10 then [digit_char n] else dec (n div 10) @ [digit_char (n mod 10)])"

declare dec.simps [simp del]

section \<open>Addresses and memory\<close>

text \<open>
  \<open>inet_aton\<close>: one to four numbers separated by dots, in C's notation for decimal, octal or
  hexadecimal numbers. All but the last must fit into an octet; the last fills the
  remaining octets. White space may follow.
\<close>

definition inet_max :: "nat \<Rightarrow> int" where
  "inet_max k = 2 ^ (32 - 8 * k) - 1"

function inet_aton_loop :: "int list \<Rightarrow> string \<Rightarrow> in_addr option" where
  "inet_aton_loop bs s =
     (if s = [] \<or> \<not> isdigit (hd s) then None
      else let (v, n) = strtol 0 s; rest = drop n s in
        if v > 0xFFFFFFFF then None
        else if rest \<noteq> [] \<and> hd rest = CHR ''.''
        then (if 2 < length bs \<or> v > 0xFF then None else inet_aton_loop (bs @ [v]) (tl rest))
        else if rest \<noteq> [] \<and> \<not> isspace (hd rest) then None
        else if v > inet_max (length bs) then None
        else Some (htonl (of_int (foldl (\<lambda>a b. a * 256 + b) 0 bs * 256 ^ (4 - length bs) + v))))"
  by pat_completeness auto
termination
proof (relation "measure (\<lambda>(bs, s). length s)", simp)
  fix bs :: "int list" and s :: string and p rest and v :: int and n :: nat
  assume "\<not> (s = [] \<or> \<not> isdigit (hd s))" "rest = drop n s"
  then have "length (tl rest) < length s" by (cases s) auto
  then show "((bs @ [v], tl rest), bs, s) \<in> measure (\<lambda>(bs, s). length s)" by simp
qed

declare inet_aton_loop.simps [simp del]

definition inet_aton :: "string \<Rightarrow> in_addr option" where
  "inet_aton s = inet_aton_loop [] s"

definition ip_octet :: "in_addr \<Rightarrow> nat \<Rightarrow> nat" where
  "ip_octet a k = nat (uint (ntohl a) div 2 ^ (8 * (3 - k)) mod 256)"

definition inet_ntoa :: "in_addr \<Rightarrow> string" where
  "inet_ntoa a = dec (ip_octet a 0) @ ''.'' @ dec (ip_octet a 1) @ ''.''
               @ dec (ip_octet a 2) @ ''.'' @ dec (ip_octet a 3)"

fun memcmp :: "u8 list \<Rightarrow> u8 list \<Rightarrow> int" where
  "memcmp (x # xs) (y # ys) = (if x = y then memcmp xs ys else if x < y then -1 else 1)"
| "memcmp _ _ = 0"

section \<open>Facts\<close>

lemma bit32_high: "32 \<le> k \<Longrightarrow> \<not> bit (w :: u32) k"
  by (auto dest: bit_imp_le_length)

lemma bit_ntohl:
  "n < 8 \<Longrightarrow> bit (ntohl w) n = bit w (n + 24)"
  "8 \<le> n \<Longrightarrow> n < 16 \<Longrightarrow> bit (ntohl w) n = bit w (n + 8)"
  "16 \<le> n \<Longrightarrow> n < 24 \<Longrightarrow> bit (ntohl w) n = bit w (n - 8)"
  "24 \<le> n \<Longrightarrow> n < 32 \<Longrightarrow> bit (ntohl w) n = bit w (n - 24)"
  by (auto simp: ntohl_def bit_simps bit32_high add.commute)

lemma ntohl_ntohl [simp]: "ntohl (ntohl w) = w"
proof (rule bit_word_eqI)
  fix n assume "n < LENGTH(32)"
  then consider "n < 8" | "8 \<le> n" "n < 16" | "16 \<le> n" "n < 24" | "24 \<le> n" "n < 32" by fastforce
  then show "bit (ntohl (ntohl w)) n = bit w n"
    by cases (simp_all add: bit_ntohl)
qed

lemma digit_char_code: "d < 10 \<Longrightarrow> (of_char (digit_char d) :: nat) = 48 + d"
  by (simp add: digit_char_def)

lemma digit_in_dec: "d < 10 \<Longrightarrow> d < base \<Longrightarrow> digit_in base (digit_char d) = Some d"
  by (simp add: digit_in_def digit_char_code Let_def)

lemma isdigit_digit_char: "d < 10 \<Longrightarrow> isdigit (digit_char d)"
  by (simp add: isdigit_def digit_char_code)

lemma digit_in_10: "digit_in 10 c = (if isdigit c then Some (of_char c - 48) else None)"
  by (auto simp: digit_in_def isdigit_def Let_def)

lemma isdigit_not_special:
  assumes "isdigit c"
  shows "\<not> isspace c" "c \<noteq> CHR ''-''" "c \<noteq> CHR ''+''" "c \<noteq> CHR ''.''" "c \<noteq> CHR ''x''" "c \<noteq> CHR ''X''"
    "c \<noteq> NUL" "c \<noteq> CHR ''{''" "c \<noteq> CHR ''}''" "c \<noteq> CHR '',''" "c \<noteq> CHR ''#''" "c \<noteq> CHR ''/''"
    "c \<noteq> CHR ''@''" "c \<noteq> CHR ''!''" "c \<noteq> CHR ''*''" "c \<noteq> TAB" "c \<noteq> CHR '' ''"
  using assms by (auto simp: isdigit_def isspace_def)

lemma dec_digits: "c \<in> set (dec n) \<Longrightarrow> isdigit c"
proof (induction n rule: dec.induct)
  case (1 n)
  then show ?case
    by (subst (asm) (2) dec.simps) (auto simp: isdigit_digit_char split: if_splits)
qed

lemma dec_not_Nil [simp]: "dec n \<noteq> []"
  by (subst dec.simps) simp

lemma dec_0: "dec 0 = ''0''"
  by code_simp

lemma dec_lead: "0 < n \<Longrightarrow> hd (dec n) \<noteq> CHR ''0''"
proof (induction n rule: dec.induct)
  case (1 n)
  show ?case
  proof (cases "n < 10")
    case True
    with 1 have "(of_char (digit_char n) :: nat) \<noteq> of_char (CHR ''0'')" by (simp add: digit_char_code)
    with True show ?thesis by (auto simp: dec.simps[of n])
  next
    case False
    with 1 show ?thesis by (simp add: dec.simps[of n])
  qed
qed

lemma digits_acc_dec:
  "digits_acc 10 a n (dec v @ rest) = digits_acc 10 (a * 10 ^ length (dec v) + v) (n + length (dec v)) rest"
proof (induction v arbitrary: rest rule: dec.induct)
  case (1 v)
  show ?case
  proof (cases "v < 10")
    case True
    then show ?thesis by (simp add: dec.simps[of v] digit_in_dec)
  next
    case False
    have "a * (10 * 10 ^ length (dec (v div 10))) + (v div 10 * 10 + v mod 10) = a * (10 * 10 ^ length (dec (v div 10))) + v" by simp
    with False show ?thesis
      by (simp add: dec.simps[of v] 1 digit_in_dec algebra_simps)
  qed
qed

lemma digits_acc_stop: "rest = [] \<or> digit_in b (hd rest) = None \<Longrightarrow> digits_acc b a n rest = (a, n)"
  by (cases rest) auto

lemma digit_in_8: "digit_in 8 c \<noteq> None \<Longrightarrow> isdigit c"
  by (auto simp: digit_in_def isdigit_def Let_def split: if_splits)

text \<open>Reading back a printed number that is followed by neither a digit nor an \<open>x\<close>.\<close>

lemma strtol_dec:
  assumes "b = 0 \<or> b = 10" "int v < 2 ^ 63"
    and "rest = [] \<or> \<not> isdigit (hd rest) \<and> hd rest \<noteq> CHR ''x'' \<and> hd rest \<noteq> CHR ''X''"
  shows "strtol b (dec v @ rest) = (int v, length (dec v))"
proof -
  obtain c cs where d: "dec v = c # cs" by (cases "dec v") auto
  then have c: "isdigit c" using dec_digits[of c v] by simp
  have hx: "\<not> hex_prefix (dec v @ rest)"
    using assms(3) dec_digits[of _ v] unfolding d
    by (cases cs; cases rest) (auto simp: hex_prefix_def isdigit_not_special split: list.splits)
  have end10: "rest = [] \<or> digit_in 10 (hd rest) = None" using assms(3) by (auto simp: digit_in_10)
  have end8: "rest = [] \<or> digit_in 8 (hd rest) = None" using assms(3) digit_in_8 by blast
  have acc: "digits_acc (fst (strtol_base b (dec v @ rest))) 0 0 (dec v @ rest) = (v, length (dec v))"
  proof (cases "b = 0 \<and> c = CHR ''0''")
    case True
    then have "v = 0" using dec_lead[of v] d by (cases "v = 0") auto
    moreover have "digit_in 8 (CHR ''0'') = Some 0" by code_simp
    ultimately show ?thesis
      using end8 d True hx by (simp add: strtol_base_def dec_0 digits_acc_stop)
  next
    case False
    then have "fst (strtol_base b (dec v @ rest)) = 10"
      using assms(1) d hx by (auto simp: strtol_base_def)
    with digits_acc_dec[of 0 0 v rest] end10 show ?thesis by (simp add: digits_acc_stop)
  qed
  obtain b' where pre: "strtol_base b (dec v @ rest) = (b', 0)"
    using hx that by (cases "strtol_base b (dec v @ rest)") (auto simp: strtol_base_def split: if_splits)
  have s: "takeWhile isspace (dec v @ rest) = []" "hd (dec v @ rest) = c" "dec v @ rest \<noteq> []"
    using c d by (auto simp: isdigit_not_special)
  have "c \<noteq> CHR ''-''" "c \<noteq> CHR ''+''" using c by (auto simp: isdigit_not_special)
  then show ?thesis
    unfolding strtol_def s(1) using s(2,3) acc assms(2) pre
    by (auto simp: Let_def long_clamp_def min_def max_def)
qed

lemma ip_octet_less: "ip_octet a k < 256"
  by (simp add: ip_octet_def)

lemma dec_cons: obtains c cs where "dec n = c # cs" "isdigit c"
proof -
  obtain c cs where d: "dec n = c # cs" by (cases "dec n") auto
  moreover have "isdigit c" using d dec_digits[of c n] by simp
  ultimately show ?thesis using that by blast
qed

lemma inet_aton_loop_dot:
  assumes "length bs < 3" "v < 256"
  shows "inet_aton_loop bs (dec v @ CHR ''.'' # rest) = inet_aton_loop (bs @ [int v]) rest"
proof -
  obtain c cs where d: "dec v = c # cs" "isdigit c" by (rule dec_cons)
  have "strtol 0 (dec v @ CHR ''.'' # rest) = (int v, length (dec v))"
    using assms by (intro strtol_dec) (auto simp: isdigit_def)
  with d assms show ?thesis
    by (subst inet_aton_loop.simps) (auto simp: Let_def)
qed

lemma inet_aton_loop_last:
  assumes "length bs = 3" "v < 256" "rest = [] \<or> isspace (hd rest)"
  shows "inet_aton_loop bs (dec v @ rest) =
     Some (htonl (of_int (foldl (\<lambda>a b. a * 256 + b) 0 bs * 256 + int v)))"
proof -
  obtain c cs where d: "dec v = c # cs" "isdigit c" by (rule dec_cons)
  have "strtol 0 (dec v @ rest) = (int v, length (dec v))"
    using assms by (intro strtol_dec) (auto simp: isdigit_def isspace_def)
  with d assms show ?thesis
    by (subst inet_aton_loop.simps) (auto simp: Let_def inet_max_def isspace_def)
qed

lemma base256: "x mod 256 + (256 * (x div 256 mod 256) + (65536 * (x div 256 div 256 mod 256)
    + 16777216 * (x div 256 div 256 div 256))) = (x::int)"
  using mult_div_mod_eq[of 256 x] mult_div_mod_eq[of 256 "x div 256"] mult_div_mod_eq[of 256 "x div 256 div 256"]
  by linarith

lemma int_ip_octet: "int (ip_octet a k) = uint (ntohl a) div 2 ^ (8 * (3 - k)) mod 256"
  by (simp add: ip_octet_def)

lemma ip_octets_value:
  "int (ip_octet a 0) * 16777216 + int (ip_octet a 1) * 65536 + int (ip_octet a 2) * 256 + int (ip_octet a 3)
   = uint (ntohl a)"
proof -
  define x where "x = uint (ntohl a)"
  have b: "0 \<le> x" "x < 4294967296" using uint_lt2p[of "ntohl a"] by (simp_all add: x_def)
  then have "0 \<le> x div 16777216" "x div 16777216 < 256" by (simp_all add: div_less_iff_less_mult pos_imp_zdiv_nonneg_iff)
  then have o: "x div 16777216 mod 256 = x div 16777216" by (rule mod_pos_pos_trivial)
  have d: "x div 65536 = x div 256 div 256" "x div 16777216 = x div 256 div 256 div 256"
    by (simp_all flip: zdiv_zmult2_eq)
  have oct: "int (ip_octet a 0) = x div 16777216" "int (ip_octet a 1) = x div 65536 mod 256"
    "int (ip_octet a 2) = x div 256 mod 256" "int (ip_octet a 3) = x mod 256"
    using o by (simp_all add: int_ip_octet x_def[symmetric])
  show ?thesis
    unfolding oct d x_def[symmetric] using base256[of x] by linarith
qed

text \<open>A printed address that white space or the end of the string follows is read back.\<close>

lemma inet_aton_ntoa:
  assumes "rest = [] \<or> isspace (hd rest)"
  shows "inet_aton (inet_ntoa a @ rest) = Some a"
proof -
  have "inet_aton (inet_ntoa a @ rest) = Some (htonl (of_int (foldl (\<lambda>a b. a * 256 + b) 0
      [int (ip_octet a 0), int (ip_octet a 1), int (ip_octet a 2)] * 256 + int (ip_octet a 3))))"
    using assms by (simp add: inet_aton_def inet_ntoa_def inet_aton_loop_dot inet_aton_loop_last ip_octet_less)
  also have "foldl (\<lambda>a b. a * 256 + b) 0
      [int (ip_octet a 0), int (ip_octet a 1), int (ip_octet a 2)] * 256 + int (ip_octet a 3) = uint (ntohl a)"
    using ip_octets_value[of a] by (simp add: algebra_simps)
  finally show ?thesis by simp
qed

end
