(* ===== verification/Ether.thy ===== *)
theory Ether
  imports Prelude
begin

text \<open>
  The MAC address conversions of \<open>src/src/ether.c\<close>. \<open>ether_aton_r\<close> writes into an address the
  caller provides and reports success; the model returns the contents of that address
  together with the success flag. The loop is shown to compute what a split at the
  colons would, and printing followed by parsing is the identity.
\<close>

section \<open>Parsing\<close>

definition ether_digit :: "char \<Rightarrow> int" where
  "ether_digit ch =
     (let c = of_char ch :: int in
      if 48 \<le> c \<and> c \<le> 57 then c - 48
      else if 97 \<le> c \<and> c \<le> 102 then c - 97 + 10
      else if 65 \<le> c \<and> c \<le> 70 then c - 65 + 10
      else - 1)"

fun ether_loop :: "string \<Rightarrow> nat \<Rightarrow> ether_addr \<Rightarrow> ether_addr \<times> bool" where
  "ether_loop [] pos addr = (addr, pos = 5)"
| "ether_loop (c # cs) pos addr =
     (if \<not> pos < 6 then (addr, False)
      else if c = CHR '':'' then ether_loop cs (pos + 1) addr
      else if addr ! pos \<ge> 16 then (addr, False)
      else ether_loop cs pos (addr[pos := push_bit 4 (addr ! pos) + of_int (ether_digit c)]))"

definition ether_aton_r :: "string \<Rightarrow> ether_addr \<times> bool" where
  "ether_aton_r asc = ether_loop asc 0 (replicate 6 0)"

section \<open>Printing\<close>

definition DEC2HEX :: string where
  "DEC2HEX = ''0123456789abcdef''"

definition allow_leading_zeros :: bool where
  "allow_leading_zeros = True"

definition ether_octet :: "u8 \<Rightarrow> string" where
  "ether_octet b =
     (let c = DEC2HEX ! unat (drop_bit 4 b) in
      (if allow_leading_zeros \<or> c \<noteq> CHR ''0'' then [c] else []) @ [DEC2HEX ! unat (b AND 0x0F), CHR '':''])"

text \<open>The last colon is overwritten by the terminating NUL.\<close>

definition ether_ntoa :: "ether_addr \<Rightarrow> string" where
  "ether_ntoa addr = butlast (concat (map ether_octet addr))"

lemma ether_octet_eq: "ether_octet b = [DEC2HEX ! unat (drop_bit 4 b), DEC2HEX ! unat (b AND 0x0F), CHR '':'']"
  by (simp add: ether_octet_def allow_leading_zeros_def Let_def)

section \<open>A reference parser\<close>

text \<open>Six groups between colons; each group is folded into one octet.\<close>

fun colon_groups :: "string \<Rightarrow> string list" where
  "colon_groups [] = [[]]"
| "colon_groups (c # cs) =
     (if c = CHR '':'' then [] # colon_groups cs
      else (c # hd (colon_groups cs)) # tl (colon_groups cs))"

fun group_octet :: "u8 \<Rightarrow> string \<Rightarrow> u8 option" where
  "group_octet v [] = Some v"
| "group_octet v (c # cs) =
     (if v \<ge> 16 then None else group_octet (push_bit 4 v + of_int (ether_digit c)) cs)"

definition ether_spec :: "string \<Rightarrow> ether_addr option" where
  "ether_spec s =
     (let gs = colon_groups s in if length gs = 6 then those (map (group_octet 0) gs) else None)"

definition accepted :: "ether_addr \<times> bool \<Rightarrow> ether_addr option" where
  "accepted r = (if snd r then Some (fst r) else None)"

lemma colon_groups_not_Nil [simp]: "colon_groups s \<noteq> []"
  by (cases s) auto

lemma length_colon_groups: "0 < length (colon_groups s)"
  by simp

lemma groups_map:
  "f (hd (colon_groups s)) # map f (tl (colon_groups s)) = map f (colon_groups s)"
  by (metis colon_groups_not_Nil list.map(2) list.collapse)

lemma ether_loop_full: "pos \<ge> 6 \<Longrightarrow> accepted (ether_loop s pos addr) = None"
  by (cases s) (auto simp: accepted_def)

text \<open>The octets that the groups give from a position on, in which digits may have been read already.\<close>

definition octets_from :: "nat \<Rightarrow> ether_addr \<Rightarrow> string list \<Rightarrow> ether_addr option" where
  "octets_from pos addr gs =
     (if length gs = 6 - pos
      then map_option (\<lambda>vs. take pos addr @ vs) (those (group_octet (addr ! pos) (hd gs) # map (group_octet 0) (tl gs)))
      else None)"

lemma octets_from_next:
  assumes "length addr = 6" "pos < 5" "addr ! Suc pos = 0"
  shows "octets_from pos addr ([] # colon_groups s) = octets_from (Suc pos) addr (colon_groups s)"
proof -
  have t: "take (Suc pos) addr = take pos addr @ [addr ! pos]" using assms(1,2) by (simp add: take_Suc_conv_app_nth)
  have l: "Suc n = 6 - pos \<longleftrightarrow> n = 5 - pos" for n using assms(2) by auto
  show ?thesis
    by (cases "those (map (group_octet 0) (colon_groups s))")
      (simp_all add: octets_from_def assms(3) l t groups_map option.map_comp del: those.simps, simp_all)
qed

lemma octets_from_digit:
  assumes "length addr = 6" "pos < 6" "addr ! pos < 16"
  shows "octets_from pos addr ((c # hd gs) # tl gs)
     = octets_from pos (addr[pos := push_bit 4 (addr ! pos) + of_int (ether_digit c)]) (hd gs # tl gs)"
  using assms by (simp add: octets_from_def not_le[symmetric])

lemma ether_loop_spec:
  assumes "length addr = 6" "pos < 6" "\<forall>k. pos < k \<and> k < 6 \<longrightarrow> addr ! k = 0"
  shows "accepted (ether_loop s pos addr) = octets_from pos addr (colon_groups s)"
  using assms
proof (induction s pos addr rule: ether_loop.induct)
  case (1 pos addr)
  then show ?case
    by (auto simp: accepted_def octets_from_def take_Suc_conv_app_nth[symmetric])
next
  case (2 c cs pos addr)
  consider "c = CHR '':''" "pos = 5" | "c = CHR '':''" "pos < 5" | "c \<noteq> CHR '':''" "addr ! pos \<ge> 16" | "c \<noteq> CHR '':''" "addr ! pos < 16"
    using 2(4) by fastforce
  then show ?case
  proof cases
    case 1
    then show ?thesis by (simp add: ether_loop_full octets_from_def)
  next
    case 2
    then show ?thesis using "2.IH"(1) "2.prems" octets_from_next[of addr pos cs] by simp
  next
    case 3
    then show ?thesis using 2(4) by (simp add: accepted_def octets_from_def)
  next
    case 4
    let ?addr = "addr[pos := push_bit 4 (addr ! pos) + of_int (ether_digit c)]"
    have "\<forall>k. pos < k \<and> k < 6 \<longrightarrow> ?addr ! k = 0" using "2.prems" by (simp add: nth_list_update)
    with "2.IH"(2) "2.prems" 4 have "accepted (ether_loop cs pos ?addr) = octets_from pos ?addr (colon_groups cs)" by simp
    then show ?thesis using 4 "2.prems"(2) octets_from_digit[OF "2.prems"(1,2) 4(2), of c "colon_groups cs"] by (simp add: not_le[symmetric])
  qed
qed

lemma ether_aton_r_spec: "accepted (ether_aton_r s) = ether_spec s"
proof -
  have "accepted (ether_loop s 0 (replicate 6 0)) = octets_from 0 (replicate 6 0) (colon_groups s)"
    by (rule ether_loop_spec) simp_all
  then show ?thesis
    by (simp add: ether_aton_r_def ether_spec_def octets_from_def groups_map option.map_ident del: those.simps)
qed

lemma ether_loop_length: "length (fst (ether_loop s pos addr)) = length addr"
  by (induction s pos addr rule: ether_loop.induct) auto

lemma ether_aton_r_wf: "wf_mac (fst (ether_aton_r s))"
  by (simp add: wf_mac_def ether_aton_r_def ether_loop_length)

section \<open>Printing and parsing\<close>

lemma DEC2HEX_digit: "n < 16 \<Longrightarrow> ether_digit (DEC2HEX ! n) = int n \<and> DEC2HEX ! n \<noteq> CHR '':''"
proof -
  have "list_all (\<lambda>n. ether_digit (DEC2HEX ! n) = int n \<and> DEC2HEX ! n \<noteq> CHR '':'') [0..<16]"
    by code_simp
  then show "n < 16 \<Longrightarrow> ?thesis" by (simp add: list_all_iff)
qed

lemma octet_nibbles:
  "unat (drop_bit 4 (b::u8)) < 16" "unat (b AND 0x0F) < 16"
  "16 * (drop_bit 4 b) + (b AND 0x0F) = b" "drop_bit 4 b < 16"
proof -
  have n: "unat b < 256" using unsigned_less[where ?'a = nat and w = b] by simp
  have d: "unat (drop_bit 4 b) = unat b div 16"
    by (simp add: unat_drop_bit_eq) (simp add: drop_bit_eq_div)
  have m: "b AND 0x0F = take_bit 4 b" by (simp add: take_bit_eq_mask mask_eq_exp_minus_1)
  have a: "unat (b AND 0x0F) = unat b mod 16"
    unfolding m by (simp add: unsigned_take_bit_eq) (simp add: take_bit_eq_mod)
  show "unat (drop_bit 4 b) < 16" "unat (b AND 0x0F) < 16" using n d a by auto
  then show "drop_bit 4 b < 16" by (simp add: word_less_nat_alt)
  have "16 * (drop_bit 4 b) + (b AND 0x0F) = push_bit 4 (drop_bit 4 b) + take_bit 4 b"
    by (simp add: m push_bit_eq_mult mult.commute)
  then show "16 * (drop_bit 4 b) + (b AND 0x0F) = b" by (simp add: bits_ident)
qed

lemma group_octet_ether:
  "group_octet 0 [DEC2HEX ! unat (drop_bit 4 b), DEC2HEX ! unat (b AND 0x0F)] = Some b"
  using octet_nibbles[of b] DEC2HEX_digit[of "unat (drop_bit 4 b)"] DEC2HEX_digit[of "unat (b AND 0x0F)"]
  by (simp add: not_le push_bit_eq_mult mult.commute)

lemma colon_groups_octet:
  "colon_groups (ether_octet b @ s) =
     [DEC2HEX ! unat (drop_bit 4 b), DEC2HEX ! unat (b AND 0x0F)] # colon_groups s"
  using octet_nibbles[of b] DEC2HEX_digit[of "unat (drop_bit 4 b)"] DEC2HEX_digit[of "unat (b AND 0x0F)"]
  by (simp add: ether_octet_eq)

lemma colon_groups_octet_last:
  "colon_groups [DEC2HEX ! unat (drop_bit 4 (b::u8)), DEC2HEX ! unat (b AND 0x0F)] =
     [[DEC2HEX ! unat (drop_bit 4 b), DEC2HEX ! unat (b AND 0x0F)]]"
  using octet_nibbles[of b] DEC2HEX_digit[of "unat (drop_bit 4 b)"] DEC2HEX_digit[of "unat (b AND 0x0F)"]
  by simp

lemma colon_groups_ntoa:
  "bs \<noteq> [] \<Longrightarrow> colon_groups (butlast (concat (map ether_octet bs))) =
     map (\<lambda>b::u8. [DEC2HEX ! unat (drop_bit 4 b), DEC2HEX ! unat (b AND 0x0F)]) bs"
proof (induction bs)
  case (Cons b bs)
  show ?case
  proof (cases "bs = []")
    case True
    then show ?thesis by (simp add: ether_octet_eq colon_groups_octet_last del: colon_groups.simps)
  next
    case False
    then have "concat (map ether_octet bs) \<noteq> []" by (cases bs) (auto simp: ether_octet_eq)
    with Cons.IH[OF False] show ?thesis
      by (simp only: list.map concat.simps butlast_append colon_groups_octet if_False)
  qed
qed simp

lemma those_Some: "(\<And>x. x \<in> set xs \<Longrightarrow> f x = Some (g x)) \<Longrightarrow> those (map f xs) = Some (map g xs)"
  by (induction xs) auto

lemma ether_roundtrip: "wf_mac m \<Longrightarrow> ether_aton_r (ether_ntoa m) = (m, True)"
proof -
  assume "wf_mac m"
  then have l: "length m = 6" "m \<noteq> []" by (auto simp: wf_mac_def)
  have "those (map (group_octet 0 \<circ> (\<lambda>b::u8. [DEC2HEX ! unat (drop_bit 4 b), DEC2HEX ! unat (b AND 0x0F)])) m)
      = Some (map id m)"
    by (rule those_Some) (simp only: comp_def group_octet_ether id_apply)
  then have "ether_spec (ether_ntoa m) = Some m"
    using l by (simp add: ether_spec_def ether_ntoa_def colon_groups_ntoa)
  then show ?thesis
    using ether_aton_r_spec[of "ether_ntoa m"] by (auto simp: accepted_def prod_eq_iff split: if_splits)
qed

lemma length_ether_ntoa: "wf_mac m \<Longrightarrow> length (ether_ntoa m) = 17"
  by (auto simp: wf_mac_def ether_ntoa_def ether_octet_eq length_concat comp_def sum_list_triv)

section \<open>Properties\<close>

text \<open>
  C40: the character loop of \<open>ether_aton_r\<close> accepts exactly the strings that the reference reading accepts, with the same address: six
  groups separated by colons, each read as a hexadecimal number in which the value before
  a further digit is below 16.
\<close>

theorem ether_aton_r_reference: "(if snd (ether_aton_r s) then Some (fst (ether_aton_r s)) else None) = ether_spec s"
  using ether_aton_r_spec[of s] by (simp add: accepted_def)

text \<open>
  Every printed MAC address is read back as the same address.
\<close>

theorem ether_print_parse:
  assumes "length m = 6"
  shows "ether_aton_r (ether_ntoa m) = (m, True)"
  using ether_roundtrip assms by (simp add: wf_mac_def)

theorem ether_print_parse_witness: "ether_aton_r (ether_ntoa [0, 0x0A, 0xFF, 1, 2, 3]) = ([0, 0x0A, 0xFF, 1, 2, 3], True)"
  using ether_print_parse[of "[0, 0x0A, 0xFF, 1, 2, 3]"] by simp

text \<open>
  Characters that are no hexadecimal digits are not rejected: they count as digits of the value \<open>-1\<close>.
\<close>

theorem invalid_digit_accepted: "ether_aton_r ''g:0:0:0:0:0'' = ([255, 0, 0, 0, 0, 0], True)"
  by code_simp

end
