(* ===== verification/Parameters.thy ===== *)
theory Parameters
  imports Prelude
begin

text \<open>The compile-time constants of \<open>src/src/parameters.h\<close>.\<close>

definition MAX_ERRORS :: nat where
  "MAX_ERRORS = 6"

definition RANDOM_MAC_BASE :: ether_addr where
  "RANDOM_MAC_BASE = [0xde, 0xad, 0xbe, 0xef, 0, 0]"

definition RANDOM_MAC_OCTET :: nat where
  "RANDOM_MAC_OCTET = 5"

definition BLACKLIST_RAND_COUNT :: int where
  "BLACKLIST_RAND_COUNT = 32"

definition BLACKLIST_RAND_PERIOD :: int where
  "BLACKLIST_RAND_PERIOD = 30000"

definition MAX_REQUESTS :: nat where
  "MAX_REQUESTS = 511"

definition ANTIDOS_TIME_BASE :: int where
  "ANTIDOS_TIME_BASE = 10"

definition ANTIDOS_COUNT_LOW :: u32 where
  "ANTIDOS_COUNT_LOW = 20"

definition ANTIDOS_COUNT_HIGH :: u32 where
  "ANTIDOS_COUNT_HIGH = 80"

definition ANTIDOS_COUNT_MAX :: u32 where
  "ANTIDOS_COUNT_MAX = 1000"

definition ANTIDOS_ENTRIES_MAX :: nat where
  "ANTIDOS_ENTRIES_MAX = 0x8000"

lemmas parameter_defs =
  MAX_ERRORS_def RANDOM_MAC_BASE_def RANDOM_MAC_OCTET_def BLACKLIST_RAND_COUNT_def
  BLACKLIST_RAND_PERIOD_def MAX_REQUESTS_def ANTIDOS_TIME_BASE_def ANTIDOS_COUNT_LOW_def
  ANTIDOS_COUNT_HIGH_def ANTIDOS_COUNT_MAX_def ANTIDOS_ENTRIES_MAX_def

end
