(* ===== verification/Util.thy ===== *)
theory Util
  imports Clib Ether Parameters
begin

text \<open>
  The helpers of \<open>src/src/util.c\<close> and \<open>src/src/util.h\<close>. What a function writes to a file
  descriptor is a list of (descriptor, text) pairs, in the order of the calls of
  \<open>write\<close>; a failed write is ignored by the program. The number formatter
  \<open>fmt_uint\<close> and the time stamp formatter \<open>fmt_tai64n\<close> of the \<open>ensc_fmt\<close> library are
  parameters.
\<close>

section \<open>Output\<close>

type_synonym writes = "(int \<times> string) list"

definition Vwrite :: "int \<Rightarrow> string \<Rightarrow> writes" where
  "Vwrite fd buf = [(fd, buf)]"

text \<open>The formatters the program gets from \<open>ensc_fmt\<close>.\<close>

record fmt_ops =
  fmt_uint :: "nat \<Rightarrow> string"
  fmt_tai64n :: "int \<Rightarrow> int \<Rightarrow> string"

text \<open>What is documented of \<open>fmt_uint\<close>: the decimal representation of an \<open>unsigned int\<close>.\<close>

definition fmt_uint_decimal :: "fmt_ops \<Rightarrow> bool" where
  "fmt_uint_decimal F \<longleftrightarrow> (\<forall>n < 2 ^ 32. fmt_uint F n = dec n)"

definition writeUInt :: "fmt_ops \<Rightarrow> int \<Rightarrow> nat \<Rightarrow> writes" where
  "writeUInt F fd val = Vwrite fd (fmt_uint F (nat (int val mod 2 ^ 32)))"

definition writeIP :: "int \<Rightarrow> in_addr \<Rightarrow> writes" where
  "writeIP fd ip = Vwrite fd (inet_ntoa ip)"

text \<open>
  The time stamp. The clock gives seconds and microseconds. With \<open>ENABLE_LOGGING\<close> the local
  time of day as \<open>strftime\<close> formats it (\<open>hms\<close>, empty on failure) is followed by the
  microseconds; \<open>fill_zeros\<close> counts the rounds of the loop that computes the padding.
\<close>

function fill_zeros :: "int \<Rightarrow> nat" where
  "fill_zeros aux = (if 0 < aux \<and> aux < 100000 then Suc (fill_zeros (aux * 10)) else 0)"
  by pat_completeness auto
termination
  by (relation "measure (\<lambda>aux. nat (100000 - aux))") auto

declare fill_zeros.simps [simp del]

record timeval =
  tv_sec :: int
  tv_usec :: int

definition writeMsgTimestamp :: "fmt_ops \<Rightarrow> bool \<Rightarrow> string \<Rightarrow> timeval \<Rightarrow> int \<Rightarrow> writes run" where
  "writeMsgTimestamp F enable_logging hms tv fd =
     (if fd = - 1 then Inr []
      else if enable_logging \<and> hms \<noteq> [] then
        (let aux = or (tv_usec tv) 1 in
         assertR (aux > 0)
           (Inr (Vwrite fd hms @ Vwrite fd (take (fill_zeros aux) ''000000'')
                 @ writeUInt F fd (nat (tv_usec tv mod 2 ^ 32)))))
      else Inr (Vwrite fd (fmt_tai64n F (tv_sec tv) (tv_usec tv))))"

lemma or_one_pos: "0 \<le> (i::int) \<Longrightarrow> 0 < or i 1"
  by (cases "i = 0") (auto simp: or_one_eq)

lemma writeMsgTimestamp_ok: "0 \<le> tv_usec tv \<Longrightarrow> specR S (writeMsgTimestamp F l h tv fd) (\<lambda>w. True)"
  using or_one_pos[of "tv_usec tv"] by (simp add: writeMsgTimestamp_def Let_def)

section \<open>Bounded concatenation\<close>

text \<open>
  \<open>xstrcatn\<close> appends to a buffer through a write pointer and a count of free bytes: here the text
  written so far and that count.
\<close>

definition xstrcatn :: "string \<times> nat \<Rightarrow> string \<Rightarrow> string \<times> nat" where
  "xstrcatn d src = (let len = min (snd d) (length src) in (fst d @ take len src, snd d - len))"

text \<open>Of a C string, given by its characters before the NUL.\<close>

definition xstrcat :: "string \<times> nat \<Rightarrow> string \<Rightarrow> string \<times> nat" where
  "xstrcat d src = xstrcatn d src"

section \<open>MAC addresses\<close>

definition xether_aton_r :: "ether_addr \<Rightarrow> string \<Rightarrow> ether_addr \<times> bool" where
  "xether_aton_r local_mac_address asc =
     (if asc = ''LOCAL'' then (local_mac_address, True)
      else ether_aton_r (if asc = ''802.1d'' then ''01:80:C2:00:00:00''
                         else if asc = ''802.3x'' then ''01:80:C2:00:00:01''
                         else asc))"

definition DEFAULT_MAC :: ether_addr where
  [simp]: "DEFAULT_MAC = RANDOM_MAC_BASE"

text \<open>\<open>t\<close> is the value of \<open>time(0)\<close> and \<open>r\<close> that of \<open>rand()\<close>.\<close>

definition Util_setRandomMac :: "int \<Rightarrow> int \<Rightarrow> ether_addr" where
  "Util_setRandomMac t r =
     DEFAULT_MAC[RANDOM_MAC_OCTET :=
       of_int (c_mod (c_mod r BLACKLIST_RAND_COUNT + c_div t BLACKLIST_RAND_PERIOD) 256)]"

section \<open>Facts\<close>

lemma xether_aton_r_wf: "wf_mac lm \<Longrightarrow> wf_mac (fst (xether_aton_r lm s))"
  by (simp add: xether_aton_r_def ether_aton_r_wf)

lemma xether_aton_ntoa: "wf_mac m \<Longrightarrow> xether_aton_r lm (ether_ntoa m) = (m, True)"
  using ether_roundtrip[of m] length_ether_ntoa[of m] by (auto simp: xether_aton_r_def)

lemma Util_setRandomMac_wf [simp]: "wf_mac (Util_setRandomMac t r)"
  by (simp add: Util_setRandomMac_def parameter_defs wf_mac_def)

lemma of_int8_mod: "(of_int (x mod 256) :: u8) = of_int x"
  by (simp add: word_of_int_eq_iff take_bit_eq_mod)

lemma of_int8_inj: "0 \<le> x \<Longrightarrow> x < 256 \<Longrightarrow> 0 \<le> y \<Longrightarrow> y < 256 \<Longrightarrow> (of_int x :: u8) = of_int y \<longleftrightarrow> x = y"
  by (simp add: word_of_int_eq_iff take_bit_eq_mod)

definition rand_mac :: "int \<Rightarrow> ether_addr" where
  "rand_mac n = [0xde, 0xad, 0xbe, 0xef, 0, of_int n]"

lemma rand_mac_eq_iff: "rand_mac m = rand_mac n \<longleftrightarrow> m mod 256 = n mod 256"
  by (simp add: rand_mac_def word_of_int_eq_iff take_bit_eq_mod)

lemma random_mac_window:
  assumes "0 \<le> t" "0 \<le> r"
  shows "Util_setRandomMac t r = rand_mac (t div 30000 + r mod 32)"
proof -
  have "c_mod (c_mod r 32 + c_div t 30000) 256 = (t div 30000 + r mod 32) mod 256"
    using assms by (simp add: c_div_nonneg c_mod_nonneg pos_imp_zdiv_nonneg_iff add.commute)
  then show ?thesis
    by (simp add: Util_setRandomMac_def parameter_defs rand_mac_def of_int8_mod del: of_int_add)
qed

text \<open>The addresses that can be drawn at time \<open>t\<close>.\<close>

definition mac_window :: "int \<Rightarrow> ether_addr set" where
  "mac_window t = {Util_setRandomMac t r | r. 0 \<le> r}"

lemma mac_window_image: "0 \<le> t \<Longrightarrow> mac_window t = (\<lambda>k. rand_mac (t div 30000 + k)) ` {0..<32}"
proof (intro set_eqI iffI)
  fix m assume "0 \<le> t" "m \<in> (\<lambda>k. rand_mac (t div 30000 + k)) ` {0..<32}"
  then obtain k where "0 \<le> k" "k < 32" "m = rand_mac (t div 30000 + k)" by auto
  with \<open>0 \<le> t\<close> show "m \<in> mac_window t"
    unfolding mac_window_def by (auto simp: random_mac_window intro!: exI[of _ k])
qed (auto simp: mac_window_def random_mac_window)

lemma rand_mac_inj: "inj_on (\<lambda>k. rand_mac (n + k)) {0..<32}"
proof (rule inj_onI)
  fix i j :: int assume *: "i \<in> {0..<32}" "j \<in> {0..<32}" "rand_mac (n + i) = rand_mac (n + j)"
  then have "(n + i) mod 256 = (n + j) mod 256" by (simp only: rand_mac_eq_iff)
  then have "256 dvd (i - j)" by (simp add: mod_eq_dvd_iff)
  then show "i = j" using *(1,2) zdvd_imp_le[of 256 "i - j"] zdvd_imp_le[of 256 "j - i"]
    by (cases i j rule: linorder_cases) (auto simp: dvd_diff_commute)
qed

lemma fill_zeros_dec:
  assumes "0 < v" "v < 1000000"
  shows "fill_zeros (int v) + length (dec v) = 6"
proof -
  have *: "fill_zeros (int v) = (if v < 10 then 5 else if v < 100 then 4 else if v < 1000 then 3
             else if v < 10000 then 2 else if v < 100000 then 1 else 0)"
    using assms by (simp add: fill_zeros.simps)
  have **: "length (dec v) = (if v < 10 then 1 else if v < 100 then 2 else if v < 1000 then 3
             else if v < 10000 then 4 else if v < 100000 then 5 else 6)"
    using assms by (simp add: dec.simps div_less_iff_less_mult)
  show ?thesis unfolding * ** by simp
qed

lemma or_1_digits: "0 < u \<Longrightarrow> or (u::int) 1 = (if even u then u + 1 else u)"
  by (cases "even u") (auto simp: or_one_eq)

lemma length_dec_even: "even v \<Longrightarrow> 0 < v \<Longrightarrow> length (dec (Suc v)) = length (dec v)"
proof -
  assume "even v" "0 < v"
  have "\<not> 10 dvd Suc v" using \<open>even v\<close> by (metis dvd_trans even_Suc even_numeral)
  then have "Suc v div 10 = v div 10" by (simp add: div_Suc dvd_eq_mod_eq_0)
  moreover have "v \<noteq> 9" using \<open>even v\<close> by auto
  then have "Suc v < 10 \<longleftrightarrow> v < 10" by auto
  ultimately show ?thesis by (simp add: dec.simps[of v] dec.simps[of "Suc v"])
qed

lemma digits_acc_zeros: "digits_acc 10 0 n (replicate k (CHR ''0'') @ s) = digits_acc 10 0 (n + k) s"
proof (induction k arbitrary: n)
  case (Suc k)
  have "digit_in 10 (CHR ''0'') = Some 0" by code_simp
  with Suc show ?case by simp
qed simp

lemma strtol_zeros_dec:
  assumes "int v < 2 ^ 63"
  shows "strtol 10 (replicate k (CHR ''0'') @ dec v) = (int v, k + length (dec v))"
proof -
  let ?s = "replicate k (CHR ''0'') @ dec v"
  have z: "isdigit (CHR ''0'')" by code_simp
  obtain c cs where s: "?s = c # cs" by (cases ?s) auto
  have "c \<in> set ?s" unfolding s by simp
  then have c: "isdigit c" using dec_digits z by auto
  have "digits_acc 10 0 0 ?s = (v, k + length (dec v))"
    using digits_acc_dec[of 0 k v "[]"] by (simp add: digits_acc_zeros)
  then show ?thesis
    using assms c unfolding s by (auto simp: strtol_def strtol_base_def Let_def isdigit_not_special long_clamp_def min_def max_def)
qed

section \<open>Properties\<close>

text \<open>
  C39: at every time 32 different random MAC addresses are in use; when 30000 seconds have passed,
  the oldest one has left this window and one new address has joined it.
\<close>

theorem random_mac_rotation:
  assumes "0 \<le> t"
  shows "card (mac_window t) = 32
    \<and> mac_window (t + 30000) =
        insert (Util_setRandomMac (t + 30000) 31) (mac_window t - {Util_setRandomMac t 0})
    \<and> Util_setRandomMac (t + 30000) 31 \<notin> mac_window t"
proof -
  let ?n = "t div 30000"
  have t': "(t + 30000) div 30000 = ?n + 1" by simp
  have old: "Util_setRandomMac t 0 = rand_mac ?n" "Util_setRandomMac (t + 30000) 31 = rand_mac (?n + 32)"
    using assms t' by (simp_all add: random_mac_window add.assoc)
  have w: "mac_window t = (\<lambda>k. rand_mac (?n + k)) ` {0..<32}"
    "mac_window (t + 30000) = (\<lambda>k. rand_mac (?n + 1 + k)) ` {0..<32}"
    using assms by (simp_all add: mac_window_image t')
  have i: "{0..<32::int} = insert 0 {1..<32}" "(\<lambda>k. 1 + k) ` {0..<32::int} = insert 32 {1..<32}"
    by (auto simp: image_iff Bex_def intro: exI[of _ "_ - 1"])
  have ne: "rand_mac (?n + k) \<noteq> rand_mac (?n + j)" if "0 \<le> j" "j < k" "k < 256" for j k
  proof
    assume "rand_mac (?n + k) = rand_mac (?n + j)"
    then have "256 dvd (k - j)" by (simp only: rand_mac_eq_iff) (simp add: mod_eq_dvd_iff)
    then show False using that zdvd_imp_le[of 256 "k - j"] by simp
  qed
  have "(\<lambda>k. rand_mac (?n + k)) ` {1..<32} = mac_window t - {rand_mac ?n}"
    unfolding w(1) i(1) using ne[of 0] by fastforce
  moreover have "mac_window (t + 30000) = (\<lambda>k. rand_mac (?n + k)) ` ((\<lambda>k. 1 + k) ` {0..<32})"
    unfolding w(2) image_image by (simp only: add.assoc)
  moreover have "rand_mac (?n + 32) \<notin> mac_window t" unfolding w(1) using ne by fastforce
  moreover have "card (mac_window t) = 32" unfolding w(1) by (simp add: card_image rand_mac_inj)
  ultimately show ?thesis unfolding old i(2) by simp
qed

theorem random_mac_rotation_witness:
  "(0::int) \<le> 1000000000 \<and> card (mac_window 1000000000) = 32"
  using random_mac_rotation[of 1000000000] by simp

text \<open>
  With \<open>ENABLE_LOGGING\<close>, the microseconds of a time stamp are printed as exactly six
  decimal digits that read back as their value.
\<close>

theorem timestamp_microseconds:
  assumes "fmt_uint_decimal F" "0 \<le> tv_usec tv" "tv_usec tv < 1000000" "fd \<noteq> - 1" "hms \<noteq> []"
  shows "\<exists>z d. writeMsgTimestamp F True hms tv fd = Inr [(fd, hms), (fd, z), (fd, d)]
             \<and> length (z @ d) = 6 \<and> strtol 10 (z @ d) = (tv_usec tv, 6)"
proof -
  define u where "u = nat (tv_usec tv)"
  have u: "tv_usec tv = int u" "u < 1000000" using assms(2,3) by (auto simp: u_def)
  define z where "z = fill_zeros (or (int u) 1)"
  have "z + length (dec u) = 6 \<and> 0 < or (int u) 1"
  proof (cases "u = 0")
    case True
    then show ?thesis by (simp add: z_def dec_0 fill_zeros.simps)
  next
    case False
    have o: "or (int u) 1 = int (if even u then Suc u else u)" using False by (simp add: or_1_digits)
    have "even u \<Longrightarrow> Suc u < 1000000" using u(2) by presburger
    with False fill_zeros_dec[of u] fill_zeros_dec[of "Suc u"] u(2) length_dec_even[of u] show ?thesis
      unfolding z_def o by auto
  qed
  then have z: "z + length (dec u) = 6" "0 < or (int u) 1" by blast+
  then have "z \<le> 6" by simp
  then have "take z ''000000'' = replicate z (CHR ''0'')"
    by (auto simp: take_Cons' numeral_eq_Suc le_Suc_eq)
  moreover have "fmt_uint F u = dec u" using assms(1) u(2) by (auto simp: fmt_uint_decimal_def)
  moreover have "nat (int u mod 4294967296) = u" using u(2) by simp
  ultimately have "writeMsgTimestamp F True hms tv fd = Inr [(fd, hms), (fd, replicate z (CHR ''0'')), (fd, dec u)]"
    using assms(4,5) z(2) by (simp add: writeMsgTimestamp_def u(1) z_def Vwrite_def writeUInt_def Let_def)
  then show ?thesis using strtol_zeros_dec[of u z] u z(1) by auto
qed

definition dec_ops :: fmt_ops where
  "dec_ops = \<lparr>fmt_uint = dec, fmt_tai64n = (\<lambda>s u. ''@'' @ dec (nat s) @ dec (nat u))\<rparr>"

lemma dec_ops_decimal [simp]: "fmt_uint_decimal dec_ops"
  by (simp add: fmt_uint_decimal_def dec_ops_def)

theorem timestamp_microseconds_witness:
  "\<exists>z d. writeMsgTimestamp dec_ops True ''12:00:00'' \<lparr>tv_sec = 43200, tv_usec = 42\<rparr> 1
        = Inr [(1, ''12:00:00''), (1, z), (1, d)] \<and> length (z @ d) = 6 \<and> strtol 10 (z @ d) = (42, 6)"
  using timestamp_microseconds[of dec_ops "\<lparr>tv_sec = 43200, tv_usec = 42\<rparr>" 1 "''12:00:00''"] by simp

end
