(* ===== verification/Output.thy ===== *)
theory Output
  imports Util
begin

text \<open>
  Programs with output: what is written so far, and the result or the reason of the stop. Unlike with a result of type
  \<open>run\<close> the messages in front of an \<open>exit\<close> are part of the model.
\<close>

section \<open>Programs with output\<close>

type_synonym 'a out = "writes \<times> 'a run"

definition returnO :: "'a \<Rightarrow> 'a out" where
  "returnO x = ([], Inr x)"

definition stopO :: "stop \<Rightarrow> 'a out" where
  "stopO s = ([], Inl s)"

definition putO :: "writes \<Rightarrow> unit out" where
  "putO w = (w, Inr ())"

definition liftO :: "'a run \<Rightarrow> 'a out" where
  "liftO r = ([], r)"

definition bindO :: "'a out \<Rightarrow> ('a \<Rightarrow> 'b out) \<Rightarrow> 'b out" where
  "bindO m f = (case m of (w, Inl s) \<Rightarrow> (w, Inl s) | (w, Inr x) \<Rightarrow> (case f x of (w', r) \<Rightarrow> (w @ w', r)))"

text \<open>Messages and then the end of the process.\<close>

definition failO :: "writes \<Rightarrow> stop \<Rightarrow> 'a out" where
  "failO w s = (w, Inl s)"

fun foldO :: "('s \<Rightarrow> 'a \<Rightarrow> 's out) \<Rightarrow> 's \<Rightarrow> 'a list \<Rightarrow> 's out" where
  "foldO f s [] = returnO s"
| "foldO f s (x # xs) =
     (case f s x of
        (w, Inl e) \<Rightarrow> (w, Inl e)
      | (w, Inr s') \<Rightarrow> (case foldO f s' xs of (w', r) \<Rightarrow> (w @ w', r)))"

text \<open>A function of the model that returns its messages with its result.\<close>

definition liftW :: "('a \<times> writes) run \<Rightarrow> 'a out" where
  "liftW r = (case r of Inl s \<Rightarrow> ([], Inl s) | Inr (x, w) \<Rightarrow> (w, Inr x))"

text \<open>Lines of text.\<close>

definition text_lines :: "string list \<Rightarrow> string" where
  "text_lines ls = concat (map (\<lambda>l. l @ [NL]) ls)"

section \<open>Rules\<close>

lemma bindO_simps [simp]:
  "bindO (w, Inl s) f = (w, Inl s)" "bindO (w, Inr x) f = (w @ fst (f x), snd (f x))"
  "bindO (returnO x) f = f x" "bindO (stopO s) f = stopO s" "bindO (failO w s) f = failO w s"
  by (simp_all add: bindO_def returnO_def stopO_def failO_def split: prod.splits)

lemma bindO_lift [simp]: "bindO (liftO (Inr x)) f = f x" "bindO (liftO (Inl s)) f = stopO s"
  by (simp_all add: liftO_def stopO_def)

text \<open>The result of a program is the one of its steps without their output.\<close>

lemma result_simps [simp]:
  "snd (returnO x) = Inr x" "snd (stopO s) = Inl s" "snd (failO w s) = Inl s" "snd (putO w) = Inr ()" "snd (liftO r) = r"
  "snd (bindO m f) = bindR (snd m) (\<lambda>x. snd (f x))"
  by (cases m; cases "snd m"; auto simp: bindO_def returnO_def stopO_def failO_def putO_def liftO_def split: prod.splits)+

lemma bindO_assoc: "bindO (bindO m f) g = bindO m (\<lambda>x. bindO (f x) g)"
  by (cases m; cases "snd m") (auto simp: bindO_def split: sum.splits prod.splits)

lemma bindO_returnO [simp]: "bindO m returnO = m"
  by (cases m; cases "snd m") (auto simp: returnO_def)

lemma foldO_Cons: "foldO f s (x # xs) = bindO (f s x) (\<lambda>s. foldO f s xs)"
  by (simp add: bindO_def)

declare foldO.simps(2) [simp del] foldO_Cons [simp]

lemma result_foldO: "snd (foldO f s xs) = foldR (\<lambda>s x. snd (f s x)) s xs"
  by (induction xs arbitrary: s) simp_all

text \<open>For evaluation by rewriting: the steps in front first.\<close>

lemma foldO_code [code]:
  "foldO f s xs =
     foldl (\<lambda>m x. case m of (w, Inl e) \<Rightarrow> (w, Inl e) | (w, Inr s) \<Rightarrow> (case f s x of (w', r) \<Rightarrow> (w @ w', r))) ([], Inr s) xs"
proof -
  let ?g = "\<lambda>m x. case m of (w, Inl e) \<Rightarrow> (w, Inl e) | (w, Inr s) \<Rightarrow> (case f s x of (w', r) \<Rightarrow> (w @ w', r))"
  have "foldl ?g m xs = bindO m (\<lambda>s. foldO f s xs)" for m
  proof (induction xs arbitrary: m)
    case (Cons x xs)
    have "?g m x = bindO m (\<lambda>s. f s x)" by (simp add: bindO_def)
    then show ?case by (simp add: Cons bindO_assoc)
  qed (simp flip: returnO_def)
  from this[of "([], Inr s)"] show ?thesis by simp
qed

lemma foldO_append: "foldO f s (xs @ ys) = bindO (foldO f s xs) (\<lambda>s. foldO f s ys)"
  by (induction xs arbitrary: s) (simp_all add: bindO_assoc)

lemma putO_append: "putO (v @ w) = bindO (putO v) (\<lambda>_. putO w)"
  by (simp add: putO_def)

text \<open>What a program that returns has written, as one text; the descriptors are left out.\<close>

definition output_text :: "'a out \<Rightarrow> string run" where
  "output_text m = bindR (snd m) (\<lambda>_. Inr (concat (map snd (fst m))))"

end
