(* ===== verification/Getopt.thy ===== *)
theory Getopt
  imports Prelude
begin

text \<open>
  \<open>getopt_long\<close> of the GNU C library, as \<open>parseOptions\<close> of \<open>src/src/arguments.c\<close> calls it until it returns \<open>-1\<close>: the values it
  returns with the contents of \<open>optarg\<close>, and the operands that are left behind \<open>optind\<close>. Its own error messages are left out.
\<close>

section \<open>Options\<close>

text \<open>An entry of the table of long options; \<open>flag\<close> is a null pointer in the program.\<close>

record long_option =
  lo_name :: string
  lo_has_arg :: bool
  lo_val :: int

type_synonym option_event = "int \<times> string"

definition char_code :: "char \<Rightarrow> int" where
  "char_code c = int (of_char c)"

definition OPT_ERROR :: option_event where
  "OPT_ERROR = (char_code (CHR ''?''), [])"

text \<open>A character of the string of short options; a colon behind it stands for an argument.\<close>

fun short_option :: "string \<Rightarrow> char \<Rightarrow> bool option" where
  "short_option [] c = None"
| "short_option (x # xs) c =
     (if x = c \<and> c \<notin> set '':;'' then Some (xs \<noteq> [] \<and> hd xs = CHR '':'') else short_option xs c)"

text \<open>
  The options behind one dash. An option that takes an argument takes the rest of the word, or the next word (\<open>nxt\<close>); the
  flag tells whether that one was used.
\<close>

fun short_cluster :: "string \<Rightarrow> string option \<Rightarrow> string \<Rightarrow> option_event list \<times> bool" where
  "short_cluster optstring nxt [] = ([], False)"
| "short_cluster optstring nxt (c # cs) =
     (case short_option optstring c of
        None \<Rightarrow> (case short_cluster optstring nxt cs of (es, u) \<Rightarrow> (OPT_ERROR # es, u))
      | Some False \<Rightarrow> (case short_cluster optstring nxt cs of (es, u) \<Rightarrow> ((char_code c, []) # es, u))
      | Some True \<Rightarrow>
          if cs \<noteq> [] then ([(char_code c, cs)], False)
          else (case nxt of None \<Rightarrow> ([OPT_ERROR], False) | Some a \<Rightarrow> ([(char_code c, a)], True)))"

text \<open>
  A long option: the entry with this name, or else the one that the name abbreviates, unless entries with different meanings
  come into question.
\<close>

definition find_long :: "long_option list \<Rightarrow> string \<Rightarrow> long_option option" where
  "find_long table nm =
     (case filter (\<lambda>p. lo_name p = nm) table of
        p # _ \<Rightarrow> Some p
      | [] \<Rightarrow>
          (case filter (\<lambda>p. take (length nm) (lo_name p) = nm) table of
             [] \<Rightarrow> None
           | p # ps \<Rightarrow> if list_all (\<lambda>q. lo_has_arg q = lo_has_arg p \<and> lo_val q = lo_val p) ps then Some p else None))"

definition long_word :: "long_option list \<Rightarrow> string option \<Rightarrow> string \<Rightarrow> option_event \<times> bool" where
  "long_word table nxt word =
     (let nm = takeWhile (\<lambda>c. c \<noteq> CHR ''='') word; rest = drop (length nm) word in
      case find_long table nm of
        None \<Rightarrow> (OPT_ERROR, False)
      | Some p \<Rightarrow>
          if rest \<noteq> [] then (if lo_has_arg p then ((lo_val p, tl rest), False) else (OPT_ERROR, False))
          else if lo_has_arg p
          then (case nxt of None \<Rightarrow> (OPT_ERROR, False) | Some a \<Rightarrow> ((lo_val p, a), True))
          else ((lo_val p, []), False))"

text \<open>
  All words behind the program name. Operands are moved behind the options, unless \<open>POSIXLY_CORRECT\<close> is set (\<open>posix\<close>); the word \<open>--\<close> ends
  the options.
\<close>

definition next_word :: "string list \<Rightarrow> string option" where
  "next_word ws = (case ws of [] \<Rightarrow> None | w # _ \<Rightarrow> Some w)"

function getopt_words :: "bool \<Rightarrow> string \<Rightarrow> long_option list \<Rightarrow> string list \<Rightarrow> option_event list \<times> string list" where
  "getopt_words posix optstring table [] = ([], [])"
| "getopt_words posix optstring table (w # ws) =
     (if w = ''--'' then ([], ws)
      else if take 2 w = ''--'' then
        (case long_word table (next_word ws) (drop 2 w) of (e, used) \<Rightarrow>
         case getopt_words posix optstring table (if used then tl ws else ws) of (es, ops) \<Rightarrow> (e # es, ops))
      else if take 1 w = ''-'' \<and> tl w \<noteq> [] then
        (case short_cluster optstring (next_word ws) (tl w) of (e, used) \<Rightarrow>
         case getopt_words posix optstring table (if used then tl ws else ws) of (es, ops) \<Rightarrow> (e @ es, ops))
      else if posix then ([], w # ws)
      else (case getopt_words posix optstring table ws of (es, ops) \<Rightarrow> (es, w # ops)))"
  by pat_completeness auto
termination
  by (relation "measure (\<lambda>(_, _, _, ws). length ws)") auto

declare getopt_words.simps(2) [simp del]

end
