(* ===== verification/Arguments.thy ===== *)
theory Arguments
  imports Output Getopt
begin

text \<open>
  The command line of \<open>src/src/arguments.c\<close>: the table of options, the texts of \<open>--help\<close> and \<open>--version\<close>, and the evaluation of
  the options that \<open>getopt_long\<close> delivers. The default file names, the default user and the version are fixed by the
  build and are arguments here.
\<close>

section \<open>Data\<close>

datatype mac_type = mcRANDOM | mcFIXED | mcLOCAL | mcSAME

record TaggedMac =
  tm_type :: mac_type
  tm_ether :: ether_addr

datatype direction = dirFROM | dirTO | dirBOTH

record Arguments =
  a_ipfile :: string
  a_pidfile :: string
  a_logfile :: string
  a_errfile :: string
  a_user :: string
  a_group :: "string option"
  a_do_fork :: bool
  a_chroot :: "string option"
  a_iface :: string
  a_do_poison :: bool
  a_action_cmd :: "string option"
  a_arp_dir :: direction
  a_mac :: TaggedMac
  a_llmac :: TaggedMac

record build_defaults =
  DEFAULT_IPFILE :: string
  DEFAULT_PIDFILE :: string
  DEFAULT_LOGFILE :: string
  DEFAULT_ERRFILE :: string
  DEFAULT_USER :: string
  PACKAGE_VERSION :: string
  PACKAGE_BUGREPORT :: string

section \<open>Options\<close>

definition OPTION_MAC :: int where "OPTION_MAC = 1024"
definition OPTION_LLMAC :: int where "OPTION_LLMAC = 1025"
definition OPTION_DIRECTION :: int where "OPTION_DIRECTION = 1026"
definition OPTION_POISON :: int where "OPTION_POISON = 1027"

lemmas option_codes = OPTION_MAC_def OPTION_LLMAC_def OPTION_DIRECTION_def OPTION_POISON_def char_code_def

definition long_opt :: "string \<Rightarrow> bool \<Rightarrow> int \<Rightarrow> long_option" where
  "long_opt nm has_arg val = \<lparr>lo_name = nm, lo_has_arg = has_arg, lo_val = val\<rparr>"

definition cmdline_options :: "long_option list" where
  "cmdline_options =
     [long_opt ''ipfile'' True (char_code (CHR ''i'')),
      long_opt ''pidfile'' True (char_code (CHR ''p'')),
      long_opt ''logfile'' True (char_code (CHR ''l'')),
      long_opt ''errfile'' True (char_code (CHR ''e'')),
      long_opt ''user'' True (char_code (CHR ''u'')),
      long_opt ''group'' True (char_code (CHR ''g'')),
      long_opt ''nofork'' False (char_code (CHR ''n'')),
      long_opt ''chroot'' True (char_code (CHR ''r'')),
      long_opt ''help'' False (char_code (CHR ''h'')),
      long_opt ''version'' False (char_code (CHR ''v'')),
      long_opt ''action'' True (char_code (CHR ''a'')),
      long_opt ''mac'' True OPTION_MAC,
      long_opt ''llmac'' True OPTION_LLMAC,
      long_opt ''direction'' True OPTION_DIRECTION,
      long_opt ''poison'' False OPTION_POISON]"

definition cmdline_optstring :: string where
  "cmdline_optstring = ''hi:p:l:e:u:g:nr:''"

section \<open>Messages\<close>

definition printHelp :: "build_defaults \<Rightarrow> string \<Rightarrow> int \<Rightarrow> writes" where
  \<open>printHelp D cmd fd =
     Vwrite fd (text_lines
       [''ip-sentinel '' @ PACKAGE_VERSION D @ '' -- keeps your ip-space clean'',
        '''',
        ''Usage: ''] @ ''   '')
     @ Vwrite fd cmd
     @ Vwrite fd (text_lines
       ['' [--ipfile|-i <FILE>] [--pidfile|-p <FILE>]'',
        ''        [--logfile|-l <FILE>] [--errfile|-e <FILE>]'' @ '' [--user|-u <USER>]'',
        ''        [--chroot|-r <DIR>] [--nofork|-n] [--mac MAC] '',
        ''        [--help|-h] [--version] <interface>'',
        '''',
        ''      --ipfile|-i <FILE>      read blocked IPs from FILE ['' @ DEFAULT_IPFILE D @ '']'',
        ''                              within CHROOT'',
        ''      --pidfile|-p <FILE>     write daemon-pid into FILE'',
        ''                              ['' @ DEFAULT_PIDFILE D @ '']'',
        ''      --logfile|-l <FILE>     log activities into FILE'',
        ''                              ['' @ DEFAULT_LOGFILE D @ '']'',
        ''      --errfile|-e <FILE>     log errors into FILE'',
        ''                              ['' @ DEFAULT_ERRFILE D @ '']'',
        ''      --user|-u <USER>        run as user USER ['' @ DEFAULT_USER D @ '']'',
        ''      --group|-g <GROUP>      run as group GROUP [gid of user]'',
        ''      --chroot|-r <DIR>       go into chroot-jail at DIR [<HOME>]'',
        ''      --nofork|-n             do not fork a daemon-process'',
        ''      --mac <MAC>             use MAC as the default faked mac address;'',
        ''                              possible values are LOCAL, RANDOM, 802.1d,'',
        ''                              802.3x or a real mac [802.3x]'',
        ''      --llmac <MAC>           use MAC as the default mac address in link-level'',
        ''                              headers when answering requests *from* intruders;'',
        ''                              additionally to the values described at '--mac','',
        ''                              <MAC> can be 'SAME' which means that the mac from'',
        ''                              the arp-header will be used. [LOCAL]'',
        ''      --direction <DIR>       answer arp-requests going into the specified'',
        ''                              direction (relative to the intruder) only.'',
        ''                              Valid values are 'FROM', 'TO' and 'BOTH'. [BOTH]'',
        ''      --poison                generate faked ARP-answers for an intruder's ip'',
        ''                              address when *he* sends a request. Works only'',
        ''                              in combination with '--direction FROM|BOTH'.'',
        ''      --action <program>      execute <program> when faked replies will be'',
        ''                              generated. This program will be called with 6'',
        ''                              arguments: <type> <spa> <sha> <tpa> <tha> <mac>.'',
        ''      --help|-h               display this text and exit'',
        ''      --version               print version and exit'',
        ''      interface               ethernet-interface where to listen'',
        ''                              on ARP-requests'',
        '''',
        ''Please report errors to <'' @ PACKAGE_BUGREPORT D @ ''>''])\<close>

definition printVersion :: "build_defaults \<Rightarrow> int \<Rightarrow> writes" where
  \<open>printVersion D fd =
     Vwrite fd (text_lines
       [''ip-sentinel '' @ PACKAGE_VERSION D @ '' -- keeps your ip-space clean'',
        ''Copyright 2002,2003 Enrico Scholz'',
        ''This program is free software; you may redistribute it under the terms of'',
        ''the GNU General Public License.  This program has absolutely no warranty.''])\<close>

text \<open>The hint at the end of a refused command line; the first message is capitalised.\<close>

definition hint :: "string \<Rightarrow> string \<Rightarrow> writes" where
  "hint try cmd =
     Vwrite 2 (try @ [CHR '' '', CHR 0x22]) @ Vwrite 2 cmd
     @ Vwrite 2 ('' --help'' @ [CHR 0x22] @ '' for more information.'' @ [NL])"

section \<open>Operations\<close>

definition Arguments_parseMac :: "ether_addr \<Rightarrow> string \<Rightarrow> TaggedMac \<Rightarrow> bool \<Rightarrow> TaggedMac out" where
  "Arguments_parseMac lm optarg mac allow_same =
     (if optarg = ''RANDOM'' then returnO (mac\<lparr>tm_type := mcRANDOM\<rparr>)
      else if optarg = ''LOCAL'' then returnO (mac\<lparr>tm_type := mcLOCAL\<rparr>)
      else if allow_same \<and> optarg = ''SAME'' then returnO (mac\<lparr>tm_type := mcSAME\<rparr>)
      else let (ether, ok) = xether_aton_r lm optarg in
        if \<not> ok then failO (Vwrite 2 (''invalid mac specified'' @ [NL])) (Exit 1)
        else returnO (mac\<lparr>tm_ether := ether, tm_type := mcFIXED\<rparr>))"

definition Arguments_parseDirection :: "string \<Rightarrow> Arguments \<Rightarrow> Arguments out" where
  \<open>Arguments_parseDirection optarg options =
     (if optarg = ''FROM'' then returnO (options\<lparr>a_arp_dir := dirFROM\<rparr>)
      else if optarg = ''TO'' then returnO (options\<lparr>a_arp_dir := dirTO\<rparr>)
      else if optarg = ''BOTH'' then returnO (options\<lparr>a_arp_dir := dirBOTH\<rparr>)
      else failO (Vwrite 2 (''invalid value for '' @ [CHR 0x27] @ ''--direction'' @ [CHR 0x27] @ '' specified'' @ [NL])) (Exit 1))\<close>

text \<open>
  One turn of the loop over the options: \<open>c\<close> is the value of \<open>getopt_long\<close> and \<open>optarg\<close> the argument. At this time
  \<open>local_mac_address\<close> (\<open>lm\<close>) is not set yet.
\<close>

definition parse_option :: "ether_addr \<Rightarrow> build_defaults \<Rightarrow> string \<Rightarrow> Arguments \<Rightarrow> option_event \<Rightarrow> Arguments out" where
  "parse_option lm D cmd options ev =
     (case ev of (c, optarg) \<Rightarrow>
      if c = char_code (CHR ''h'') then failO (printHelp D cmd 1) (Exit 0)
      else if c = char_code (CHR ''a'') then returnO (options\<lparr>a_action_cmd := Some optarg\<rparr>)
      else if c = char_code (CHR ''e'') then returnO (options\<lparr>a_errfile := optarg\<rparr>)
      else if c = char_code (CHR ''g'') then returnO (options\<lparr>a_group := Some optarg\<rparr>)
      else if c = char_code (CHR ''i'') then returnO (options\<lparr>a_ipfile := optarg\<rparr>)
      else if c = char_code (CHR ''l'') then returnO (options\<lparr>a_logfile := optarg\<rparr>)
      else if c = char_code (CHR ''p'') then returnO (options\<lparr>a_pidfile := optarg\<rparr>)
      else if c = char_code (CHR ''r'') then returnO (options\<lparr>a_chroot := Some optarg\<rparr>)
      else if c = char_code (CHR ''u'') then returnO (options\<lparr>a_user := optarg\<rparr>)
      else if c = char_code (CHR ''n'') then returnO (options\<lparr>a_do_fork := False\<rparr>)
      else if c = char_code (CHR ''v'') then failO (printVersion D 1) (Exit 0)
      else if c = OPTION_MAC
      then bindO (Arguments_parseMac lm optarg (a_mac options) False) (\<lambda>m. returnO (options\<lparr>a_mac := m\<rparr>))
      else if c = OPTION_LLMAC
      then bindO (Arguments_parseMac lm optarg (a_llmac options) True) (\<lambda>m. returnO (options\<lparr>a_llmac := m\<rparr>))
      else if c = OPTION_DIRECTION then Arguments_parseDirection optarg options
      else if c = OPTION_POISON then returnO (options\<lparr>a_do_poison := True\<rparr>)
      else failO (hint ''Try'' cmd) (Exit 1))"

text \<open>
  \<open>uninit\<close> is the indeterminate contents of the structure the caller passes.
\<close>

definition initial_options :: "build_defaults \<Rightarrow> Arguments \<Rightarrow> Arguments" where
  "initial_options D uninit =
     uninit\<lparr>a_ipfile := DEFAULT_IPFILE D, a_pidfile := DEFAULT_PIDFILE D,
            a_logfile := DEFAULT_LOGFILE D, a_errfile := DEFAULT_ERRFILE D,
            a_user := DEFAULT_USER D, a_group := None, a_do_fork := True,
            a_chroot := None, a_arp_dir := dirBOTH,
            a_llmac := (a_llmac uninit)\<lparr>tm_type := mcLOCAL\<rparr>,
            a_do_poison := True, a_action_cmd := None\<rparr>"

text \<open>
  \<open>argv\<close> holds the words of the command line with the name of the program in front. \<open>posix\<close> tells whether the environment
  has \<open>POSIXLY_CORRECT\<close>.
\<close>

definition parseOptions :: "ether_addr \<Rightarrow> build_defaults \<Rightarrow> Arguments \<Rightarrow> bool \<Rightarrow> string list \<Rightarrow> Arguments out" where
  "parseOptions lm D uninit posix argv =
     (case getopt_words posix cmdline_optstring cmdline_options (tl argv) of (events, operands) \<Rightarrow>
      let options = initial_options D uninit; cmd = hd argv in
      bindO (Arguments_parseMac lm ''802.3x'' (a_mac options) False) (\<lambda>m.
      bindO (foldO (parse_option lm D cmd) (options\<lparr>a_mac := m\<rparr>) events) (\<lambda>options.
      if length operands \<noteq> 1
      then failO (Vwrite 2 (if operands = [] then ''No interface specified; '' else ''Too much interfaces specified; '')
                  @ hint ''try'' cmd) (Exit 1)
      else returnO (options\<lparr>a_iface := operands ! 0\<rparr>))))"

definition fixupMac :: "ether_addr \<Rightarrow> TaggedMac \<Rightarrow> TaggedMac" where
  "fixupMac lm mac =
     (if tm_type mac = mcLOCAL
      then mac\<lparr>tm_ether := fst (xether_aton_r lm ''LOCAL''), tm_type := mcFIXED\<rparr>
      else mac)"

definition Arguments_fixupOptions :: "ether_addr \<Rightarrow> Arguments \<Rightarrow> Arguments" where
  "Arguments_fixupOptions lm options =
     options\<lparr>a_mac := fixupMac lm (a_mac options), a_llmac := fixupMac lm (a_llmac options)\<rparr>"

section \<open>Facts\<close>

text \<open>The two addresses the options hold: a fixed one is six octets long, and only the link-level one may be \<open>SAME\<close>.\<close>

definition options_ok :: "Arguments \<Rightarrow> bool" where
  "options_ok a \<longleftrightarrow> tm_type (a_mac a) \<noteq> mcSAME
     \<and> (tm_type (a_mac a) = mcFIXED \<longrightarrow> wf_mac (tm_ether (a_mac a)))
     \<and> (tm_type (a_llmac a) = mcFIXED \<longrightarrow> wf_mac (tm_ether (a_llmac a)))"

lemma parseMac_ok:
  assumes "snd (Arguments_parseMac lm s m b) = Inr m'" "wf_mac lm"
  shows "(tm_type m' = mcFIXED \<longrightarrow> wf_mac (tm_ether m')) \<and> (\<not> b \<longrightarrow> tm_type m' \<noteq> mcSAME)"
  using assms xether_aton_r_wf[OF assms(2), of s]
  by (auto simp: Arguments_parseMac_def Let_def split: if_splits prod.splits)

lemma parse_option_ok:
  assumes "options_ok a" "wf_mac lm" "snd (parse_option lm D cmd a ev) = Inr a'"
  shows "options_ok a'"
  using assms
  by (auto simp: options_ok_def parse_option_def run_simps Arguments_parseDirection_def
      split: if_splits prod.splits dest: parseMac_ok)

text \<open>The words of an accepted command line, split into options and the interface.\<close>

abbreviation option_words :: "bool \<Rightarrow> string list \<Rightarrow> option_event list \<times> string list" where
  "option_words posix argv \<equiv> getopt_words posix cmdline_optstring cmdline_options (tl argv)"

lemma parseOptions_phases:
  assumes "snd (parseOptions lm D u posix argv) = Inr a"
  obtains m a1 where "snd (Arguments_parseMac lm ''802.3x'' (a_mac (initial_options D u)) False) = Inr m"
    "foldR (\<lambda>s ev. snd (parse_option lm D (hd argv) s ev)) ((initial_options D u)\<lparr>a_mac := m\<rparr>) (fst (option_words posix argv)) = Inr a1"
    "snd (option_words posix argv) = [a_iface a]" "a = a1\<lparr>a_iface := a_iface a\<rparr>"
  using assms unfolding parseOptions_def Let_def
  by (auto simp: run_simps result_foldO length_Suc_conv split: if_splits prod.splits)

lemma parseOptions_inv:
  assumes "snd (parseOptions lm D u posix argv) = Inr a"
    and "\<And>m. snd (Arguments_parseMac lm ''802.3x'' (a_mac (initial_options D u)) False) = Inr m \<Longrightarrow> P ((initial_options D u)\<lparr>a_mac := m\<rparr>)"
    and "\<And>a ev a'. P a \<Longrightarrow> snd (parse_option lm D (hd argv) a ev) = Inr a' \<Longrightarrow> P a'" and "\<And>a i. P a \<Longrightarrow> P (a\<lparr>a_iface := i\<rparr>)"
  shows "P a"
proof -
  obtain m a1 where m: "snd (Arguments_parseMac lm ''802.3x'' (a_mac (initial_options D u)) False) = Inr m"
    and f: "foldR (\<lambda>s ev. snd (parse_option lm D (hd argv) s ev)) ((initial_options D u)\<lparr>a_mac := m\<rparr>) (fst (option_words posix argv)) = Inr a1"
    and a: "a = a1\<lparr>a_iface := a_iface a\<rparr>" using assms(1) by (rule parseOptions_phases)
  have "P a1" using assms(3) assms(2)[OF m] f by (rule foldR_inv)
  then show ?thesis using assms(4) a by metis
qed

lemma parseOptions_ok:
  assumes "wf_mac lm" "snd (parseOptions lm D u posix argv) = Inr a"
  shows "options_ok a \<and> snd (option_words posix argv) = [a_iface a]"
proof
  show "options_ok a"
  proof (rule parseOptions_inv[OF assms(2)])
    fix m assume "snd (Arguments_parseMac lm ''802.3x'' (a_mac (initial_options D u)) False) = Inr m"
    from parseMac_ok[OF this assms(1)] show "options_ok ((initial_options D u)\<lparr>a_mac := m\<rparr>)"
      by (simp add: options_ok_def initial_options_def)
  next
    fix a ev a' assume "options_ok a" "snd (parse_option lm D (hd argv) a ev) = Inr a'"
    then show "options_ok a'" using parse_option_ok[OF _ assms(1)] by blast
  next
    fix a i assume "options_ok a"
    then show "options_ok (a\<lparr>a_iface := i\<rparr>)" by (simp add: options_ok_def)
  qed
  show "snd (option_words posix argv) = [a_iface a]" using assms(2) by (rule parseOptions_phases)
qed

text \<open>No option switches the poisoning of intruders off.\<close>

lemma parse_option_poison:
  "a_do_poison a \<Longrightarrow> snd (parse_option lm D cmd a ev) = Inr a' \<Longrightarrow> a_do_poison a'"
  by (auto simp: parse_option_def run_simps Arguments_parseDirection_def split: if_splits prod.splits)

lemma parseOptions_poison: "snd (parseOptions lm D u posix argv) = Inr a \<Longrightarrow> a_do_poison a"
  by (erule parseOptions_inv) (auto simp: initial_options_def dest: parse_option_poison)

section \<open>Properties\<close>

text \<open>
  C36: when the command line was accepted and the options were fixed up with the address of the interface, the default
  MAC is either random or a fixed six-octet address, the link-level MAC is one of these
  or \<open>SAME\<close>, and exactly one operand, the interface, was given. The poisoning of intruders is always on, with or without the
  option \<open>--poison\<close>.
\<close>

theorem options_fixed_up:
  assumes "wf_mac lm0" and "wf_mac lm" and "snd (parseOptions lm0 D u posix argv) = Inr a"
  shows "let a' = Arguments_fixupOptions lm a in
     (tm_type (a_mac a') = mcRANDOM \<or> tm_type (a_mac a') = mcFIXED \<and> wf_mac (tm_ether (a_mac a')))
   \<and> (tm_type (a_llmac a') = mcRANDOM \<or> tm_type (a_llmac a') = mcSAME
      \<or> tm_type (a_llmac a') = mcFIXED \<and> wf_mac (tm_ether (a_llmac a')))
   \<and> snd (getopt_words posix cmdline_optstring cmdline_options (tl argv)) = [a_iface a'] \<and> a_do_poison a'"
  using parseOptions_ok[OF assms(1,3)] assms(2) parseOptions_poison[OF assms(3)]
  by (cases "tm_type (a_mac a)"; cases "tm_type (a_llmac a)")
    (auto simp: Arguments_fixupOptions_def fixupMac_def options_ok_def Let_def xether_aton_r_def)

definition example_defaults :: build_defaults where
  "example_defaults = \<lparr>DEFAULT_IPFILE = ''ips.cfg'', DEFAULT_PIDFILE = ''/var/run/ip-sentinel.run'',
     DEFAULT_LOGFILE = ''/var/log/ip-sentinel.out'', DEFAULT_ERRFILE = ''/var/log/ip-sentinel.err'',
     DEFAULT_USER = ''ip-sentinel'', PACKAGE_VERSION = ''0.12'', PACKAGE_BUGREPORT = ''bugs''\<rparr>"

definition no_mac :: TaggedMac where
  "no_mac = \<lparr>tm_type = mcFIXED, tm_ether = replicate 6 0\<rparr>"

definition uninit_arguments :: Arguments where
  "uninit_arguments = \<lparr>a_ipfile = [], a_pidfile = [], a_logfile = [], a_errfile = [], a_user = [],
     a_group = None, a_do_fork = False, a_chroot = None, a_iface = [], a_do_poison = False,
     a_action_cmd = None, a_arp_dir = dirBOTH, a_mac = no_mac, a_llmac = no_mac\<rparr>"

definition default_arguments :: Arguments where
  "default_arguments = \<lparr>a_ipfile = ''ips.cfg'', a_pidfile = ''/var/run/ip-sentinel.run'',
     a_logfile = ''/var/log/ip-sentinel.out'', a_errfile = ''/var/log/ip-sentinel.err'',
     a_user = ''ip-sentinel'', a_group = None, a_do_fork = False, a_chroot = None, a_iface = ''eth0'',
     a_do_poison = True, a_action_cmd = None, a_arp_dir = dirBOTH,
     a_mac = \<lparr>tm_type = mcFIXED, tm_ether = [0x01, 0x80, 0xC2, 0, 0, 1]\<rparr>,
     a_llmac = \<lparr>tm_type = mcLOCAL, tm_ether = replicate 6 0\<rparr>\<rparr>"

lemma default_arguments_parsed:
  "parseOptions (replicate 6 0) example_defaults uninit_arguments False [''ip-sentinel'', ''eth0'', ''-n''] = returnO default_arguments"
  by code_simp

theorem options_fixed_up_witness:
  "parseOptions (replicate 6 0) example_defaults uninit_arguments False [''ip-sentinel'', ''eth0'', ''-n''] = returnO default_arguments
   \<and> tm_type (a_llmac (Arguments_fixupOptions [2, 0, 0, 0, 0, 7] default_arguments)) = mcFIXED \<and> a_do_poison default_arguments"
proof -
  have "wf_mac (replicate 6 0)" "wf_mac [2, 0, 0, 0, 0, 7]" by (simp_all add: wf_mac_def)
  from options_fixed_up[OF this, of example_defaults uninit_arguments False "[''ip-sentinel'', ''eth0'', ''-n'']" default_arguments]
  have "tm_type (a_llmac (Arguments_fixupOptions [2, 0, 0, 0, 0, 7] default_arguments)) \<in> {mcRANDOM, mcSAME, mcFIXED}"
    "a_do_poison default_arguments"
    by (auto simp: Let_def default_arguments_parsed default_arguments_def)
  moreover from this have "tm_type (a_llmac (Arguments_fixupOptions [2, 0, 0, 0, 0, 7] default_arguments)) = mcFIXED"
    by (auto simp: Arguments_fixupOptions_def fixupMac_def default_arguments_def)
  ultimately show ?thesis by (simp add: default_arguments_parsed)
qed

section \<open>Outcome\<close>

text \<open>How a command line ends: accepted without a message, or with one of the two texts, or with an error message.\<close>

definition outcome_ok :: "build_defaults \<Rightarrow> string \<Rightarrow> 'a out \<Rightarrow> bool" where
  "outcome_ok D cmd m \<longleftrightarrow>
     (case m of
        (w, Inr a) \<Rightarrow> w = []
      | (w, Inl s) \<Rightarrow> s = Exit 0 \<and> (w = printHelp D cmd 1 \<or> w = printVersion D 1)
                    \<or> s = Exit 1 \<and> w \<noteq> [] \<and> (\<forall>(fd, txt)\<in>set w. fd = 2))"

lemma outcome_returnO [simp]: "outcome_ok D cmd (returnO x)"
  by (simp add: outcome_ok_def returnO_def)

lemma outcome_failO [simp]: "w \<noteq> [] \<Longrightarrow> \<forall>(fd, txt)\<in>set w. fd = 2 \<Longrightarrow> outcome_ok D cmd (failO w (Exit 1))"
  by (simp add: outcome_ok_def failO_def)

lemma outcome_bindO: "outcome_ok D cmd m \<Longrightarrow> (\<And>x. outcome_ok D cmd (f x)) \<Longrightarrow> outcome_ok D cmd (bindO m f)"
proof -
  assume m: "outcome_ok D cmd m" and f: "\<And>x. outcome_ok D cmd (f x)"
  obtain w r where mr: "m = (w, r)" by (cases m)
  show ?thesis
  proof (cases r)
    case (Inl s)
    with m mr show ?thesis by (simp add: outcome_ok_def)
  next
    case (Inr x)
    with m mr have "bindO m f = f x" by (simp add: outcome_ok_def)
    with f show ?thesis by simp
  qed
qed

lemma outcome_foldO: "(\<And>s x. outcome_ok D cmd (f s x)) \<Longrightarrow> outcome_ok D cmd (foldO f s xs)"
  by (induction xs arbitrary: s) (auto intro: outcome_bindO)

lemma outcome_if: "outcome_ok D cmd m \<Longrightarrow> outcome_ok D cmd m' \<Longrightarrow> outcome_ok D cmd (if b then m else m')"
  by simp

lemma hint_stderr [simp]: "hint try cmd \<noteq> []" "\<forall>(fd, txt)\<in>set (hint try cmd). fd = 2" "(fd, txt) \<in> set (hint try cmd) \<Longrightarrow> fd = 2"
  by (auto simp: hint_def Vwrite_def)

lemma outcome_parseMac: "outcome_ok D cmd (Arguments_parseMac lm s m b)"
  by (auto simp: Arguments_parseMac_def Let_def Vwrite_def split: prod.splits intro!: outcome_failO)

lemma outcome_parse_option: "outcome_ok D cmd (parse_option lm D cmd a ev)"
proof -
  have h: "outcome_ok D cmd (failO (printHelp D cmd 1) (Exit 0))" "outcome_ok D cmd (failO (printVersion D 1) (Exit 0))"
    by (simp_all add: outcome_ok_def failO_def)
  have d: "outcome_ok D cmd (Arguments_parseDirection s a)" for s
    unfolding Arguments_parseDirection_def by (intro outcome_if outcome_returnO outcome_failO) (simp_all add: Vwrite_def)
  show ?thesis unfolding parse_option_def
    by (cases ev) (simp only: prod.case, intro outcome_if h d outcome_bindO outcome_parseMac outcome_returnO outcome_failO hint_stderr(1,2))
qed

text \<open>
  C37: every command line is either accepted without any output, or it ends the process with status 0 and the text of \<open>--help\<close> or
  \<open>--version\<close>, or with status 1 and a message that goes to the standard error only.
\<close>

theorem command_line_outcome:
  "case parseOptions lm D u posix argv of
     (w, Inr a) \<Rightarrow> w = []
   | (w, Inl s) \<Rightarrow> s = Exit 0 \<and> (w = printHelp D (hd argv) 1 \<or> w = printVersion D 1)
                 \<or> s = Exit 1 \<and> w \<noteq> [] \<and> list_all (\<lambda>(fd, txt). fd = 2) w"
proof -
  have "outcome_ok D (hd argv) (parseOptions lm D u posix argv)"
    by (auto simp: parseOptions_def Let_def Vwrite_def outcome_parseMac outcome_parse_option
        split: prod.splits intro!: outcome_bindO outcome_foldO outcome_failO)
  then show ?thesis unfolding outcome_ok_def by (simp add: list_all_iff cong: sum.case_cong)
qed

end
