(* ===== verification/Blacklist_Data.thy ===== *)
theory Blacklist_Data
  imports Vector Arguments
begin

text \<open>
  The blacklist of \<open>src/src/blacklist.c\<close>: its entries, the orders it is kept in, and the lookup
  \<open>BlackList_getMac\<close> that decides whether an address is answered and with which MAC. The
  lookup is shown to return the verdict of the first deciding entry, the entry for the
  single address before the networks, and these from the most specific one on.
\<close>

section \<open>Entries\<close>

datatype BlackListStatus = blUNDECIDED | blIGNORE | blSET | blRAND

datatype atmac_status = amNONE | amNEGATIVE | amPOSITIVE

record AtMac =
  am_mac :: ether_addr
  am_status :: atmac_status

record BaseData =
  b_ip :: in_addr
  b_status :: BlackListStatus
  b_mac :: ether_addr
  b_atmac :: AtMac

record IPData =
  ip_v :: BaseData

record NetData =
  net_v :: BaseData
  net_mask :: in_addr
  net_no_ip :: bool

record BlackList =
  bl_ip_list :: "IPData list"
  bl_net_list :: "NetData list"
  bl_last_mtime :: int
  bl_args :: Arguments

type_synonym ip_vector = "(IPData, in_addr) vector_ops"
type_synonym net_vector = "(NetData, unit) vector_ops"

section \<open>Orders\<close>

function getBitCount_loop :: "u32 \<Rightarrow> int \<Rightarrow> int" where
  "getBitCount_loop val result =
     (if val \<noteq> 0 then getBitCount_loop (drop_bit 1 val) (result + uint (val AND 1)) else result)"
  by pat_completeness auto
termination
proof (relation "measure (\<lambda>(val, result). unat val)")
  fix val :: u32 and result :: int
  assume "val \<noteq> 0"
  then have "0 < unat val" by (simp add: unat_gt_0)
  moreover have "unat (drop_bit 1 val) = unat val div 2" by (simp add: unat_drop_bit_eq) (simp add: drop_bit_eq_div)
  ultimately show "((drop_bit 1 val, result + uint (val AND 1)), val, result) \<in> measure (\<lambda>(val, result). unat val)"
    by simp
qed simp

declare getBitCount_loop.simps [simp del]

definition getBitCount :: "u32 \<Rightarrow> int" where
  "getBitCount val = getBitCount_loop val 0"

definition IPData_searchCompare :: "in_addr \<Rightarrow> IPData \<Rightarrow> int" where
  "IPData_searchCompare lhs rhs =
     (if ntohl lhs < ntohl (b_ip (ip_v rhs)) then - 1
      else if ntohl lhs > ntohl (b_ip (ip_v rhs)) then 1 else 0)"

definition IPData_sortCompare :: "IPData \<Rightarrow> IPData \<Rightarrow> int" where
  "IPData_sortCompare lhs rhs = IPData_searchCompare (b_ip (ip_v lhs)) rhs"

definition IPData_uniqueCompare :: "IPData \<Rightarrow> IPData \<Rightarrow> int" where
  "IPData_uniqueCompare lhs rhs =
     (if b_status (ip_v lhs) \<noteq> b_status (ip_v rhs) then 1 else IPData_sortCompare lhs rhs)"

fun atmac_enum :: "atmac_status \<Rightarrow> int" where
  "atmac_enum amNONE = 0"
| "atmac_enum amNEGATIVE = 1"
| "atmac_enum amPOSITIVE = 2"

text \<open>
  The differences are computed with unsigned integers and converted to \<open>int\<close>. The final
  \<open>memcmp\<close> compares two \<open>AtMac\<close> structures of the same status; their padding bytes are
  taken as equal.
\<close>

definition NetData_sortCompare :: "NetData \<Rightarrow> NetData \<Rightarrow> int" where
  "NetData_sortCompare lhs rhs =
     (let result = - (if net_no_ip lhs then 1 else 0) + (if net_no_ip rhs then 1 else 0);
          result = (if result = 0 then to_int32 (- getBitCount (net_mask lhs) + getBitCount (net_mask rhs)) else result);
          result = (if result = 0 then to_int32 (- atmac_enum (am_status (b_atmac (net_v lhs)))
                                                + atmac_enum (am_status (b_atmac (net_v rhs)))) else result)
      in if result = 0 then memcmp (am_mac (b_atmac (net_v lhs))) (am_mac (b_atmac (net_v rhs))) else result)"

text \<open>
  The order of the networks in programs compiled with \<open>ENSC_TESTSUITE\<close>: before the MAC addresses of the conditions, the masks, the
  addresses and the kinds of the entries are compared.
\<close>

definition status_enum :: "BlackListStatus \<Rightarrow> int" where
  "status_enum st = (case st of blUNDECIDED \<Rightarrow> 0 | blIGNORE \<Rightarrow> 1 | blSET \<Rightarrow> 2 | blRAND \<Rightarrow> 3)"

definition NetData_sortCompare_testsuite :: "NetData \<Rightarrow> NetData \<Rightarrow> int" where
  "NetData_sortCompare_testsuite lhs rhs =
     (let result = - (if net_no_ip lhs then 1 else 0) + (if net_no_ip rhs then 1 else 0);
          result = (if result = 0 then to_int32 (- getBitCount (net_mask lhs) + getBitCount (net_mask rhs)) else result);
          result = (if result = 0 then to_int32 (- atmac_enum (am_status (b_atmac (net_v lhs)))
                                                + atmac_enum (am_status (b_atmac (net_v rhs)))) else result);
          result = (if result \<noteq> 0 then result
                    else if ntohl (net_mask lhs) < ntohl (net_mask rhs) then - 1
                    else if ntohl (net_mask lhs) > ntohl (net_mask rhs) then 1
                    else if ntohl (b_ip (net_v lhs)) < ntohl (b_ip (net_v rhs)) then - 1
                    else if ntohl (b_ip (net_v lhs)) > ntohl (b_ip (net_v rhs)) then 1
                    else status_enum (b_status (net_v lhs)) - status_enum (b_status (net_v rhs)))
      in if result = 0 then memcmp (am_mac (b_atmac (net_v lhs))) (am_mac (b_atmac (net_v rhs))) else result)"

definition NetData_uniqueCompare :: "NetData \<Rightarrow> NetData \<Rightarrow> int" where
  "NetData_uniqueCompare lhs rhs =
     (if b_status (net_v lhs) \<noteq> b_status (net_v rhs) then 1
      else if b_ip (net_v lhs) \<noteq> b_ip (net_v rhs) then 1
      else NetData_sortCompare lhs rhs)"

section \<open>Lookup\<close>

text \<open>
  A query. \<open>q_poison_mac\<close> is an output the lookup sets when an \<open>@!\<close> entry matched; the
  result pointer of the code is either null or points to \<open>q_result_buffer\<close>.
\<close>

record BlackListQuery =
  q_result_buffer :: ether_addr
  q_ip :: in_addr
  q_mac :: "ether_addr option"
  q_poison_mac :: "ether_addr option"

datatype atmac_cmp = cmpIGNORE | cmpMATCH | cmpNOMATCH

definition BlackList_compareAtMac :: "AtMac \<Rightarrow> BlackListStatus \<Rightarrow> ether_addr option \<Rightarrow> atmac_cmp" where
  "BlackList_compareAtMac lhs lhs_status rhs =
     (if am_status lhs = amNONE then cmpMATCH
      else case rhs of
        None \<Rightarrow> cmpIGNORE
      | Some mac \<Rightarrow>
          (let tmp = (memcmp (am_mac lhs) mac = 0) in
           if tmp \<and> am_status lhs = amPOSITIVE then cmpMATCH
           else if \<not> tmp \<and> am_status lhs = amNEGATIVE then cmpMATCH
           else if tmp \<and> lhs_status \<noteq> blIGNORE then cmpIGNORE
           else cmpNOMATCH))"

text \<open>The state of a lookup: the query, \<open>status\<close>, and whether \<open>result\<close> is set.\<close>

type_synonym lookup = "BlackListQuery \<times> BlackListStatus \<times> bool"

fun BlackList_compareEntry :: "BaseData \<Rightarrow> lookup \<Rightarrow> lookup" where
  "BlackList_compareEntry lhs (rhs, status, result) =
     (case BlackList_compareAtMac (b_atmac lhs) (b_status lhs) (q_mac rhs) of
        cmpIGNORE \<Rightarrow> (rhs, blIGNORE, result)
      | cmpMATCH \<Rightarrow>
          (let rhs = rhs\<lparr>q_result_buffer := b_mac lhs\<rparr> in
           (if am_status (b_atmac lhs) = amNEGATIVE
            then rhs\<lparr>q_poison_mac := Some (am_mac (b_atmac lhs))\<rparr> else rhs, b_status lhs, True))
      | cmpNOMATCH \<Rightarrow> (rhs, status, result))"

fun getMac_nets :: "NetData list \<Rightarrow> lookup \<Rightarrow> lookup" where
  "getMac_nets [] s = s"
| "getMac_nets (data # ds) (q, status, result) =
     (if status \<noteq> blUNDECIDED then (q, status, result)
      else if q_ip q AND net_mask data \<noteq> b_ip (net_v data) then getMac_nets ds (q, status, result)
      else getMac_nets ds (BlackList_compareEntry (net_v data) (q, status, result)))"

text \<open>
  \<open>t\<close> and \<open>r\<close> are the values of \<open>time(0)\<close> and \<open>rand()\<close>, in case a random MAC is drawn. The
  result is the query with its outputs and the returned pointer's target.
\<close>

definition BlackList_getMac ::
  "ip_vector \<Rightarrow> int \<Rightarrow> int \<Rightarrow> BlackList \<Rightarrow> BlackListQuery \<Rightarrow> (BlackListQuery \<times> ether_addr option) run" where
  "BlackList_getMac V t r lst q =
     (let s = (q, blUNDECIDED, False);
          s = (case Vector_search V (bl_ip_list lst) (q_ip q) IPData_searchCompare of
                 Some i \<Rightarrow> BlackList_compareEntry (ip_v (bl_ip_list lst ! i)) s
               | None \<Rightarrow> s);
          (q, status, result) =
            (if fst (snd s) = blUNDECIDED then getMac_nets (bl_net_list lst) s else s)
      in if \<not> result then Inr (q, None)
         else case status of
             blIGNORE \<Rightarrow> Inr (q, None)
           | blSET \<Rightarrow> Inr (q, Some (q_result_buffer q))
           | blRAND \<Rightarrow> (let q = q\<lparr>q_result_buffer := Util_setRandomMac t r\<rparr> in Inr (q, Some (q_result_buffer q)))
           | blUNDECIDED \<Rightarrow> Inl AssertFail)"

section \<open>Facts about the orders\<close>

definition bits_of :: "u32 \<Rightarrow> nat set" where
  "bits_of w = {n. bit w n}"

lemma finite_bits_of [simp]: "finite (bits_of w)" and bits_of_bound: "bits_of w \<subseteq> {..<32}"
proof -
  show b: "bits_of w \<subseteq> {..<32}" using bit32_high by (force simp: bits_of_def not_less[symmetric])
  show "finite (bits_of w)" by (rule finite_subset[OF b]) simp
qed

lemma card_bits_of_step: "card (bits_of w) = (if bit w 0 then 1 else 0) + card (bits_of (drop_bit 1 w))"
proof -
  have "bits_of w = (if bit w 0 then {0} else {}) \<union> Suc ` bits_of (drop_bit 1 w)"
  proof (rule set_eqI)
    fix n show "n \<in> bits_of w \<longleftrightarrow> n \<in> (if bit w 0 then {0} else {}) \<union> Suc ` bits_of (drop_bit 1 w)"
      by (cases n) (auto simp: bits_of_def bit_drop_bit_eq)
  qed
  moreover have "card (Suc ` bits_of (drop_bit 1 w)) = card (bits_of (drop_bit 1 w))" by (simp add: card_image)
  ultimately show ?thesis by (subst \<open>bits_of w = _\<close>) (auto simp: card_insert_if)
qed

lemma uint_low_bit: "uint (w AND 1 :: u32) = (if bit w 0 then 1 else 0)"
  by (simp add: and_one_eq bit_0 odd_iff_mod_2_eq_one)

lemma getBitCount_loop_card: "getBitCount_loop w k = k + int (card (bits_of w))"
proof (induction w k rule: getBitCount_loop.induct)
  case (1 w k)
  show ?case
  proof (cases "w = 0")
    case False
    then show ?thesis
      using 1[OF False] by (subst getBitCount_loop.simps) (simp add: card_bits_of_step[of w] uint_low_bit)
  qed (simp add: getBitCount_loop.simps bits_of_def)
qed

text \<open>\<open>getBitCount\<close> counts the bits that are set.\<close>

lemma getBitCount_card: "getBitCount w = int (card (bits_of w))"
  by (simp add: getBitCount_def getBitCount_loop_card)

lemma getBitCount_bounds: "0 \<le> getBitCount w" "getBitCount w \<le> 32"
  using card_mono[OF _ bits_of_bound[of w]] by (auto simp: getBitCount_card)

lemma to_int32_small: "- 1000 \<le> v \<Longrightarrow> v \<le> 1000 \<Longrightarrow> to_int32 v = v"
  by (simp add: to_int32_def)

lemma atmac_enum_bounds: "0 \<le> atmac_enum s" "atmac_enum s \<le> 2"
  by (cases s; simp)+

lemma bitcount_diff: "to_int32 (- getBitCount v + getBitCount w) = getBitCount w - getBitCount v"
  using getBitCount_bounds[of v] getBitCount_bounds[of w] by (subst to_int32_small) auto

lemma atmac_diff: "to_int32 (- atmac_enum v + atmac_enum w) = atmac_enum w - atmac_enum v"
  using atmac_enum_bounds[of v] atmac_enum_bounds[of w] by (subst to_int32_small) auto

lemma IPData_searchCompare_0: "IPData_searchCompare ip d = 0 \<longleftrightarrow> b_ip (ip_v d) = ip"
proof -
  have "ntohl ip = ntohl (b_ip (ip_v d)) \<longleftrightarrow> ip = b_ip (ip_v d)" by (metis ntohl_ntohl)
  then show ?thesis by (auto simp: IPData_searchCompare_def)
qed

lemma IPData_sortCompare_le: "IPData_sortCompare x y \<le> 0 \<longleftrightarrow> ntohl (b_ip (ip_v x)) \<le> ntohl (b_ip (ip_v y))"
  by (auto simp: IPData_sortCompare_def IPData_searchCompare_def)

lemma IPData_sortCompare_ge: "0 \<le> IPData_sortCompare x y \<longleftrightarrow> ntohl (b_ip (ip_v y)) \<le> ntohl (b_ip (ip_v x))"
  by (auto simp: IPData_sortCompare_def IPData_searchCompare_def)

lemma cmp_order_IPData: "cmp_order IPData_sortCompare S"
  by (auto simp: cmp_order_def IPData_sortCompare_le IPData_sortCompare_ge)

text \<open>The network order is lexicographic: no-address entries, bit count, kind of \<open>@mac\<close>, \<open>@mac\<close>.\<close>

lemma memcmp_flip: "length xs = length ys \<Longrightarrow> memcmp xs ys = - memcmp ys xs"
  by (induction xs ys rule: list_induct2) auto

lemma memcmp_trans:
  "length xs = length ys \<Longrightarrow> length ys = length zs \<Longrightarrow> memcmp xs ys \<le> 0 \<Longrightarrow> memcmp ys zs \<le> 0 \<Longrightarrow> memcmp xs zs \<le> 0"
  by (induction xs ys zs rule: list_induct3) (auto split: if_splits)

lemma memcmp_0: "length xs = length ys \<Longrightarrow> memcmp xs ys = 0 \<longleftrightarrow> xs = ys"
  by (induction xs ys rule: list_induct2) auto

definition net_rank :: "NetData \<Rightarrow> int" where
  "net_rank d = (if net_no_ip d then - 1000 else 0) - 10 * getBitCount (net_mask d)
                - atmac_enum (am_status (b_atmac (net_v d)))"

lemma NetData_sortCompare_rank:
  "NetData_sortCompare x y < 0 \<longleftrightarrow> net_rank x < net_rank y \<or>
     net_rank x = net_rank y \<and> memcmp (am_mac (b_atmac (net_v x))) (am_mac (b_atmac (net_v y))) < 0"
  "0 < NetData_sortCompare x y \<longleftrightarrow> net_rank y < net_rank x \<or>
     net_rank x = net_rank y \<and> 0 < memcmp (am_mac (b_atmac (net_v x))) (am_mac (b_atmac (net_v y)))"
proof -
  let ?sx = "atmac_enum (am_status (b_atmac (net_v x)))" and ?sy = "atmac_enum (am_status (b_atmac (net_v y)))"
  have b: "0 \<le> getBitCount (net_mask x)" "getBitCount (net_mask x) \<le> 32" "0 \<le> getBitCount (net_mask y)"
    "getBitCount (net_mask y) \<le> 32" "0 \<le> ?sx" "?sx \<le> 2" "0 \<le> ?sy" "?sy \<le> 2"
    by (rule getBitCount_bounds atmac_enum_bounds)+
  define B C S T where d: "B = getBitCount (net_mask x)" "C = getBitCount (net_mask y)" "S = ?sx" "T = ?sy"
  note b = b[folded d]
  show "NetData_sortCompare x y < 0 \<longleftrightarrow> net_rank x < net_rank y \<or>
     net_rank x = net_rank y \<and> memcmp (am_mac (b_atmac (net_v x))) (am_mac (b_atmac (net_v y))) < 0"
    "0 < NetData_sortCompare x y \<longleftrightarrow> net_rank y < net_rank x \<or>
     net_rank x = net_rank y \<and> 0 < memcmp (am_mac (b_atmac (net_v x))) (am_mac (b_atmac (net_v y)))"
    unfolding NetData_sortCompare_def net_rank_def bitcount_diff atmac_diff Let_def
    unfolding d[symmetric]
    using b by (cases "net_no_ip x"; cases "net_no_ip y"; cases B C rule: linorder_cases; cases S T rule: linorder_cases; force)+
qed

lemma cmp_order_NetData:
  assumes "\<And>d. d \<in> S \<Longrightarrow> wf_mac (am_mac (b_atmac (net_v d)))"
  shows "cmp_order NetData_sortCompare S"
proof -
  let ?m = "\<lambda>d. am_mac (b_atmac (net_v d))"
  have l: "length (?m x) = length (?m y)" if "x \<in> S" "y \<in> S" for x y
    using assms that by (simp add: wf_mac_def)
  have le: "NetData_sortCompare x y \<le> 0 \<longleftrightarrow> net_rank x < net_rank y \<or> net_rank x = net_rank y \<and> memcmp (?m x) (?m y) \<le> 0" for x y
    using NetData_sortCompare_rank(2)[of x y] by (auto simp flip: not_less)
  have ge: "0 \<le> NetData_sortCompare x y \<longleftrightarrow> net_rank y < net_rank x \<or> net_rank x = net_rank y \<and> 0 \<le> memcmp (?m x) (?m y)" for x y
    using NetData_sortCompare_rank(1)[of x y] by (auto simp flip: not_less)
  show ?thesis
    unfolding cmp_order_def le ge
  proof (intro conjI ballI impI, goal_cases)
    case (1 x y)
    then show ?case using memcmp_flip[OF l[of x y]] by auto
  next
    case (2 x y z)
    then show ?case using memcmp_trans[OF l[of x y] l[of y z]] by auto
  qed
qed

section \<open>Verdicts\<close>

text \<open>
  What an entry says about a request: to ignore it, to treat it as the entry does, or nothing. An entry
  without a condition applies to every request; one with a condition has nothing to answer when the MAC of the sender is not known; a
  positive condition restricts the entry to one MAC, a negative one excludes one, and an entry that forbids an address says nothing
  about the excluded MAC. The
  candidates of an address are the entry found for the address itself and then the
  networks that contain it, in the order of the list.
\<close>

datatype verdict = Ignore | Apply BaseData

definition verdict_of :: "ether_addr option \<Rightarrow> BaseData \<Rightarrow> verdict option" where
  "verdict_of mac e =
     (case (am_status (b_atmac e), mac) of
        (amNONE, _) \<Rightarrow> Some (Apply e)
      | (_, None) \<Rightarrow> Some Ignore
      | (amPOSITIVE, Some m) \<Rightarrow> if memcmp (am_mac (b_atmac e)) m = 0 then Some (Apply e) else None
      | (amNEGATIVE, Some m) \<Rightarrow>
          if memcmp (am_mac (b_atmac e)) m \<noteq> 0 then Some (Apply e)
          else if b_status e = blIGNORE then None else Some Ignore)"

definition net_contains :: "in_addr \<Rightarrow> NetData \<Rightarrow> bool" where
  "net_contains ip d \<longleftrightarrow> ip AND net_mask d = b_ip (net_v d)"

definition candidates :: "ip_vector \<Rightarrow> BlackList \<Rightarrow> in_addr \<Rightarrow> BaseData list" where
  "candidates V lst ip =
     (case Vector_search V (bl_ip_list lst) ip IPData_searchCompare of
        Some i \<Rightarrow> [ip_v (bl_ip_list lst ! i)] | None \<Rightarrow> [])
     @ map net_v (filter (net_contains ip) (bl_net_list lst))"

fun first_verdict :: "ether_addr option \<Rightarrow> BaseData list \<Rightarrow> verdict option" where
  "first_verdict mac [] = None"
| "first_verdict mac (e # es) = (case verdict_of mac e of None \<Rightarrow> first_verdict mac es | Some v \<Rightarrow> Some v)"

text \<open>The answer that follows from a verdict.\<close>

fun answer_mac :: "int \<Rightarrow> int \<Rightarrow> verdict option \<Rightarrow> ether_addr option" where
  "answer_mac t r (Some (Apply e)) =
     (case b_status e of blSET \<Rightarrow> Some (b_mac e) | blRAND \<Rightarrow> Some (Util_setRandomMac t r) | _ \<Rightarrow> None)"
| "answer_mac t r _ = None"

fun poison_of :: "verdict option \<Rightarrow> ether_addr option \<Rightarrow> ether_addr option" where
  "poison_of (Some (Apply e)) old =
     (if am_status (b_atmac e) = amNEGATIVE then Some (am_mac (b_atmac e)) else old)"
| "poison_of _ old = old"

definition decided :: "BlackList \<Rightarrow> bool" where
  "decided lst \<longleftrightarrow> (\<forall>d\<in>set (bl_ip_list lst). b_status (ip_v d) \<noteq> blUNDECIDED)
                 \<and> (\<forall>d\<in>set (bl_net_list lst). b_status (net_v d) \<noteq> blUNDECIDED)"

text \<open>How the state of a lookup represents a verdict.\<close>

definition lookup_state :: "BlackListQuery \<Rightarrow> verdict option \<Rightarrow> lookup \<Rightarrow> bool" where
  "lookup_state q v s \<longleftrightarrow>
     (case s of (q', status, result) \<Rightarrow>
        q_ip q' = q_ip q \<and> q_mac q' = q_mac q \<and> q_poison_mac q' = poison_of v (q_poison_mac q)
      \<and> (case v of None \<Rightarrow> status = blUNDECIDED \<and> \<not> result
           | Some Ignore \<Rightarrow> status = blIGNORE \<and> \<not> result
           | Some (Apply e) \<Rightarrow> status = b_status e \<and> status \<noteq> blUNDECIDED \<and> result \<and> q_result_buffer q' = b_mac e))"

lemma compareEntry_verdict:
  assumes "lookup_state q None s" "b_status e \<noteq> blUNDECIDED"
  shows "lookup_state q (verdict_of (q_mac q) e) (BlackList_compareEntry e s)"
  using assms
  by (cases s; cases "am_status (b_atmac e)"; cases "q_mac q")
    (auto simp: lookup_state_def verdict_of_def BlackList_compareAtMac_def Let_def)

lemma lookup_state_undecided: "lookup_state q v s \<Longrightarrow> fst (snd s) = blUNDECIDED \<longleftrightarrow> v = None"
  by (auto simp: lookup_state_def split: prod.splits option.splits verdict.splits)

lemma getMac_nets_decided: "fst (snd s) \<noteq> blUNDECIDED \<Longrightarrow> getMac_nets ds s = s"
  by (induction ds) (cases s; auto)+

lemma getMac_nets_verdict:
  assumes "lookup_state q None s" "\<forall>d\<in>set ds. b_status (net_v d) \<noteq> blUNDECIDED"
  shows "lookup_state q (first_verdict (q_mac q) (map net_v (filter (net_contains (q_ip q)) ds))) (getMac_nets ds s)"
  using assms
proof (induction ds arbitrary: s)
  case (Cons d ds)
  obtain q' st res where s: "s = (q', st, res)" by (cases s) auto
  have q': "q_ip q' = q_ip q" "st = blUNDECIDED" using Cons.prems(1) by (auto simp: s lookup_state_def)
  show ?case
  proof (cases "net_contains (q_ip q) d")
    case True
    note n = compareEntry_verdict[OF Cons.prems(1), of "net_v d"]
    show ?thesis
    proof (cases "verdict_of (q_mac q) (net_v d)")
      case None
      with True n Cons q' show ?thesis by (simp add: s net_contains_def)
    next
      case (Some v)
      with n Cons.prems(2) have "fst (snd (BlackList_compareEntry (net_v d) s)) \<noteq> blUNDECIDED"
        by (simp add: lookup_state_undecided)
      with True n Some Cons.prems(2) q' show ?thesis
        using getMac_nets_decided by (simp add: s net_contains_def)
    qed
  next
    case False
    with Cons q' show ?thesis by (simp add: s net_contains_def)
  qed
qed simp

lemma getMac_verdict:
  assumes "decided lst"
    and "\<And>i. Vector_search V (bl_ip_list lst) (q_ip q) IPData_searchCompare = Some i \<Longrightarrow> i < length (bl_ip_list lst)"
  shows "\<exists>q'. BlackList_getMac V t r lst q =
      Inr (q', answer_mac t r (first_verdict (q_mac q) (candidates V lst (q_ip q))))
    \<and> q_poison_mac q' = poison_of (first_verdict (q_mac q) (candidates V lst (q_ip q))) (q_poison_mac q)"
proof -
  define s0 :: lookup where "s0 = (q, blUNDECIDED, False)"
  define s1 where "s1 = (case Vector_search V (bl_ip_list lst) (q_ip q) IPData_searchCompare of
                 Some i \<Rightarrow> BlackList_compareEntry (ip_v (bl_ip_list lst ! i)) s0 | None \<Rightarrow> s0)"
  define s2 where "s2 = (if fst (snd s1) = blUNDECIDED then getMac_nets (bl_net_list lst) s1 else s1)"
  define v where "v = first_verdict (q_mac q) (candidates V lst (q_ip q))"
  have s0: "lookup_state q None s0" by (simp add: s0_def lookup_state_def)
  define v1 where "v1 = (case Vector_search V (bl_ip_list lst) (q_ip q) IPData_searchCompare of
                 Some i \<Rightarrow> verdict_of (q_mac q) (ip_v (bl_ip_list lst ! i)) | None \<Rightarrow> None)"
  have s1: "lookup_state q v1 s1"
    using s0 assms by (auto simp: s1_def v1_def decided_def intro!: compareEntry_verdict split: option.split)
  have "lookup_state q v s2"
  proof (cases "v1 = None")
    case True
    then have "v = first_verdict (q_mac q) (map net_v (filter (net_contains (q_ip q)) (bl_net_list lst)))"
      by (auto simp: v_def v1_def candidates_def split: option.splits)
    then show ?thesis
      using True s1 assms(1) getMac_nets_verdict[of q s1 "bl_net_list lst"] lookup_state_undecided[OF s1]
      by (simp add: s2_def decided_def)
  next
    case False
    then have "v = v1" by (auto simp: v_def v1_def candidates_def split: option.splits)
    then show ?thesis using False s1 lookup_state_undecided[OF s1] by (auto simp: s2_def)
  qed
  moreover obtain q' st res where s2: "s2 = (q', st, res)" by (cases s2) auto
  moreover have "BlackList_getMac V t r lst q =
     (if \<not> res then Inr (q', None)
      else case st of blIGNORE \<Rightarrow> Inr (q', None) | blSET \<Rightarrow> Inr (q', Some (q_result_buffer q'))
        | blRAND \<Rightarrow> (let q = q'\<lparr>q_result_buffer := Util_setRandomMac t r\<rparr> in Inr (q, Some (q_result_buffer q)))
        | blUNDECIDED \<Rightarrow> Inl AssertFail)"
    unfolding BlackList_getMac_def Let_def s0_def[symmetric] s1_def[symmetric] s2_def[symmetric] s2 by simp
  ultimately show ?thesis
    unfolding v_def[symmetric]
    by (cases st) (auto simp: lookup_state_def Let_def split: option.splits verdict.splits BlackListStatus.splits)
qed

section \<open>Well-formed lists\<close>

definition base_wf :: "BaseData \<Rightarrow> bool" where
  "base_wf e \<longleftrightarrow> b_status e \<noteq> blUNDECIDED \<and> wf_mac (am_mac (b_atmac e)) \<and> (b_status e = blSET \<longrightarrow> wf_mac (b_mac e))"

definition net_wf :: "NetData \<Rightarrow> bool" where
  "net_wf d \<longleftrightarrow> base_wf (net_v d) \<and> b_ip (net_v d) AND net_mask d = b_ip (net_v d)
     \<and> (net_no_ip d \<longrightarrow> net_mask d = 0 \<and> am_status (b_atmac (net_v d)) = amPOSITIVE)"

definition bl_wf :: "BlackList \<Rightarrow> bool" where
  "bl_wf lst \<longleftrightarrow> (\<forall>d\<in>set (bl_ip_list lst). base_wf (ip_v d)) \<and> (\<forall>d\<in>set (bl_net_list lst). net_wf d)"

definition bl_sorted :: "BlackList \<Rightarrow> bool" where
  "bl_sorted lst \<longleftrightarrow> sorted_wrt (\<lambda>x y. IPData_sortCompare x y \<le> 0) (bl_ip_list lst)
                   \<and> sorted_wrt (\<lambda>x y. NetData_sortCompare x y \<le> 0) (bl_net_list lst)"

lemma bl_wf_decided: "bl_wf lst \<Longrightarrow> decided lst"
  by (simp add: bl_wf_def decided_def base_wf_def net_wf_def)

lemma ip_search_order: "bl_sorted lst \<Longrightarrow> search_order IPData_searchCompare ip (bl_ip_list lst)"
  unfolding bl_sorted_def search_order_def
  by (elim conjE sorted_wrt_mono_rel[rotated]) (auto simp: IPData_sortCompare_le IPData_searchCompare_def)

lemma ip_search_found:
  assumes "vector_lib V" "bl_sorted lst" "Vector_search V (bl_ip_list lst) ip IPData_searchCompare = Some i"
  shows "i < length (bl_ip_list lst)" "b_ip (ip_v (bl_ip_list lst ! i)) = ip"
  using vector_lib.search_found[OF assms(1) ip_search_order[OF assms(2)] assms(3)]
  by (auto simp: IPData_searchCompare_0)

lemma ip_search_missing:
  assumes "vector_lib V" "bl_sorted lst" "\<forall>d\<in>set (bl_ip_list lst). b_ip (ip_v d) \<noteq> ip"
  shows "Vector_search V (bl_ip_list lst) ip IPData_searchCompare = None"
  using ip_search_found[OF assms(1,2)] assms(3) by (metis nth_mem option.exhaust)

lemma first_verdict_split:
  "first_verdict mac es = Some v \<Longrightarrow>
   \<exists>as e bs. es = as @ e # bs \<and> verdict_of mac e = Some v \<and> (\<forall>a\<in>set as. verdict_of mac a = None)"
proof (induction es)
  case (Cons e es)
  show ?case
  proof (cases "verdict_of mac e")
    case None
    with Cons obtain as x bs where "es = as @ x # bs" "verdict_of mac x = Some v" "\<forall>a\<in>set as. verdict_of mac a = None"
      by auto
    with None show ?thesis by (intro exI[of _ "e # as"] exI[of _ x] exI[of _ bs]) auto
  next
    case (Some w)
    with Cons.prems show ?thesis by (intro exI[of _ "[]"] exI[of _ e] exI[of _ es]) auto
  qed
qed simp

lemma first_verdict_None: "first_verdict mac es = None \<longleftrightarrow> (\<forall>e\<in>set es. verdict_of mac e = None)"
  by (induction es) (auto split: option.splits)

lemma candidates_sound:
  assumes "vector_lib V" "bl_sorted lst" "e \<in> set (candidates V lst ip)"
  shows "(\<exists>d\<in>set (bl_ip_list lst). e = ip_v d \<and> b_ip e = ip)
       \<or> (\<exists>d\<in>set (bl_net_list lst). e = net_v d \<and> net_contains ip d)"
  using assms(3) ip_search_found[OF assms(1,2)]
  by (auto simp: candidates_def split: option.splits)

lemma getMac_wf:
  assumes "vector_lib V" "bl_wf lst" "bl_sorted lst"
  shows "\<exists>q'. BlackList_getMac V t r lst q =
      Inr (q', answer_mac t r (first_verdict (q_mac q) (candidates V lst (q_ip q))))
    \<and> q_poison_mac q' = poison_of (first_verdict (q_mac q) (candidates V lst (q_ip q))) (q_poison_mac q)"
  by (rule getMac_verdict[OF bl_wf_decided[OF assms(2)] ip_search_found(1)[OF assms(1,3)]])

lemma net_rank_order:
  "NetData_sortCompare x y \<le> 0 \<Longrightarrow>
   net_no_ip x \<or> \<not> net_no_ip y \<and> getBitCount (net_mask y) \<le> getBitCount (net_mask x)"
  unfolding NetData_sortCompare_def bitcount_diff atmac_diff Let_def by (auto split: if_splits)

lemma first_net_verdict:
  assumes "sorted_wrt (\<lambda>x y. NetData_sortCompare x y \<le> 0) ds" "d \<in> set ds" "P d" "verdict_of mac (net_v d) \<noteq> None"
  shows "\<exists>d'\<in>set ds. P d' \<and> first_verdict mac (map net_v (filter P ds)) = verdict_of mac (net_v d')
     \<and> verdict_of mac (net_v d') \<noteq> None
     \<and> (net_no_ip d' \<or> \<not> net_no_ip d \<and> getBitCount (net_mask d) \<le> getBitCount (net_mask d'))"
  using assms
proof (induction ds)
  case (Cons x xs)
  show ?case
  proof (cases "P x \<and> verdict_of mac (net_v x) \<noteq> None")
    case True
    moreover have "net_no_ip x \<or> \<not> net_no_ip d \<and> getBitCount (net_mask d) \<le> getBitCount (net_mask x)"
      using Cons.prems(1,2) net_rank_order[of x d] by (auto simp: linorder_class.not_less)
    ultimately show ?thesis by auto
  next
    case False
    with Cons show ?thesis by auto
  qed
qed simp

lemma getMac_listed:
  assumes "vector_lib V" and "bl_wf lst" and "bl_sorted lst"
    and "BlackList_getMac V t r lst q = Inr (q', Some m)"
  shows "\<exists>e. ((\<exists>d\<in>set (bl_ip_list lst). e = ip_v d \<and> b_ip e = q_ip q)
            \<or> (\<exists>d\<in>set (bl_net_list lst). e = net_v d \<and> net_contains (q_ip q) d))
          \<and> (b_status e = blSET \<and> m = b_mac e \<or> b_status e = blRAND \<and> m = Util_setRandomMac t r)"
proof -
  obtain v where v: "first_verdict (q_mac q) (candidates V lst (q_ip q)) = Some v" "answer_mac t r (Some v) = Some m"
    using getMac_wf[OF assms(1-3), of t r q] assms(4)
    by (cases "first_verdict (q_mac q) (candidates V lst (q_ip q))") auto
  then obtain e where e: "e \<in> set (candidates V lst (q_ip q))" "verdict_of (q_mac q) e = Some v"
    using first_verdict_split[OF v(1)] by (metis in_set_conv_decomp)
  have "v = Apply e" using e(2) v(2) by (auto simp: verdict_of_def split: atmac_status.splits option.splits if_splits)
  then show ?thesis
    using v(2) candidates_sound[OF assms(1,3) e(1)] by (auto split: BlackListStatus.splits)
qed

section \<open>Properties\<close>

text \<open>
  C3: a lookup in a well-formed, sorted list returns, and its answer and its poison address are
  those of the first entry with a verdict among the candidates: the entry for the address
  itself, then the networks that contain it in the order of the list.
\<close>

theorem lookup_first_verdict:
  assumes "vector_lib V" and "bl_wf lst" and "bl_sorted lst"
  shows "\<exists>q'. BlackList_getMac V t r lst q =
      Inr (q', answer_mac t r (first_verdict (q_mac q) (candidates V lst (q_ip q))))
    \<and> q_poison_mac q' = poison_of (first_verdict (q_mac q) (candidates V lst (q_ip q))) (q_poison_mac q)"
  by (rule getMac_wf[OF assms])

definition no_atmac :: AtMac where
  "no_atmac = \<lparr>am_mac = replicate 6 0, am_status = amNONE\<rparr>"

definition base_entry :: "in_addr \<Rightarrow> BlackListStatus \<Rightarrow> AtMac \<Rightarrow> BaseData" where
  "base_entry ip st am = \<lparr>b_ip = ip, b_status = st, b_mac = [1, 2, 3, 4, 5, 6], b_atmac = am\<rparr>"

text \<open>
  Addresses as the host reads them: \<open>0x0100000A\<close> is 10.0.0.1. The example list has the
  address \<open>!10.0.0.1\<close> and the networks 10.0.0.0/24 and 10.0.0.0/8.
\<close>

definition example_list :: BlackList where
  "example_list =
     \<lparr>bl_ip_list = [\<lparr>ip_v = base_entry 0x0100000A blIGNORE no_atmac\<rparr>],
      bl_net_list = [\<lparr>net_v = base_entry 0x0000000A blSET no_atmac, net_mask = 0x00FFFFFF, net_no_ip = False\<rparr>,
                     \<lparr>net_v = base_entry 0x0000000A blRAND no_atmac, net_mask = 0x000000FF, net_no_ip = False\<rparr>],
      bl_last_mtime = 0, bl_args = default_arguments\<rparr>"

definition ip_null :: IPData where
  "ip_null = \<lparr>ip_v = base_entry 0 blUNDECIDED no_atmac\<rparr>"

definition query_for :: "in_addr \<Rightarrow> ether_addr option \<Rightarrow> BlackListQuery" where
  "query_for ip mac = \<lparr>q_result_buffer = replicate 6 0, q_ip = ip, q_mac = mac, q_poison_mac = None\<rparr>"

lemma example_list_wf: "bl_wf example_list" and example_list_sorted: "bl_sorted example_list"
  by code_simp+

theorem lookup_first_verdict_witness:
  "\<exists>q'. BlackList_getMac (list_vector ip_null) 0 0 example_list (query_for 0x0200000A None)
        = Inr (q', Some [1, 2, 3, 4, 5, 6])"
proof -
  have v: "answer_mac 0 0 (first_verdict None (candidates (list_vector ip_null) example_list 0x0200000A))
      = Some [1, 2, 3, 4, 5, 6]" by code_simp
  have "q_mac (query_for 0x0200000A None) = None" "q_ip (query_for 0x0200000A None) = 0x0200000A"
    by (simp_all add: query_for_def)
  with lookup_first_verdict[OF list_vector_lib[of ip_null] example_list_wf example_list_sorted, of 0 0 "query_for 0x0200000A None"] v
  show ?thesis by auto
qed

text \<open>
  Only listed addresses are answered. Whenever the lookup gives a MAC, there is an entry for
  the address or a network that contains it whose status is \<open>blSET\<close>, and the MAC is the
  one of that entry, or whose status is \<open>blRAND\<close>, and the MAC is a random one.
\<close>

theorem answers_only_listed:
  assumes "vector_lib V" and "bl_wf lst" and "bl_sorted lst"
    and "BlackList_getMac V t r lst q = Inr (q', Some m)"
  shows "\<exists>e. ((\<exists>d\<in>set (bl_ip_list lst). e = ip_v d \<and> b_ip e = q_ip q)
            \<or> (\<exists>d\<in>set (bl_net_list lst). e = net_v d \<and> net_contains (q_ip q) d))
          \<and> (b_status e = blSET \<and> m = b_mac e \<or> b_status e = blRAND \<and> m = Util_setRandomMac t r)"
  by (rule getMac_listed[OF assms])

theorem answers_only_listed_witness:
  "\<exists>e::BaseData. ((\<exists>d\<in>set (bl_ip_list example_list). e = ip_v d \<and> b_ip e = 0x0200000A)
      \<or> (\<exists>d\<in>set (bl_net_list example_list). e = net_v d \<and> net_contains 0x0200000A d))
    \<and> (b_status e = blSET \<and> [1, 2, 3, 4, 5, 6] = b_mac e \<or> b_status e = blRAND \<and> [1, 2, 3, 4, 5, 6] = Util_setRandomMac 0 0)"
proof -
  have m: "case BlackList_getMac (list_vector ip_null) 0 0 example_list (query_for 0x0200000A None) of
     Inl _ \<Rightarrow> False | Inr (q', m) \<Rightarrow> m = Some [1, 2, 3, 4, 5, 6]" by code_simp
  then obtain q' where
    g: "BlackList_getMac (list_vector ip_null) 0 0 example_list (query_for 0x0200000A None) = Inr (q', Some [1, 2, 3, 4, 5, 6])"
    by (auto split: sum.splits)
  show ?thesis
    using answers_only_listed[OF list_vector_lib[of ip_null] example_list_wf example_list_sorted g]
    unfolding query_for_def by simp
qed

text \<open>
  C26: the most specific network wins. When no single-address entry exists for an address and
  some network \<open>d\<close> that contains it has a verdict, the answer is that of a network with at
  least as many mask bits as \<open>d\<close>, or of an entry for all addresses (\<open>*@mac\<close>).
\<close>

theorem most_specific_network:
  assumes "vector_lib V" and "bl_wf lst" and "bl_sorted lst"
    and "\<forall>d\<in>set (bl_ip_list lst). b_ip (ip_v d) \<noteq> q_ip q"
    and "d \<in> set (bl_net_list lst)" and "net_contains (q_ip q) d" and "verdict_of (q_mac q) (net_v d) \<noteq> None"
  shows "\<exists>d'\<in>set (bl_net_list lst). \<exists>q'. net_contains (q_ip q) d'
     \<and> BlackList_getMac V t r lst q = Inr (q', answer_mac t r (verdict_of (q_mac q) (net_v d')))
     \<and> (net_no_ip d' \<or> \<not> net_no_ip d \<and> getBitCount (net_mask d) \<le> getBitCount (net_mask d'))"
proof -
  have c: "candidates V lst (q_ip q) = map net_v (filter (net_contains (q_ip q)) (bl_net_list lst))"
    using ip_search_missing[OF assms(1,3,4)] by (simp add: candidates_def)
  have "sorted_wrt (\<lambda>x y. NetData_sortCompare x y \<le> 0) (bl_net_list lst)" using assms(3) by (simp add: bl_sorted_def)
  from first_net_verdict[OF this assms(5), of "net_contains (q_ip q)", OF assms(6,7)] getMac_wf[OF assms(1-3), of t r q]
  show ?thesis unfolding c by metis
qed

theorem most_specific_network_witness:
  "\<exists>d' q'. d' \<in> set (bl_net_list example_list) \<and>
     BlackList_getMac (list_vector ip_null) 0 0 example_list (query_for 0x0200000A None)
       = Inr (q', answer_mac 0 0 (verdict_of None (net_v d')))"
proof -
  let ?d = "\<lparr>net_v = base_entry 0x0000000A blSET no_atmac, net_mask = 0x00FFFFFF, net_no_ip = False\<rparr>"
  have 1: "\<forall>d\<in>set (bl_ip_list example_list). b_ip (ip_v d) \<noteq> q_ip (query_for 0x0200000A None)" by code_simp
  have 2: "?d \<in> set (bl_net_list example_list)" by (simp add: example_list_def)
  have 3: "net_contains (q_ip (query_for 0x0200000A None)) ?d" by code_simp
  have 4: "verdict_of (q_mac (query_for 0x0200000A None)) (net_v ?d) \<noteq> None" by code_simp
  show ?thesis
    using most_specific_network[OF list_vector_lib[of ip_null] example_list_wf example_list_sorted 1 2 3 4, of 0 0]
    by (auto simp: query_for_def)
qed

text \<open>
  C32: one \<open>*@mac\<close> entry switches off all networks for requests that carry no sender
  MAC to compare with (those sent \<^emph>\<open>to\<close> an intruder): unless there is an entry for
  the single address, the answer is to do nothing.
\<close>

theorem star_entry_hides_networks:
  assumes "vector_lib V" and "bl_wf lst" and "bl_sorted lst"
    and "\<forall>d\<in>set (bl_ip_list lst). b_ip (ip_v d) \<noteq> q_ip q"
    and "d \<in> set (bl_net_list lst)" and "net_no_ip d" and "q_mac q = None"
  shows "\<exists>q'. BlackList_getMac V t r lst q = Inr (q', None)"
proof -
  have ns: "net_wf x" if "x \<in> set (bl_net_list lst)" for x using assms(2) that by (simp add: bl_wf_def)
  have star: "net_contains ip x \<and> verdict_of None (net_v x) = Some Ignore"
    if "x \<in> set (bl_net_list lst)" "net_no_ip x" for x ip
    using ns[OF that(1)] that(2)
    by (auto simp: net_wf_def net_contains_def verdict_of_def)
  have c: "candidates V lst (q_ip q) = map net_v (filter (net_contains (q_ip q)) (bl_net_list lst))"
    using ip_search_missing[OF assms(1,3,4)] by (simp add: candidates_def)
  have so: "sorted_wrt (\<lambda>x y. NetData_sortCompare x y \<le> 0) (bl_net_list lst)" using assms(3) by (simp add: bl_sorted_def)
  have "verdict_of (q_mac q) (net_v d) \<noteq> None" using star[OF assms(5,6)] assms(7) by simp
  from first_net_verdict[OF so assms(5) _ this, of "net_contains (q_ip q)"] star[OF assms(5,6)]
  obtain d' where "d' \<in> set (bl_net_list lst)" "net_no_ip d'"
    "first_verdict (q_mac q) (candidates V lst (q_ip q)) = verdict_of (q_mac q) (net_v d')"
    unfolding c using assms(6) by blast
  then have "first_verdict (q_mac q) (candidates V lst (q_ip q)) = Some Ignore" using star assms(7) by simp
  then show ?thesis using getMac_wf[OF assms(1-3), of t r q] by auto
qed

definition star_list :: BlackList where
  "star_list = example_list\<lparr>bl_net_list :=
     \<lparr>net_v = base_entry 0 blRAND \<lparr>am_mac = [7, 7, 7, 7, 7, 7], am_status = amPOSITIVE\<rparr>,
      net_mask = 0, net_no_ip = True\<rparr> # bl_net_list example_list\<rparr>"

theorem star_entry_hides_networks_witness:
  "\<exists>q'. BlackList_getMac (list_vector ip_null) 0 0 star_list (query_for 0x0200000A None) = Inr (q', None)"
proof -
  let ?d = "hd (bl_net_list star_list)"
  have w: "bl_wf star_list" "bl_sorted star_list" by code_simp+
  have 1: "\<forall>d\<in>set (bl_ip_list star_list). b_ip (ip_v d) \<noteq> q_ip (query_for 0x0200000A None)" by code_simp
  have 2: "?d \<in> set (bl_net_list star_list)" "net_no_ip ?d" by (simp_all add: star_list_def)
  show ?thesis
    by (rule star_entry_hides_networks[OF list_vector_lib[of ip_null] w 1 2]) (simp add: query_for_def)
qed

end
