(* ===== verification/Blacklist_Parser.thy ===== *)
theory Blacklist_Parser
  imports Blacklist_Data
begin

text \<open>
  The scanner of the blacklist file in \<open>src/src/blacklist.c\<close>: one line is expanded at its braces and
  each resulting line is parsed into an entry. The code works in place on \<open>char\<close>
  buffers and overwrites delimiters by NUL; so does the model: a line is a buffer with
  an index \<open>e\<close> of its terminating NUL, every access to it is checked, and functions that
  write return the new contents. A pointer into the line is an index.
\<close>

section \<open>Environment\<close>

text \<open>
  The libraries, the address of the interface, and the indeterminate contents of memory that the
  code does not initialise: the local variable \<open>parse_mac\<close> and the blocks of \<open>alloca\<close>. \<open>pe_testsuite\<close>
  tells whether the code was compiled with \<open>ENSC_TESTSUITE\<close>.
\<close>

record parse_env =
  pe_fmt :: fmt_ops
  pe_ip_vec :: ip_vector
  pe_net_vec :: net_vector
  pe_local_mac :: ether_addr
  pe_uninit_mac :: ether_addr
  pe_stack :: "nat \<Rightarrow> char"
  pe_testsuite :: bool

text \<open>A parser step: the list, the line buffer, the returned flag and the messages.\<close>

type_synonym line_result = "(BlackList \<times> string \<times> bool \<times> writes) run"

abbreviation QT :: char where "QT \<equiv> CHR 0x27"

section \<open>Scanning\<close>

function scan_while :: "(char \<Rightarrow> bool) \<Rightarrow> string \<Rightarrow> nat \<Rightarrow> nat run" where
  "scan_while P buf i =
     (if i < length buf then (if P (buf ! i) then scan_while P buf (Suc i) else Inr i)
      else Inl OutOfBounds)"
  by pat_completeness auto
termination by (relation "measure (\<lambda>(P, buf, i). length buf - i)") auto

declare scan_while.simps [simp del]

definition blank :: "char \<Rightarrow> bool" where
  "blank c \<longleftrightarrow> c = CHR '' '' \<or> c = TAB"

definition BlackList_ignoreWhitespace :: "string \<Rightarrow> nat \<Rightarrow> nat run" where
  "BlackList_ignoreWhitespace buf start = scan_while blank buf start"

text \<open>
  The loop that ends a word: the first of the delimiters before \<open>e\<close> is overwritten by NUL and
  returned; the loop also ends at a NUL.
\<close>

function scan_token :: "string \<Rightarrow> string \<Rightarrow> nat \<Rightarrow> nat \<Rightarrow> (string \<times> nat \<times> char option) run" where
  "scan_token delims buf pos e =
     (if pos < e then
        bindR (readR buf pos) (\<lambda>c.
          if c \<in> set delims then bindR (pokeR buf pos NUL) (\<lambda>buf. Inr (buf, pos, Some c))
          else if c = NUL then Inr (buf, pos, None)
          else scan_token delims buf (Suc pos) e)
      else Inr (buf, pos, None))"
  by pat_completeness auto
termination by (relation "measure (\<lambda>(delims, buf, pos, e). e - pos)") auto

declare scan_token.simps [simp del]

section \<open>Parts of a line\<close>

definition BlackList_setDefaultMac :: "BlackList \<Rightarrow> ether_addr \<Rightarrow> (BlackListStatus \<times> ether_addr) run" where
  "BlackList_setDefaultMac lst addr =
     (case tm_type (a_mac (bl_args lst)) of
        mcRANDOM \<Rightarrow> Inr (blRAND, addr)
      | mcFIXED \<Rightarrow> Inr (blSET, tm_ether (a_mac (bl_args lst)))
      | _ \<Rightarrow> Inl AssertFail)"

definition PARSE_ERRROR :: "parse_env \<Rightarrow> nat \<Rightarrow> string \<Rightarrow> writes" where
  "PARSE_ERRROR E line_nr msg = writeUInt (pe_fmt E) 2 line_nr @ Vwrite 2 ('': '' @ msg @ [NL])"

definition mask_end :: "char \<Rightarrow> bool" where
  "mask_end c \<longleftrightarrow> c = NUL \<or> c = CHR '' '' \<or> c = TAB \<or> c = CHR ''@''"

text \<open>\<open>~0u\<close> shifted left in two steps, in network byte order.\<close>

definition prefix_mask :: "nat \<Rightarrow> in_addr" where
  "prefix_mask n = htonl (if n < 32 then push_bit 1 (push_bit (32 - n - 1) (- 1)) else - 1)"

text \<open>
  The result is the buffer, the new position, the mask unless parsing failed, and the messages. The
  test \<open>*start == '\0'\<close> of the code compares a pointer with zero and is never true.
\<close>

definition BlackList_parseNetMask ::
  "parse_env \<Rightarrow> string \<Rightarrow> nat \<Rightarrow> nat \<Rightarrow> (string \<times> nat \<times> in_addr option \<times> writes) run" where
  "BlackList_parseNetMask E buf start line_nr =
     bindR (cstrR buf start) (\<lambda>s.
     let (val, n) = strtol 0 s; endptr = start + n in
     bindR (readR buf endptr) (\<lambda>c.
     if \<not> mask_end c then
       bindR (scan_while (\<lambda>c. \<not> mask_end c) buf endptr) (\<lambda>endptr.
       bindR (readR buf endptr) (\<lambda>tmp.
       bindR (pokeR buf endptr NUL) (\<lambda>buf.
       bindR (cstrR buf start) (\<lambda>s.
       case inet_aton s of
         None \<Rightarrow> Inr (buf, start, None,
             writeUInt (pe_fmt E) 2 line_nr @ Vwrite 2 ('': invalid netmask '' @ [QT]) @ Vwrite 2 s
             @ Vwrite 2 ([QT] @ '', first bad char was '' @ [QT]) @ Vwrite 2 [NUL] @ Vwrite 2 [QT, NL])
       | Some m \<Rightarrow>
           bindR (pokeR buf endptr tmp) (\<lambda>buf. Inr (buf, endptr, Some m, []))))))
     else if val < 0 \<or> val > 32
     then Inr (buf, start, None, PARSE_ERRROR E line_nr ''invalid netmask (too small or large)'')
     else Inr (buf, endptr, Some (prefix_mask (nat val)), [])))"

definition BlackList_parseMac :: "parse_env \<Rightarrow> string \<Rightarrow> nat \<Rightarrow> nat \<Rightarrow> (ether_addr option \<times> writes) run" where
  "BlackList_parseMac E buf start line_nr =
     bindR (cstrR buf start) (\<lambda>s.
     let (mac, ok) = xether_aton_r (pe_local_mac E) s in
     if \<not> ok
     then Inr (None, writeUInt (pe_fmt E) 2 line_nr @ Vwrite 2 ('': invalid MAC '' @ [QT]) @ Vwrite 2 s @ Vwrite 2 [QT, NL])
     else Inr (Some mac, []))"

text \<open>The \<open>@mac\<close> part; the position behind it is returned.\<close>

definition parse_atmac_mac ::
  "parse_env \<Rightarrow> atmac_status \<Rightarrow> string \<Rightarrow> nat \<Rightarrow> nat \<Rightarrow> nat \<Rightarrow> (string \<times> nat \<times> AtMac option \<times> writes) run" where
  "parse_atmac_mac E status buf start e line_nr =
     bindR (scan_token [CHR '' '', TAB] buf start e) (\<lambda>(buf, pos, _).
     bindR (BlackList_parseMac E buf start line_nr) (\<lambda>(mac, w).
     case mac of
       None \<Rightarrow> Inr (buf, start, None, w)
     | Some m \<Rightarrow> Inr (buf, if pos < e then pos + 1 else pos, Some \<lparr>am_mac = m, am_status = status\<rparr>, w)))"

definition parse_atmac :: "parse_env \<Rightarrow> string \<Rightarrow> nat \<Rightarrow> nat \<Rightarrow> nat \<Rightarrow> (string \<times> nat \<times> AtMac option \<times> writes) run" where
  "parse_atmac E buf start e line_nr =
     bindR (readR buf start) (\<lambda>c.
     if c = CHR ''!'' then parse_atmac_mac E amNEGATIVE buf (start + 1) e line_nr
     else parse_atmac_mac E amPOSITIVE buf start e line_nr)"

text \<open>The MAC part: the status and the MAC of the entry. \<open>ignore\<close> tells whether the line has a \<open>!\<close>.\<close>

definition parse_mac_word ::
  "parse_env \<Rightarrow> bool \<Rightarrow> string \<Rightarrow> nat \<Rightarrow> nat \<Rightarrow> nat \<Rightarrow> (string \<times> (BlackListStatus \<times> ether_addr) option \<times> writes) run" where
  "parse_mac_word E ignore buf start e line_nr =
     bindR (scan_token [CHR ''#'', CHR '' '', TAB] buf start e) (\<lambda>(buf, pos, _).
     if ignore then Inr (buf, None, PARSE_ERRROR E line_nr ''can not both ignore an IP and assign a MAC'')
     else bindR (cstrR buf start) (\<lambda>s.
       if s = ''RANDOM'' then Inr (buf, Some (blRAND, pe_uninit_mac E), [])
       else bindR (BlackList_parseMac E buf start line_nr) (\<lambda>(mac, w).
         Inr (buf, map_option (\<lambda>m. (blSET, m)) mac, w))))"

definition parse_mac_part ::
  "parse_env \<Rightarrow> BlackList \<Rightarrow> bool \<Rightarrow> string \<Rightarrow> nat \<Rightarrow> nat \<Rightarrow> nat
     \<Rightarrow> (string \<times> (BlackListStatus \<times> ether_addr) option \<times> writes) run" where
  "parse_mac_part E lst ignore buf start e line_nr =
     bindR (if start = e then Inr NUL else readR buf start) (\<lambda>c.
     if start = e \<or> c = CHR ''#'' then
       (if \<not> ignore
        then bindR (BlackList_setDefaultMac lst (pe_uninit_mac E)) (\<lambda>sm. Inr (buf, Some sm, []))
        else Inr (buf, Some (blIGNORE, pe_uninit_mac E), []))
     else parse_mac_word E ignore buf start e line_nr)"

definition push_net :: "parse_env \<Rightarrow> BlackList \<Rightarrow> NetData \<Rightarrow> BlackList" where
  "push_net E lst d =
     (case Vector_pushback (pe_net_vec E) (bl_net_list lst) of (ds, i) \<Rightarrow> lst\<lparr>bl_net_list := ds[i := d]\<rparr>)"

definition push_ip :: "parse_env \<Rightarrow> BlackList \<Rightarrow> IPData \<Rightarrow> BlackList" where
  "push_ip E lst d =
     (case Vector_pushback (pe_ip_vec E) (bl_ip_list lst) of (ds, i) \<Rightarrow> lst\<lparr>bl_ip_list := ds[i := d]\<rparr>)"

definition parse_push ::
  "parse_env \<Rightarrow> BlackList \<Rightarrow> bool \<Rightarrow> bool \<Rightarrow> in_addr \<Rightarrow> in_addr \<Rightarrow> AtMac \<Rightarrow> BlackListStatus \<Rightarrow> ether_addr \<Rightarrow> BlackList" where
  "parse_push E lst has_mask ignore_ip ip parse_mask atmac status mac =
     (if has_mask \<or> ignore_ip then
        (let m = (if ignore_ip then 0 else parse_mask) in
         push_net E lst \<lparr>net_v = \<lparr>b_ip = ip AND m, b_status = status, b_mac = mac, b_atmac = atmac\<rparr>,
                         net_mask = m, net_no_ip = ignore_ip\<rparr>)
      else push_ip E lst \<lparr>ip_v = \<lparr>b_ip = ip, b_status = status, b_mac = mac, b_atmac = atmac\<rparr>\<rparr>)"

text \<open>
  \<open>BlackList_parseLine\<close> from its end: the part behind the \<open>@mac\<close>, the part from the \<open>@mac\<close> on,
  the part from the end of the host or netmask on, and the part from the host on.
\<close>

definition parse_tail ::
  "parse_env \<Rightarrow> BlackList \<Rightarrow> bool \<Rightarrow> bool \<Rightarrow> bool \<Rightarrow> in_addr \<Rightarrow> in_addr \<Rightarrow> AtMac
     \<Rightarrow> string \<Rightarrow> nat \<Rightarrow> nat \<Rightarrow> nat \<Rightarrow> line_result" where
  "parse_tail E lst ignore has_mask ignore_ip ip parse_mask atmac buf start e line_nr =
     (if ignore_ip \<and> am_status atmac = amNEGATIVE
      then Inr (lst, buf, False, writeUInt (pe_fmt E) 2 line_nr
             @ Vwrite 2 ('': can not use '' @ [QT] @ ''!mac'' @ [QT] @ '' with '' @ [QT] @ ''*'' @ [QT]))
      else assertR (start \<le> e)
        (bindR (BlackList_ignoreWhitespace buf start) (\<lambda>start.
         assertR (start \<le> e)
         (bindR (parse_mac_part E lst ignore buf start e line_nr) (\<lambda>(buf, sm, w).
          case sm of
            None \<Rightarrow> Inr (lst, buf, False, w)
          | Some (status, mac) \<Rightarrow>
              Inr (parse_push E lst has_mask ignore_ip ip parse_mask atmac status mac, buf, True, w))))))"

definition parse_from_at ::
  "parse_env \<Rightarrow> BlackList \<Rightarrow> bool \<Rightarrow> bool \<Rightarrow> bool \<Rightarrow> bool \<Rightarrow> in_addr \<Rightarrow> in_addr
     \<Rightarrow> string \<Rightarrow> nat \<Rightarrow> nat \<Rightarrow> nat \<Rightarrow> line_result" where
  "parse_from_at E lst ignore has_mask has_atmac ignore_ip ip parse_mask buf start e line_nr =
     (if ignore_ip \<and> \<not> has_atmac
      then Inr (lst, buf, False, PARSE_ERRROR E line_nr (''can not use '' @ [QT] @ ''*'' @ [QT] @ '' without an @mac specification''))
      else assertR (start \<le> e)
        (if has_atmac
         then bindR (parse_atmac E buf start e line_nr) (\<lambda>(buf, start, am, w).
           case am of
             None \<Rightarrow> Inr (lst, buf, False, w)
           | Some atmac \<Rightarrow> parse_tail E lst ignore has_mask ignore_ip ip parse_mask atmac buf start e line_nr)
         else parse_tail E lst ignore has_mask ignore_ip ip parse_mask
                \<lparr>am_mac = replicate 6 0, am_status = amNONE\<rparr> buf start e line_nr))"

definition parse_rest ::
  "parse_env \<Rightarrow> BlackList \<Rightarrow> bool \<Rightarrow> bool \<Rightarrow> bool \<Rightarrow> bool \<Rightarrow> in_addr \<Rightarrow> in_addr
     \<Rightarrow> string \<Rightarrow> nat \<Rightarrow> nat \<Rightarrow> nat \<Rightarrow> line_result" where
  "parse_rest E lst ignore has_mask has_atmac ignore_ip ip parse_mask buf start e line_nr =
     bindR (readR buf start) (\<lambda>c.
     if \<not> has_atmac \<and> c = CHR ''@''
     then parse_from_at E lst ignore has_mask True ignore_ip ip parse_mask buf (start + 1) e line_nr
     else parse_from_at E lst ignore has_mask has_atmac ignore_ip ip parse_mask buf start e line_nr)"

definition parse_mask_part ::
  "parse_env \<Rightarrow> BlackList \<Rightarrow> bool \<Rightarrow> bool \<Rightarrow> bool \<Rightarrow> bool \<Rightarrow> in_addr \<Rightarrow> string \<Rightarrow> nat \<Rightarrow> nat \<Rightarrow> nat \<Rightarrow> line_result" where
  "parse_mask_part E lst ignore has_mask has_atmac ignore_ip ip buf start e line_nr =
     (if \<not> has_mask
      then parse_rest E lst ignore has_mask has_atmac ignore_ip ip 0xFFFFFFFF buf start e line_nr
      else if ignore_ip
      then Inr (lst, buf, False, PARSE_ERRROR E line_nr ''can not ignore both the IP but specify a netmask'')
      else bindR (BlackList_parseNetMask E buf start line_nr) (\<lambda>(buf, start, parsed, w).
        case parsed of
          None \<Rightarrow> Inr (lst, buf, False, w)
        | Some m \<Rightarrow> parse_rest E lst ignore has_mask has_atmac ignore_ip ip m buf start e line_nr))"

definition parse_host :: "parse_env \<Rightarrow> BlackList \<Rightarrow> bool \<Rightarrow> string \<Rightarrow> nat \<Rightarrow> nat \<Rightarrow> nat \<Rightarrow> line_result" where
  "parse_host E lst ignore buf start e line_nr =
     bindR (scan_token [CHR ''/'', CHR ''@'', CHR '' '', TAB] buf start e) (\<lambda>(buf, pos, hit).
     bindR (cstrR buf start) (\<lambda>host.
     let ignore_ip = (host = ''*'') in
     case (if ignore_ip then Some 0 else inet_aton host) of
       None \<Rightarrow> Inr (lst, buf, False, writeUInt (pe_fmt E) 2 line_nr
                  @ Vwrite 2 ('': invalid ip '' @ [QT]) @ Vwrite 2 host @ Vwrite 2 [QT, NL])
     | Some ip \<Rightarrow>
       if ignore_ip \<and> ignore
       then Inr (lst, buf, False, writeUInt (pe_fmt E) 2 line_nr
              @ Vwrite 2 ('': can not use '' @ [QT] @ ''!'' @ [QT] @ '' with '' @ [QT] @ ''*'' @ [QT]))
       else parse_mask_part E lst ignore (hit = Some (CHR ''/'')) (hit = Some (CHR ''@'')) ignore_ip ip buf
              (if pos < e then pos + 1 else pos) e line_nr))"

definition BlackList_parseLine :: "parse_env \<Rightarrow> BlackList \<Rightarrow> string \<Rightarrow> nat \<Rightarrow> nat \<Rightarrow> line_result" where
  "BlackList_parseLine E lst buf e line_nr =
     bindR (BlackList_ignoreWhitespace buf 0) (\<lambda>start.
     if start = e then Inr (lst, buf, False, [])
     else bindR (readR buf start) (\<lambda>c.
     if c = CHR ''#'' then Inr (lst, buf, False, [])
     else if c = CHR ''!'' then parse_host E lst True buf (start + 1) e line_nr
     else parse_host E lst False buf start e line_nr))"

section \<open>Ranges\<close>

datatype range_type = rgUNDECIDED | rgLIST | rgRANGE

text \<open>
  A callback that expands the line of length \<open>e\<close> at the start of a buffer.
\<close>

type_synonym expander = "BlackList \<Rightarrow> string \<Rightarrow> nat \<Rightarrow> line_result"

text \<open>
  One item of a range: it and the rest of the line are copied behind the prefix and the resulting
  line is expanded.
\<close>

definition expand_item :: "expander \<Rightarrow> nat \<Rightarrow> string \<Rightarrow> BlackList \<Rightarrow> string \<Rightarrow> string \<Rightarrow> line_result" where
  "expand_item expand prefix_len postfix lst nb item =
     bindR (memcpyR nb prefix_len item) (\<lambda>nb.
     bindR (memcpyR nb (prefix_len + length item) postfix) (\<lambda>nb.
     let len = prefix_len + length item + length postfix in
     bindR (pokeR nb len NUL) (\<lambda>nb. expand lst nb len)))"

function BlackList_iterateList ::
  "expander \<Rightarrow> nat \<Rightarrow> string \<Rightarrow> string \<Rightarrow> nat \<Rightarrow> nat \<Rightarrow> nat \<Rightarrow> BlackList \<Rightarrow> string \<Rightarrow> line_result" where
  "BlackList_iterateList expand prefix_len postfix src list_start list_end ptr lst nb =
     (if ptr \<le> list_end then
        bindR (readR src ptr) (\<lambda>c.
        if c = CHR '','' \<or> ptr = list_end then
          bindR (sliceR src list_start (ptr - list_start)) (\<lambda>item.
          bindR (expand_item expand prefix_len postfix lst nb item) (\<lambda>(lst, nb, ok, w).
          if \<not> ok then Inr (lst, nb, False, w)
          else bindR (BlackList_iterateList expand prefix_len postfix src (Suc ptr) list_end (Suc ptr) lst nb)
                 (\<lambda>(lst, nb, ok, w'). Inr (lst, nb, ok, w @ w'))))
        else BlackList_iterateList expand prefix_len postfix src list_start list_end (Suc ptr) lst nb)
      else Inr (lst, nb, True, []))"
  by pat_completeness auto
termination
  by (relation "measure (\<lambda>(_, _, _, _, _, list_end, ptr, _, _). Suc list_end - ptr)") auto

declare BlackList_iterateList.simps [simp del]

function range_loop ::
  "parse_env \<Rightarrow> expander \<Rightarrow> nat \<Rightarrow> string \<Rightarrow> int \<Rightarrow> int \<Rightarrow> BlackList \<Rightarrow> string \<Rightarrow> line_result" where
  "range_loop E expand prefix_len postfix start end lst nb =
     (if start \<le> end then
        bindR (expand_item expand prefix_len postfix lst nb (fmt_uint (pe_fmt E) (nat start))) (\<lambda>(lst, nb, ok, w).
        if \<not> ok then Inr (lst, nb, False, w)
        else if start = 2 ^ 31 - 1 then Inl SignedOverflow
        else bindR (range_loop E expand prefix_len postfix (start + 1) end lst nb)
               (\<lambda>(lst, nb, ok, w'). Inr (lst, nb, ok, w @ w')))
      else Inr (lst, nb, True, []))"
  by pat_completeness auto
termination
  by (relation "measure (\<lambda>(_, _, _, _, start, end, _, _). nat (end - start + 1))") auto

declare range_loop.simps [simp del]

definition BlackList_iterateRange ::
  "parse_env \<Rightarrow> expander \<Rightarrow> nat \<Rightarrow> string \<Rightarrow> string \<Rightarrow> nat \<Rightarrow> nat \<Rightarrow> BlackList \<Rightarrow> string \<Rightarrow> nat \<Rightarrow> line_result" where
  "BlackList_iterateRange E expand prefix_len postfix src list_start list_end lst nb line_nr =
     (let fail = (\<lambda>msg. Inr (lst, nb, False, PARSE_ERRROR E line_nr msg)) in
      bindR (cstrR src list_start) (\<lambda>s.
      let (v, n) = strtol 10 s; start = to_int32 v; err_ptr = list_start + n in
      bindR (readR src err_ptr) (\<lambda>c.
      if c \<noteq> CHR ''-'' then fail ''unexpected error while parsing a range''
      else bindR (cstrR src (err_ptr + 1)) (\<lambda>s.
      let (v, n) = strtol 10 s; end = to_int32 v; err_ptr = err_ptr + 1 + n in
      bindR (readR src err_ptr) (\<lambda>c.
      if c \<noteq> CHR ''}'' then fail ''range not terminated correctly''
      else if start < 0 \<or> end < 0 then fail ''negative values are not allowed in ranges''
      else if start > end then fail ''descending ranges are not allowed''
      else if err_ptr > list_end then fail ''unexpected error while parsing range''
      else range_loop E expand prefix_len postfix start end lst nb)))))"

text \<open>
  The loop of \<open>BlackList_expandLine\<close> up to the end of the first range: it either reports an error, or
  reaches the end of the line (possibly inside of a range), or finds a range.
\<close>

datatype line_scan = ScanError string | ScanEnd bool | ScanRange nat nat range_type

function expand_scan :: "string \<Rightarrow> nat \<Rightarrow> nat \<Rightarrow> nat option \<Rightarrow> range_type \<Rightarrow> line_scan run" where
  "expand_scan buf i e range_start rt =
     (if i < e then
        bindR (readR buf i) (\<lambda>c.
        if c = CHR ''#'' then Inr (ScanEnd (range_start \<noteq> None))
        else if c = CHR ''{'' then
          (if range_start \<noteq> None then Inr (ScanError ''nested ranges are not allowed'')
           else expand_scan buf (Suc i) e (Some i) rgUNDECIDED)
        else if c = CHR ''}'' then
          (case range_start of
             None \<Rightarrow> Inr (ScanError ''unexpected end of range'')
           | Some s \<Rightarrow> Inr (ScanRange s i rt))
        else if c = CHR ''-'' \<or> c = CHR '','' then
          (let t = (if c = CHR ''-'' then rgRANGE else rgLIST) in
           if rt \<noteq> rgUNDECIDED \<and> rt \<noteq> t then Inr (ScanError ''mixed range-types not allowed'')
           else expand_scan buf (Suc i) e range_start t)
        else if range_start \<noteq> None \<and> \<not> isdigit c then Inr (ScanError ''non-digits not allowed as range-marks'')
        else expand_scan buf (Suc i) e range_start rt)
      else Inr (ScanEnd (range_start \<noteq> None)))"
  by pat_completeness auto
termination by (relation "measure (\<lambda>(_, i, e, _, _). e - i)") auto

declare expand_scan.simps [simp del]

text \<open>
  The recursion: each level removes the first range. The first argument bounds the depth.
\<close>

fun expand_line :: "nat \<Rightarrow> parse_env \<Rightarrow> nat \<Rightarrow> expander" where
  "expand_line 0 E line_nr lst buf e = Inl OutOfFuel"
| "expand_line (Suc fuel) E line_nr lst buf e =
     (let fail = (\<lambda>msg. Inr (lst, buf, False, PARSE_ERRROR E line_nr msg));
          nb = map (pe_stack E) [0..<e] in
      bindR (expand_scan buf 0 e None rgUNDECIDED) (\<lambda>sc.
      case sc of
        ScanError msg \<Rightarrow> fail msg
      | ScanEnd open \<Rightarrow>
          (if open then fail ''range not closed''
           else bindR (BlackList_parseLine E lst buf e line_nr) (\<lambda>(lst, buf, _, w). Inr (lst, buf, True, w)))
      | ScanRange range_start range_end rt \<Rightarrow>
          assertR (range_start < range_end)
           (bindR (sliceR buf 0 range_start) (\<lambda>prefix.
            bindR (memcpyR nb 0 prefix) (\<lambda>nb.
            bindR (sliceR buf (Suc range_end) (e - range_end - 1)) (\<lambda>postfix.
            bindR (case rt of
                rgUNDECIDED \<Rightarrow> Inr (lst, nb, False, PARSE_ERRROR E line_nr ''can not parse range'')
              | rgLIST \<Rightarrow> BlackList_iterateList (expand_line fuel E line_nr) range_start postfix buf
                           (Suc range_start) range_end (Suc range_start) lst nb
              | rgRANGE \<Rightarrow> BlackList_iterateRange E (expand_line fuel E line_nr) range_start postfix buf
                           (Suc range_start) range_end lst nb line_nr)
              (\<lambda>(lst, nb, ok, w). Inr (lst, buf, ok, w))))))))"

text \<open>One level for every opening brace and one for the final line are enough.\<close>

definition expand_depth :: "string \<Rightarrow> nat \<Rightarrow> nat" where
  "expand_depth buf e = Suc (count_list (take e buf) (CHR ''{''))"

definition BlackList_expandLine :: "parse_env \<Rightarrow> nat \<Rightarrow> expander" where
  "BlackList_expandLine E line_nr lst buf e = expand_line (expand_depth buf e) E line_nr lst buf e"

end
