(* ===== verification/Parser_Safety.thy ===== *)
theory Parser_Safety
  imports Blacklist_Parser
begin

text \<open>
  Memory safety and termination of the scanner: on every line with a terminating NUL, all accesses
  stay inside of the line and of the blocks allocated for expanded lines, no assertion
  fails and the depth of the expansion is bounded by the number of braces. The only
  exception is a range that ends at \<open>INT_MAX\<close>, whose loop counter overflows. Every entry
  that is added is well-formed.
\<close>

section \<open>Scanners\<close>

lemma scan_while_ok:
  assumes "i \<le> j" "j < length buf" "\<not> P (buf ! j)"
  shows "\<exists>k. scan_while P buf i = Inr k \<and> i \<le> k \<and> k \<le> j \<and> \<not> P (buf ! k) \<and> (\<forall>m. i \<le> m \<and> m < k \<longrightarrow> P (buf ! m))"
  using assms
proof (induction P buf i rule: scan_while.induct)
  case (1 P buf i)
  show ?case
  proof (cases "P (buf ! i)")
    case True
    with 1 have "i < j" by (metis le_neq_implies_less)
    with 1 True obtain k where "scan_while P buf (Suc i) = Inr k" "Suc i \<le> k" "k \<le> j" "\<not> P (buf ! k)"
      "\<forall>m. Suc i \<le> m \<and> m < k \<longrightarrow> P (buf ! m)" by auto
    with True \<open>i < j\<close> 1(3) show ?thesis
      by (subst scan_while.simps) (auto simp: not_less_eq_eq, metis le_antisym not_less_eq_eq)
  next
    case False
    with 1 show ?thesis by (subst scan_while.simps) auto
  qed
qed

definition token_end :: "string \<Rightarrow> string \<Rightarrow> nat \<Rightarrow> nat \<Rightarrow> nat \<Rightarrow> char option \<Rightarrow> bool" where
  "token_end d buf pos e k hit \<longleftrightarrow> pos \<le> k \<and> k \<le> e
     \<and> (hit \<noteq> None \<longrightarrow> k < e \<and> hit = Some (buf ! k) \<and> buf ! k \<in> set d)
     \<and> (hit = None \<longrightarrow> k = e \<or> buf ! k = NUL)
     \<and> (\<forall>m. pos \<le> m \<and> m < k \<longrightarrow> buf ! m \<notin> set d \<and> buf ! m \<noteq> NUL)"

lemma token_end_step:
  "token_end d buf (Suc pos) e k hit \<Longrightarrow> buf ! pos \<notin> set d \<Longrightarrow> buf ! pos \<noteq> NUL \<Longrightarrow> token_end d buf pos e k hit"
  unfolding token_end_def by (metis Suc_leD le_antisym not_less_eq_eq)

lemma scan_token_ok:
  assumes "pos \<le> e" "e < length buf"
  shows "\<exists>k hit. scan_token d buf pos e = Inr (if hit = None then buf else buf[k := NUL], k, hit)
     \<and> token_end d buf pos e k hit"
  using assms
proof (induction d buf pos e rule: scan_token.induct)
  case (1 d buf pos e)
  have r: "pos < e \<Longrightarrow> readR buf pos = Inr (buf ! pos)" using 1(3) by simp
  consider (go) "pos < e" "buf ! pos \<notin> set d" "buf ! pos \<noteq> NUL" | (hit) "pos < e" "buf ! pos \<in> set d"
    | (stop) "pos = e \<or> buf ! pos \<notin> set d \<and> buf ! pos = NUL" using 1(2) by fastforce
  then show ?case
  proof cases
    case go
    then have "scan_token d buf pos e = scan_token d buf (Suc pos) e"
      using r by (subst scan_token.simps) simp
    with 1(1)[OF go] go 1(3) token_end_step show ?thesis by (metis Suc_leI)
  next
    case hit
    then show ?thesis
      using 1(3) by (subst scan_token.simps) (auto simp: token_end_def intro!: exI[of _ pos] exI[of _ "Some (buf ! pos)"])
  next
    case stop
    then show ?thesis
      using 1(2,3) by (subst scan_token.simps) (auto simp: token_end_def intro!: exI[of _ pos] exI[of _ "None"])
  qed
qed

text \<open>
  What may happen to a line in place: delimiters are overwritten by NUL, and no byte behind the line
  is changed.
\<close>

definition delims :: "char set" where
  "delims = {CHR ''/'', CHR ''@'', CHR ''#'', CHR '' '', TAB}"

definition line_upd :: "nat \<Rightarrow> string \<Rightarrow> string \<Rightarrow> bool" where
  "line_upd e buf buf' \<longleftrightarrow> length buf' = length buf
     \<and> (\<forall>i<length buf. buf' ! i = buf ! i \<or> i < e \<and> buf' ! i = NUL \<and> buf ! i \<in> delims)"

lemma line_upd_refl [simp]: "line_upd e buf buf"
  by (simp add: line_upd_def)

lemma line_upd_poke: "k < e \<Longrightarrow> buf ! k \<in> delims \<Longrightarrow> line_upd e buf (buf[k := NUL])"
  by (cases "k < length buf") (auto simp: line_upd_def nth_list_update)

lemma NUL_not_delim: "NUL \<notin> delims"
  by (simp add: delims_def)

lemma line_upd_trans: "line_upd e a b \<Longrightarrow> line_upd e b c \<Longrightarrow> line_upd e a c"
  unfolding line_upd_def using NUL_not_delim by (metis (no_types))

lemma line_upd_buf: "line_upd e buf buf' \<Longrightarrow> line_buf buf e \<Longrightarrow> line_buf buf' e"
  by (auto simp: line_upd_def line_buf_def)

lemma digits_acc_len: "snd (digits_acc b a n s) \<le> n + length s"
proof (induction s arbitrary: a n)
  case (Cons c s)
  then show ?case using Cons[of _ "Suc n"] by (auto split: option.split) 
qed simp

lemma strtol_base_len: "snd (strtol_base b s) \<le> length s"
  by (auto simp: strtol_base_def hex_prefix_def split: list.splits)

lemma strtol_len: "snd (strtol b s) \<le> length s"
proof -
  define ws where "ws = length (takeWhile isspace s)"
  define s1 where "s1 = drop ws s"
  define sg where "sg = (if s1 \<noteq> [] \<and> (hd s1 = CHR ''-'' \<or> hd s1 = CHR ''+'') then 1 else (0::nat))"
  define s2 where "s2 = drop sg s1"
  define s3 where "s3 = drop (snd (strtol_base b s2)) s2"
  have "sg \<le> length s1" by (cases s1) (auto simp: sg_def)
  moreover have "ws \<le> length s" unfolding ws_def by (rule length_takeWhile_le)
  moreover have "snd (strtol_base b s2) \<le> length s2" by (rule strtol_base_len)
  moreover have "snd (digits_acc (fst (strtol_base b s2)) 0 0 s3) \<le> length s3"
    using digits_acc_len[of "fst (strtol_base b s2)" 0 0 s3] by simp
  ultimately have "ws + sg + snd (strtol_base b s2) + snd (digits_acc (fst (strtol_base b s2)) 0 0 s3) \<le> length s"
    unfolding s3_def s2_def s1_def length_drop by linarith
  moreover have "snd (strtol b s) = (if snd (digits_acc (fst (strtol_base b s2)) 0 0 s3) = 0 then 0
      else ws + sg + snd (strtol_base b s2) + snd (digits_acc (fst (strtol_base b s2)) 0 0 s3))"
    unfolding strtol_def ws_def[symmetric] s1_def[symmetric] Let_def sg_def[symmetric] s2_def[symmetric]
    by (simp add: s3_def split: prod.splits)
  ultimately show ?thesis by simp
qed

section \<open>Parts of a line\<close>

definition env_ok :: "parse_env \<Rightarrow> bool" where
  "env_ok E \<longleftrightarrow> vector_lib (pe_ip_vec E) \<and> vector_lib (pe_net_vec E) \<and> wf_mac (pe_local_mac E)
     \<and> fmt_uint_decimal (pe_fmt E) \<and> \<not> pe_testsuite E"

definition default_ok :: "Arguments \<Rightarrow> bool" where
  "default_ok a \<longleftrightarrow> tm_type (a_mac a) = mcRANDOM \<or> tm_type (a_mac a) = mcFIXED \<and> wf_mac (tm_ether (a_mac a))"

text \<open>A step only adds well-formed entries to the list.\<close>

definition grows :: "BlackList \<Rightarrow> BlackList \<Rightarrow> bool" where
  "grows lst lst' \<longleftrightarrow> bl_args lst' = bl_args lst \<and> bl_last_mtime lst' = bl_last_mtime lst
     \<and> (\<exists>is ns. bl_ip_list lst' = bl_ip_list lst @ is \<and> bl_net_list lst' = bl_net_list lst @ ns
             \<and> (\<forall>d\<in>set is. base_wf (ip_v d)) \<and> (\<forall>d\<in>set ns. net_wf d))"

lemma grows_refl [simp]: "grows lst lst"
  by (simp add: grows_def)

lemma grows_trans: "grows a b \<Longrightarrow> grows b c \<Longrightarrow> grows a c"
  unfolding grows_def by (auto simp: ball_Un)

lemma grows_args: "grows a b \<Longrightarrow> bl_args b = bl_args a"
  by (simp add: grows_def)

lemma grows_wf: "grows a b \<Longrightarrow> bl_wf a \<Longrightarrow> bl_wf b"
  by (auto simp: grows_def bl_wf_def)

text \<open>A line step: what it may do to the buffer and to the list.\<close>

definition line_post :: "nat \<Rightarrow> BlackList \<Rightarrow> string \<Rightarrow> BlackList \<times> string \<times> bool \<times> writes \<Rightarrow> bool" where
  "line_post e lst buf = (\<lambda>(lst', buf', ok, w). line_upd e buf buf' \<and> grows lst lst')"

lemma line_postI: "line_upd e buf buf' \<Longrightarrow> grows lst lst' \<Longrightarrow> line_post e lst buf (lst', buf', ok, w)"
  by (simp add: line_post_def)

lemma line_post_upd: "line_post e lst buf' r \<Longrightarrow> line_upd e buf buf' \<Longrightarrow> line_post e lst buf r"
  by (auto simp: line_post_def intro: line_upd_trans)

lemma line_buf_bounds: "line_buf buf e \<Longrightarrow> i \<le> e \<Longrightarrow> i < length buf"
  by (simp add: line_buf_def)

lemma line_buf_less: "line_buf buf e \<Longrightarrow> i \<le> e \<Longrightarrow> buf ! i \<noteq> NUL \<Longrightarrow> i < e"
  by (auto simp: line_buf_def le_less)

lemma scan_token_spec:
  assumes "line_buf buf e" "pos \<le> e" "set d \<subseteq> delims"
  shows "specR {} (scan_token d buf pos e)
     (\<lambda>(buf', k, hit). line_upd e buf buf' \<and> line_buf buf' e \<and> pos \<le> k \<and> k \<le> e \<and> (hit \<noteq> None \<longrightarrow> k < e))"
proof -
  obtain k hit where s: "scan_token d buf pos e = Inr (if hit = None then buf else buf[k := NUL], k, hit)"
      "token_end d buf pos e k hit"
    using scan_token_ok[of pos e buf d] assms by (auto simp: line_buf_def)
  moreover have "line_upd e buf (if hit = None then buf else buf[k := NUL])"
    using s(2) assms(3) by (auto simp: token_end_def intro!: line_upd_poke)
  ultimately show ?thesis
    using line_upd_buf[OF _ assms(1)] by (auto simp: token_end_def)
qed

lemma parseNetMask_spec:
  assumes "line_buf buf e" "start \<le> e"
  shows "specR {} (BlackList_parseNetMask E buf start nr)
     (\<lambda>(buf', start', m, w). line_upd e buf buf' \<and> line_buf buf' e \<and> start' \<le> e)"
proof -
  obtain v n where v: "strtol 0 (cstr buf start) = (v, n)" by fastforce
  have n: "start + n \<le> e" using line_buf_cstr[OF assms] strtol_len[of 0 "cstr buf start"] v by simp
  have e: "e < length buf" "buf ! e = NUL" using assms(1) by (auto simp: line_buf_def)
  show ?thesis
  proof (cases "mask_end (buf ! (start + n))")
    case True
    then show ?thesis using v n e assms by (simp add: BlackList_parseNetMask_def)
  next
    case False
    obtain k where k: "scan_while (\<lambda>c. \<not> mask_end c) buf (start + n) = Inr k" "start + n \<le> k" "k \<le> e" "mask_end (buf ! k)"
      using scan_while_ok[OF n e(1), of "\<lambda>c. \<not> mask_end c"] e(2) by (auto simp: mask_end_def)
    have l: "line_buf (buf[k := NUL]) e" by (rule line_buf_update[OF assms(1)])
    have u: "line_upd e buf (buf[k := NUL])"
    proof (cases "buf ! k = NUL")
      case True
      then have "buf[k := NUL] = buf" by (metis list_update_id)
      then show ?thesis by simp
    next
      case False
      then have "k < e" "buf ! k \<in> delims"
        using k(3,4) line_buf_less[OF assms(1)] by (auto simp: mask_end_def delims_def)
      then show ?thesis by (rule line_upd_poke)
    qed
    show ?thesis
      using v n k e u assms l False
      by (auto simp: BlackList_parseNetMask_def split: option.split)
  qed
qed

lemma parseMac_spec:
  assumes "line_buf buf e" "start \<le> e" "wf_mac (pe_local_mac E)"
  shows "specR {} (BlackList_parseMac E buf start nr) (\<lambda>(m, w). \<forall>a. m = Some a \<longrightarrow> wf_mac a)"
  using assms xether_aton_r_wf[OF assms(3), of "cstr buf start"]
  by (auto simp: BlackList_parseMac_def split: prod.splits)

definition atmac_post :: "nat \<Rightarrow> string \<Rightarrow> string \<times> nat \<times> AtMac option \<times> writes \<Rightarrow> bool" where
  "atmac_post e buf = (\<lambda>(buf', start', m, w). line_upd e buf buf' \<and> line_buf buf' e \<and> start' \<le> e
     \<and> (\<forall>a. m = Some a \<longrightarrow> wf_mac (am_mac a) \<and> am_status a \<noteq> amNONE))"

lemma parse_atmac_mac_spec:
  assumes "line_buf buf e" "start \<le> e" "wf_mac (pe_local_mac E)" "status \<noteq> amNONE"
  shows "specR {} (parse_atmac_mac E status buf start e nr) (atmac_post e buf)"
  unfolding parse_atmac_mac_def specR_simps atmac_post_def
  by (rule specR_conseq[OF scan_token_spec[OF assms(1,2)]], simp add: delims_def, simp, clarify, unfold specR_simps,
      rule specR_conseq[OF parseMac_spec[OF _ assms(2,3)]]) (auto split: option.split simp: assms)

lemma parse_atmac_spec:
  assumes "line_buf buf e" "start \<le> e" "wf_mac (pe_local_mac E)"
  shows "specR {} (parse_atmac E buf start e nr) (atmac_post e buf)"
  using line_buf_bounds[OF assms(1,2)] line_buf_less[OF assms(1,2)] assms
  by (auto simp: parse_atmac_def intro!: parse_atmac_mac_spec)

lemma setDefaultMac_spec:
  assumes "default_ok (bl_args lst)"
  shows "specR {} (BlackList_setDefaultMac lst m)
     (\<lambda>(status, mac). status \<noteq> blUNDECIDED \<and> (status = blSET \<longrightarrow> wf_mac mac))"
  using assms by (auto simp: BlackList_setDefaultMac_def default_ok_def)

lemma parse_mac_word_spec:
  assumes "line_buf buf e" "start \<le> e" "wf_mac (pe_local_mac E)"
  shows "specR {} (parse_mac_word E ignore buf start e nr)
     (\<lambda>(buf', sm, w). line_upd e buf buf'
        \<and> (\<forall>s m. sm = Some (s, m) \<longrightarrow> s \<noteq> blUNDECIDED \<and> (s = blSET \<longrightarrow> wf_mac m)))"
  unfolding parse_mac_word_def specR_simps
  by (rule specR_conseq[OF scan_token_spec[OF assms(1,2)]], simp add: delims_def, simp, clarify)
    (auto simp: assms(2) intro!: specR_conseq[OF parseMac_spec[OF _ assms(2,3)]])

lemma parse_mac_part_spec:
  assumes "line_buf buf e" "start \<le> e" "wf_mac (pe_local_mac E)" "default_ok (bl_args lst)"
  shows "specR {} (parse_mac_part E lst ignore buf start e nr)
     (\<lambda>(buf', sm, w). line_upd e buf buf'
        \<and> (\<forall>s m. sm = Some (s, m) \<longrightarrow> s \<noteq> blUNDECIDED \<and> (s = blSET \<longrightarrow> wf_mac m)))"
  using line_buf_bounds[OF assms(1,2)] assms parse_mac_word_spec[OF assms(1-3), of ignore nr]
  by (auto simp: parse_mac_part_def intro!: specR_conseq[OF setDefaultMac_spec[OF assms(4)]])

lemma parse_push_grows:
  assumes "env_ok E" "wf_mac (am_mac atmac)" "status \<noteq> blUNDECIDED" "status = blSET \<longrightarrow> wf_mac mac"
    "ignore_ip \<longrightarrow> am_status atmac = amPOSITIVE"
  shows "grows lst (parse_push E lst has_mask ignore_ip ip m atmac status mac)"
proof -
  have "ds[i := d] = bl_ip_list lst @ [d]" if "Vector_pushback (pe_ip_vec E) (bl_ip_list lst) = (ds, i)" for ds i d
    using assms(1) vector_lib.append_element[OF _ that] by (simp add: env_ok_def)
  moreover have "ds[i := d] = bl_net_list lst @ [d]" if "Vector_pushback (pe_net_vec E) (bl_net_list lst) = (ds, i)" for ds i d
    using assms(1) vector_lib.append_element[OF _ that] by (simp add: env_ok_def)
  ultimately show ?thesis
    using assms(2-5)
    by (auto simp: parse_push_def push_ip_def push_net_def grows_def base_wf_def net_wf_def Let_def
        and.assoc split: prod.splits)
qed

lemma ignoreWhitespace_spec:
  assumes "line_buf buf e" "i \<le> e"
  shows "specR {} (BlackList_ignoreWhitespace buf i) (\<lambda>k. i \<le> k \<and> k \<le> e)"
  using scan_while_ok[of i e buf blank] assms
  by (auto simp: BlackList_ignoreWhitespace_def line_buf_def blank_def)

lemma parse_tail_spec:
  assumes "line_buf buf e" "start \<le> e" "env_ok E" "default_ok (bl_args lst)" "wf_mac (am_mac atmac)"
    "ignore_ip \<longrightarrow> am_status atmac \<noteq> amNONE"
  shows "specR {} (parse_tail E lst ignore has_mask ignore_ip ip m atmac buf start e nr) (line_post e lst buf)"
proof (cases "ignore_ip \<and> am_status atmac = amNEGATIVE")
  case True
  then show ?thesis by (simp add: parse_tail_def line_postI)
next
  case False
  then have "ignore_ip \<longrightarrow> am_status atmac = amPOSITIVE" using assms(6) by (cases "am_status atmac") auto
  note g = parse_push_grows[OF assms(3,5) _ _ this]
  have w: "wf_mac (pe_local_mac E)" using assms(3) by (simp add: env_ok_def)
  have "specR {} (parse_mac_part E lst ignore buf k e nr) (\<lambda>(buf', sm, w). specR {} (case sm of
            None \<Rightarrow> Inr (lst, buf', False, w)
          | Some (status, mac) \<Rightarrow>
              Inr (parse_push E lst has_mask ignore_ip ip m atmac status mac, buf', True, w)) (line_post e lst buf))"
    if "k \<le> e" for k
    by (rule specR_conseq[OF parse_mac_part_spec[OF assms(1) that w assms(4)]])
      (auto split: option.split intro!: line_postI g)
  then show ?thesis
    using False assms(2) unfolding parse_tail_def
    by (auto simp: case_prod_unfold intro!: specR_conseq[OF ignoreWhitespace_spec[OF assms(1,2)]])
qed

lemma parse_from_at_spec:
  assumes "line_buf buf e" "start \<le> e" "env_ok E" "default_ok (bl_args lst)"
  shows "specR {} (parse_from_at E lst ignore has_mask has_atmac ignore_ip ip m buf start e nr) (line_post e lst buf)"
proof -
  have w: "wf_mac (pe_local_mac E)" using assms(3) by (simp add: env_ok_def)
  have "specR {} (parse_atmac E buf start e nr) (\<lambda>x. specR {} (case x of (buf, start, am, w) \<Rightarrow> case am of
             None \<Rightarrow> Inr (lst, buf, False, w)
           | Some atmac \<Rightarrow> parse_tail E lst ignore has_mask ignore_ip ip m atmac buf start e nr) (line_post e lst buf))"
  proof (rule specR_conseq[OF parse_atmac_spec[OF assms(1,2) w]], simp)
    fix x assume p: "atmac_post e buf x"
    obtain buf1 start1 am wr where x: "x = (buf1, start1, am, wr)" by (cases x) auto
    show "specR {} (case x of (buf, start, am, w) \<Rightarrow> case am of
             None \<Rightarrow> Inr (lst, buf, False, w)
           | Some atmac \<Rightarrow> parse_tail E lst ignore has_mask ignore_ip ip m atmac buf start e nr) (line_post e lst buf)"
    proof (cases am)
      case None
      then show ?thesis using p by (simp add: x atmac_post_def line_postI)
    next
      case (Some a)
      have "specR {} (parse_tail E lst ignore has_mask ignore_ip ip m a buf1 start1 e nr) (line_post e lst buf)"
        using p Some assms(3,4)
        by (intro specR_conseq[OF parse_tail_spec]) (auto simp: x atmac_post_def intro: line_post_upd)
      with Some show ?thesis by (simp add: x)
    qed
  qed
  then show ?thesis
    using assms parse_tail_spec[OF assms, of "\<lparr>am_mac = replicate 6 0, am_status = amNONE\<rparr>" ignore_ip]
    by (auto simp: parse_from_at_def line_postI wf_mac_def)
qed

lemma parse_rest_spec:
  assumes "line_buf buf e" "start \<le> e" "env_ok E" "default_ok (bl_args lst)"
  shows "specR {} (parse_rest E lst ignore has_mask has_atmac ignore_ip ip m buf start e nr) (line_post e lst buf)"
  using line_buf_bounds[OF assms(1,2)] line_buf_less[OF assms(1,2)] assms
  by (auto simp: parse_rest_def intro!: parse_from_at_spec)

definition mask_post :: "nat \<Rightarrow> string \<Rightarrow> string \<times> nat \<times> in_addr option \<times> writes \<Rightarrow> bool" where
  "mask_post e buf = (\<lambda>(buf', start', m, w). line_upd e buf buf' \<and> line_buf buf' e \<and> start' \<le> e)"

lemma parse_mask_part_spec:
  assumes "line_buf buf e" "start \<le> e" "env_ok E" "default_ok (bl_args lst)"
  shows "specR {} (parse_mask_part E lst ignore has_mask has_atmac ignore_ip ip buf start e nr) (line_post e lst buf)"
proof -
  have "specR {} (BlackList_parseNetMask E buf start nr) (\<lambda>x. specR {} (case x of (buf, start, parsed, w) \<Rightarrow> case parsed of
          None \<Rightarrow> Inr (lst, buf, False, w)
        | Some m \<Rightarrow> parse_rest E lst ignore has_mask has_atmac ignore_ip ip m buf start e nr) (line_post e lst buf))"
  proof (rule specR_conseq[OF parseNetMask_spec[OF assms(1,2), folded mask_post_def]], simp)
    fix x assume p: "mask_post e buf x"
    obtain buf1 start1 am wr where x: "x = (buf1, start1, am, wr)" by (cases x) auto
    show "specR {} (case x of (buf, start, parsed, w) \<Rightarrow> case parsed of
          None \<Rightarrow> Inr (lst, buf, False, w)
        | Some m \<Rightarrow> parse_rest E lst ignore has_mask has_atmac ignore_ip ip m buf start e nr) (line_post e lst buf)"
    proof (cases am)
      case None
      then show ?thesis using p by (simp add: x mask_post_def line_postI)
    next
      case (Some m)
      have "specR {} (parse_rest E lst ignore has_mask has_atmac ignore_ip ip m buf1 start1 e nr) (line_post e lst buf)"
        using p Some assms(3,4)
        by (intro specR_conseq[OF parse_rest_spec]) (auto simp: x mask_post_def intro: line_post_upd)
      with Some show ?thesis by (simp add: x)
    qed
  qed
  then show ?thesis
    using parse_rest_spec[OF assms] by (auto simp: parse_mask_part_def line_postI)
qed

lemma parse_host_spec:
  assumes "line_buf buf e" "start \<le> e" "env_ok E" "default_ok (bl_args lst)"
  shows "specR {} (parse_host E lst ignore buf start e nr) (line_post e lst buf)"
  unfolding parse_host_def specR_simps
proof (rule specR_conseq[OF scan_token_spec[OF assms(1,2)]], simp add: delims_def, simp, clarify)
  fix buf1 pos hit
  assume p: "line_upd e buf buf1" "line_buf buf1 e" "start \<le> pos" "pos \<le> e"
  have "specR {} (parse_mask_part E lst ignore hm ha ii ip buf1 (if pos < e then pos + 1 else pos) e nr) (line_post e lst buf)"
    for hm ha ii ip
    using p assms(3,4) by (intro specR_conseq[OF parse_mask_part_spec]) (auto intro: line_post_upd)
  then show "specR {} (bindR (cstrR buf1 start) (\<lambda>host. let ignore_ip = (host = ''*'') in
     case (if ignore_ip then Some 0 else inet_aton host) of
       None \<Rightarrow> Inr (lst, buf1, False, writeUInt (pe_fmt E) 2 nr
                  @ Vwrite 2 ('': invalid ip '' @ [QT]) @ Vwrite 2 host @ Vwrite 2 [QT, NL])
     | Some ip \<Rightarrow>
       if ignore_ip \<and> ignore
       then Inr (lst, buf1, False, writeUInt (pe_fmt E) 2 nr
              @ Vwrite 2 ('': can not use '' @ [QT] @ ''!'' @ [QT] @ '' with '' @ [QT] @ ''*'' @ [QT]))
       else parse_mask_part E lst ignore (hit = Some (CHR ''/'')) (hit = Some (CHR ''@'')) ignore_ip ip buf1
              (if pos < e then pos + 1 else pos) e nr)) (line_post e lst buf)"
    using p assms(2) by (auto simp: Let_def line_postI simp del: specR_if split: option.split if_splits)
qed

lemma parseLine_spec:
  assumes "line_buf buf e" "env_ok E" "default_ok (bl_args lst)"
  shows "specR {} (BlackList_parseLine E lst buf e nr) (line_post e lst buf)"
  unfolding BlackList_parseLine_def specR_simps
proof (rule specR_conseq[OF ignoreWhitespace_spec[OF assms(1), of 0]], simp, simp)
  fix k assume k: "0 \<le> k \<and> k \<le> e"
  then show "specR {} (if k = e then Inr (lst, buf, False, [])
     else bindR (readR buf k) (\<lambda>c.
     if c = CHR ''#'' then Inr (lst, buf, False, [])
     else if c = CHR ''!'' then parse_host E lst True buf (k + 1) e nr
     else parse_host E lst False buf k e nr)) (line_post e lst buf)"
    using line_buf_bounds[OF assms(1), of k] line_buf_less[OF assms(1), of k] assms
    by (auto simp: line_postI intro!: parse_host_spec)
qed

section \<open>Numbers in ranges\<close>

lemma digits_acc_bound:
  "digits_acc 10 a n s = (v, m) \<Longrightarrow> n \<le> m \<and> v < (a + 1) * 10 ^ (m - n)"
proof (induction s arbitrary: a n)
  case (Cons c s)
  show ?case
  proof (cases "digit_in 10 c")
    case None
    then show ?thesis using Cons.prems by auto
  next
    case (Some d)
    have "d < 10" using Some by (auto simp: digit_in_def Let_def split: if_splits)
    from Some Cons.prems have "digits_acc 10 (a * 10 + d) (Suc n) s = (v, m)" by simp
    from Cons.IH[OF this] have "Suc n \<le> m" "v < (a * 10 + d + 1) * 10 ^ (m - Suc n)" by auto
    moreover have "(a * 10 + d + 1) * 10 ^ (m - Suc n) \<le> ((a + 1) * 10) * 10 ^ (m - Suc n)"
      using \<open>d < 10\<close> by (intro mult_right_mono) auto
    moreover have "10 * 10 ^ (m - Suc n) = (10::nat) ^ (m - n)"
      using \<open>Suc n \<le> m\<close> by (simp add: Suc_diff_Suc flip: power_Suc)
    then have "(a + 1) * 10 * 10 ^ (m - Suc n) = (a + 1) * 10 ^ (m - n)" by (simp only: mult.assoc)
    ultimately show ?thesis by linarith
  qed
qed auto

lemma length_dec_bound: "x < 10 ^ k \<Longrightarrow> 0 < k \<Longrightarrow> length (dec x) \<le> k"
proof (induction x arbitrary: k rule: dec.induct)
  case (1 x)
  show ?case
  proof (cases "x < 10")
    case True
    then show ?thesis using 1(3) by (simp add: dec.simps[of x])
  next
    case False
    then obtain j where j: "k = Suc j" "0 < j" using 1(2,3) by (cases k; cases "k - 1") auto
    then have "x div 10 < 10 ^ j" using 1(2) by (simp add: div_less_iff_less_mult mult.commute)
    with 1(1)[OF False] j False show ?thesis by (simp add: dec.simps[of x])
  qed
qed

lemma length_dec_mono: "m \<le> n \<Longrightarrow> length (dec m) \<le> length (dec n)"
proof (induction n arbitrary: m rule: dec.induct)
  case (1 n)
  show ?case
  proof (cases "m < 10")
    case True
    then show ?thesis using dec_not_Nil[of n] by (simp add: dec.simps[of m] Suc_le_eq)
  next
    case False
    with 1(2) have "\<not> n < 10" by simp
    with 1(1)[OF this, of "m div 10"] 1(2) False show ?thesis
      by (simp add: dec.simps[of m] dec.simps[of n] div_le_mono)
  qed
qed

lemma to_int32_le_abs: "0 \<le> to_int32 v \<Longrightarrow> to_int32 v \<le> \<bar>v\<bar>"
proof -
  assume nn: "0 \<le> to_int32 v"
  have lt: "to_int32 v < 2 ^ 31" by (simp add: to_int32_def)
  show ?thesis
  proof (cases "- (2 ^ 31) \<le> v \<and> v < 2 ^ 31")
    case True
    then have "to_int32 v = v" by (simp add: to_int32_def)
    then show ?thesis by simp
  next
    case False
    then show ?thesis using lt by auto
  qed
qed

lemma to_int32_less: "to_int32 v < 2 ^ 31"
  by (simp add: to_int32_def)

lemma strtol_dec_length:
  assumes "strtol 10 s = (v, n)" "0 \<le> to_int32 v"
  shows "length (dec (nat (to_int32 v))) \<le> max 1 n"
proof (cases "n = 0")
  case True
  then have "v = 0" using assms(1) by (auto simp: strtol_def Let_def split: if_splits prod.splits)
  then show ?thesis by (simp add: to_int32_def dec.simps)
next
  case False
  define ws where "ws = length (takeWhile isspace s)"
  define s1 where "s1 = drop ws s"
  define sg where "sg = (if s1 \<noteq> [] \<and> (hd s1 = CHR ''-'' \<or> hd s1 = CHR ''+'') then 1 else (0::nat))"
  define s2 where "s2 = drop sg s1"
  obtain x k where xk: "digits_acc 10 0 0 s2 = (x, k)" by fastforce
  have b: "strtol_base 10 s2 = (10, 0)" by (simp add: strtol_base_def)
  have vn: "k \<noteq> 0" "n = ws + sg + k" "v = long_clamp (int x) \<or> v = long_clamp (- int x)"
    using assms(1) False
    unfolding strtol_def ws_def[symmetric] s1_def[symmetric] Let_def sg_def[symmetric] s2_def[symmetric] b
    by (auto simp: xk split: if_splits)
  have "x < 10 ^ k" using digits_acc_bound[OF xk] by simp
  moreover have "\<bar>v\<bar> \<le> int x" using vn(3) by (auto simp: long_clamp_def)
  then have "nat (to_int32 v) \<le> x" using to_int32_le_abs[OF assms(2)] by linarith
  ultimately have "length (dec (nat (to_int32 v))) \<le> k"
    using vn(1) by (intro length_dec_bound) (rule le_less_trans, auto)
  then show ?thesis using vn(2) by simp
qed

section \<open>Expansion\<close>

definition nobrace :: "nat \<Rightarrow> string \<Rightarrow> bool" where
  "nobrace n s \<longleftrightarrow> CHR ''{'' \<notin> set (take n s)"

lemma nobrace_upd: "line_upd e s s' \<Longrightarrow> nobrace n s \<Longrightarrow> n \<le> length s \<Longrightarrow> nobrace n s'"
proof -
  assume u: "line_upd e s s'" and n: "nobrace n s" "n \<le> length s"
  have "s' ! i \<noteq> CHR ''{''" if "i < n" for i
  proof -
    have "s ! i \<in> set (take n s)" using that n(2) by (auto simp: in_set_conv_nth)
    then have "s ! i \<noteq> CHR ''{''" using n(1) by (auto simp: nobrace_def)
    moreover have "s' ! i = s ! i \<or> s' ! i = NUL"
      using u that n(2) unfolding line_upd_def by (metis order_less_le_trans)
    ultimately show ?thesis by auto
  qed
  then show "nobrace n s'" using u n(2) by (auto simp: nobrace_def in_set_conv_nth line_upd_def)
qed

definition brace_scan :: "string \<Rightarrow> nat \<Rightarrow> nat option \<Rightarrow> range_type \<Rightarrow> bool" where
  "brace_scan buf i rs rt \<longleftrightarrow> (case rs of
       None \<Rightarrow> \<forall>m<i. buf ! m \<noteq> CHR ''{''
     | Some s \<Rightarrow> s < i \<and> buf ! s = CHR ''{'' \<and> (\<forall>m<i. m \<noteq> s \<longrightarrow> buf ! m \<noteq> CHR ''{'')
               \<and> (rt \<noteq> rgUNDECIDED \<longrightarrow> Suc s < i))"

lemma brace_scan_step: "brace_scan buf i rs rt \<Longrightarrow> buf ! i \<noteq> CHR ''{'' \<Longrightarrow> brace_scan buf (Suc i) rs rt'"
  by (auto simp: brace_scan_def less_Suc_eq split: option.splits)

lemma brace_scan_open: "brace_scan buf i None rt \<Longrightarrow> buf ! i = CHR ''{'' \<Longrightarrow> brace_scan buf (Suc i) (Some i) rgUNDECIDED"
  by (auto simp: brace_scan_def less_Suc_eq)

definition scan_post :: "string \<Rightarrow> nat \<Rightarrow> line_scan \<Rightarrow> bool" where
  "scan_post buf e sc \<longleftrightarrow>
     (\<forall>s r t. sc = ScanRange s r t \<longrightarrow> s < r \<and> r < e \<and> buf ! r = CHR ''}'' \<and> brace_scan buf r (Some s) t)"

lemma scan_post_simps [simp]: "scan_post buf e (ScanError msg)" "scan_post buf e (ScanEnd b)"
  by (simp_all add: scan_post_def)

lemma expand_scan_spec:
  assumes "e < length buf" "brace_scan buf i rs rt"
  shows "specR {} (expand_scan buf i e rs rt) (scan_post buf e)"
  using assms
proof (induction buf i e rs rt rule: expand_scan.induct)
  case (1 buf i e rs rt)
  let ?c = "buf ! i"
  show ?case
  proof (cases "i < e")
    case True
    then have r: "readR buf i = Inr ?c" using 1(4) by simp
    consider (comment) "?c = CHR ''#''" | (lbrace) "?c = CHR ''{''" | (rbrace) "?c = CHR ''}''"
      | (mark) "?c = CHR ''-'' \<or> ?c = CHR '',''"
      | (other) "?c \<notin> {CHR ''#'', CHR ''{'', CHR ''}'', CHR ''-'', CHR '',''}" by blast
    then show ?thesis
    proof cases
      case lbrace
      show ?thesis
      proof (cases rs)
        case None
        have "brace_scan buf (Suc i) (Some i) rgUNDECIDED" using brace_scan_open 1(5) None lbrace by simp
        with 1(1)[OF True, of ?c] lbrace None 1(4) True r show ?thesis
          by (subst expand_scan.simps) simp
      qed (use True r lbrace in \<open>subst expand_scan.simps, simp\<close>)
    next
      case rbrace
      then show ?thesis
        using True r 1(5) by (subst expand_scan.simps) (auto simp: scan_post_def brace_scan_def split: option.split)
    next
      case mark
      then have "brace_scan buf (Suc i) rs t" for t using brace_scan_step[OF 1(5)] by auto
      with 1(2)[OF True, of ?c] mark 1(4) True r show ?thesis
        by (subst expand_scan.simps) (auto simp: Let_def simp del: specR_if)
    next
      case other
      then have "brace_scan buf (Suc i) rs rt" using brace_scan_step[OF 1(5)] by auto
      with 1(3)[OF True, of ?c] other 1(4) True r show ?thesis
        by (subst expand_scan.simps) (auto simp del: specR_if)
    qed (use True r in \<open>subst expand_scan.simps, simp\<close>)
  qed (subst expand_scan.simps, simp)
qed

text \<open>What is required of the callback: it handles every line with less than \<open>n\<close> braces.\<close>

definition expander_ok :: "nat \<Rightarrow> Arguments \<Rightarrow> expander \<Rightarrow> bool" where
  "expander_ok n A ex \<longleftrightarrow> (\<forall>lst buf e. bl_args lst = A \<longrightarrow> line_buf buf e
     \<longrightarrow> count_list (take e buf) (CHR ''{'') < n \<longrightarrow> specR {SignedOverflow} (ex lst buf e) (line_post e lst buf))"

definition item_post :: "nat \<Rightarrow> nat \<Rightarrow> BlackList \<Rightarrow> BlackList \<times> string \<times> bool \<times> writes \<Rightarrow> bool" where
  "item_post N p lst = (\<lambda>(lst', nb, ok, w). length nb = N \<and> nobrace p nb \<and> grows lst lst')"

lemma item_postI: "length nb = N \<Longrightarrow> nobrace p nb \<Longrightarrow> grows lst lst' \<Longrightarrow> item_post N p lst (lst', nb, ok, w)"
  by (simp add: item_post_def)

lemma item_post_grows: "grows lst lst' \<Longrightarrow> item_post N p lst' x \<Longrightarrow> item_post N p lst x"
  by (auto simp: item_post_def intro: grows_trans)

definition item_line :: "nat \<Rightarrow> string \<Rightarrow> string \<Rightarrow> string \<Rightarrow> string" where
  "item_line p postfix nb item =
     take p nb @ item @ postfix @ NUL # drop (Suc (p + length item + length postfix)) nb"

lemma expand_item_eq:
  assumes "p + length item + length postfix < length nb"
  shows "expand_item ex p postfix lst nb item =
     ex lst (item_line p postfix nb item) (p + length item + length postfix)"
proof -
  have "memcpyR nb p item = Inr (take p nb @ item @ drop (p + length item) nb)"
    using assms by (simp add: memcpyR_def)
  moreover have "memcpyR (take p nb @ item @ drop (p + length item) nb) (p + length item) postfix
      = Inr (take p nb @ item @ postfix @ drop (p + length item + length postfix) nb)"
    using assms by (simp add: memcpyR_def add.commute add.left_commute)
  moreover have "pokeR (take p nb @ item @ postfix @ drop (p + length item + length postfix) nb) (p + length item + length postfix) NUL
      = Inr (item_line p postfix nb item)"
    using assms
    by (simp add: item_line_def list_update_append min_def Cons_nth_drop_Suc[symmetric])
  ultimately show ?thesis by (simp add: expand_item_def Let_def)
qed

lemma length_item_line: "p + length item + length postfix < length nb \<Longrightarrow> length (item_line p postfix nb item) = length nb"
  by (simp add: item_line_def)

lemma item_line_buf:
  assumes "p + length item + length postfix < length nb"
  shows "line_buf (item_line p postfix nb item) (p + length item + length postfix)"
    "take (p + length item + length postfix) (item_line p postfix nb item) = take p nb @ item @ postfix"
    "take p (item_line p postfix nb item) = take p nb"
  using assms by (simp_all add: line_buf_def item_line_def nth_append min_def)

lemma expand_item_spec:
  assumes "expander_ok n A ex" "bl_args lst = A" "p + length item + length postfix < length nb"
    "nobrace p nb" "CHR ''{'' \<notin> set item" "count_list postfix (CHR ''{'') < n"
  shows "specR {SignedOverflow} (expand_item ex p postfix lst nb item) (item_post (length nb) p lst)"
proof -
  let ?b = "item_line p postfix nb item" and ?e = "p + length item + length postfix"
  have "count_list (take p nb) (CHR ''{'') = 0" "count_list item (CHR ''{'') = 0"
    using assms(4,5) by (simp_all add: nobrace_def count_list_0_iff)
  then have "count_list (take ?e ?b) (CHR ''{'') < n"
    using assms(6) by (simp add: item_line_buf(2)[OF assms(3)])
  then have "specR {SignedOverflow} (ex lst ?b ?e) (line_post ?e lst ?b)"
    using assms(1,2) item_line_buf(1)[OF assms(3)] unfolding expander_ok_def by blast
  moreover have "item_post (length nb) p lst x" if "line_post ?e lst ?b x" for x
  proof -
    obtain lst' nb' ok w where x: "x = (lst', nb', ok, w)" by (cases x) auto
    have "nobrace p ?b" using assms(4) by (simp add: nobrace_def item_line_buf(3)[OF assms(3)])
    then show ?thesis
      using that nobrace_upd[of ?e ?b nb' p] assms(3) length_item_line[OF assms(3)]
      by (auto simp: x line_post_def item_post_def line_upd_def)
  qed
  ultimately show ?thesis
    unfolding expand_item_eq[OF assms(3)] by (auto intro: specR_conseq)
qed

text \<open>One item of a list, and the items behind it.\<close>

lemma item_then_rest:
  assumes "specR {SignedOverflow} (expand_item ex p postfix lst nb item) (item_post n p lst)"
    and rest: "\<And>lst1 nb1 w. item_post n p lst (lst1, nb1, True, w) \<Longrightarrow> specR {SignedOverflow} (rest lst1 nb1) (item_post (length nb1) p lst1)"
  shows "specR {SignedOverflow} (expand_item ex p postfix lst nb item)
       (\<lambda>(lst1, nb1, ok, w). specR {SignedOverflow} (if \<not> ok then Inr (lst1, nb1, False, w)
          else bindR (rest lst1 nb1) (\<lambda>(lst, nb, ok, w'). Inr (lst, nb, ok, w @ w'))) (item_post n p lst))"
proof (rule specR_conseq[OF assms(1)], simp, clarify)
  fix lst1 nb1 ok w assume p1: "item_post n p lst (lst1, nb1, ok, w)"
  then have tr: "grows lst1 a \<Longrightarrow> grows lst a" for a using grows_trans[of lst lst1 a] by (simp add: item_post_def)
  have "specR {SignedOverflow} (rest lst1 nb1) (item_post (length nb1) p lst1)" if ok using rest[of lst1 nb1 w] p1 that by simp
  then show "specR {SignedOverflow} (if \<not> ok then Inr (lst1, nb1, False, w)
        else bindR (rest lst1 nb1) (\<lambda>(lst, nb, ok, w'). Inr (lst, nb, ok, w @ w'))) (item_post n p lst)"
    using p1 tr by (auto simp: item_post_def elim!: specR_conseq)
qed

lemma no_brace_in_item:
  assumes "list_start \<le> ptr" "ptr \<le> list_end" "list_end < length src" "\<forall>m. list_start \<le> m \<and> m < list_end \<longrightarrow> src ! m \<noteq> CHR ''{''"
  shows "CHR ''{'' \<notin> set (take (ptr - list_start) (drop list_start src))"
proof
  assume "CHR ''{'' \<in> set (take (ptr - list_start) (drop list_start src))"
  then obtain j where "j < ptr - list_start" "src ! (list_start + j) = CHR ''{''"
    using assms(1-3) by (auto simp: in_set_conv_nth)
  then show False using assms(4,2) by (metis add.commute le_add1 less_diff_conv order_less_le_trans)
qed

lemma iterateList_spec:
  assumes "expander_ok n A ex" "bl_args lst = A" "list_start \<le> ptr" "list_end < length src"
    "p + (list_end - list_start) + length postfix < length nb"
    "nobrace p nb" "\<forall>m. list_start \<le> m \<and> m < list_end \<longrightarrow> src ! m \<noteq> CHR ''{''" "count_list postfix (CHR ''{'') < n"
  shows "specR {SignedOverflow} (BlackList_iterateList ex p postfix src list_start list_end ptr lst nb)
           (item_post (length nb) p lst)"
  using assms
proof (induction ex p postfix src list_start list_end ptr lst nb rule: BlackList_iterateList.induct)
  case (1 ex p postfix src list_start list_end ptr lst nb)
  note prems = 1(3-10)
  show ?case
  proof (cases "ptr \<le> list_end")
    case True
    then have r: "readR src ptr = Inr (src ! ptr)" using prems(4) by simp
    show ?thesis
    proof (cases "src ! ptr = CHR '','' \<or> ptr = list_end")
      case hit: True
      let ?item = "take (ptr - list_start) (drop list_start src)"
      have sl: "sliceR src list_start (ptr - list_start) = Inr ?item"
        using True prems(3,4) by (simp add: sliceR_def)
      have "specR {SignedOverflow} (expand_item ex p postfix lst nb ?item) (item_post (length nb) p lst)"
        using prems True no_brace_in_item[OF prems(3) True prems(4,7)] by (intro expand_item_spec[OF prems(1,2) _ prems(6) _ prems(8)]) simp_all
      then have "specR {SignedOverflow} (expand_item ex p postfix lst nb ?item)
         (\<lambda>(lst1, nb1, ok, w). specR {SignedOverflow} (if \<not> ok then Inr (lst1, nb1, False, w)
            else bindR (BlackList_iterateList ex p postfix src (Suc ptr) list_end (Suc ptr) lst1 nb1)
                 (\<lambda>(lst, nb, ok, w'). Inr (lst, nb, ok, w @ w'))) (item_post (length nb) p lst))"
      proof (rule item_then_rest)
        fix lst1 nb1 w assume "item_post (length nb) p lst (lst1, nb1, True, w)"
        then show "specR {SignedOverflow} (BlackList_iterateList ex p postfix src (Suc ptr) list_end (Suc ptr) lst1 nb1)
               (item_post (length nb1) p lst1)"
          using hit sl prems True
          by (intro 1(1)[where x = "src ! ptr" and xd = True and xb = lst1 and xc = nb1])
             (auto simp: item_post_def grows_args)
      qed
      then show ?thesis
        using True r hit sl by (subst BlackList_iterateList.simps) (auto simp: case_prod_unfold simp del: specR_if)
    next
      case False
      have "specR {SignedOverflow} (BlackList_iterateList ex p postfix src list_start list_end (Suc ptr) lst nb) (item_post (length nb) p lst)"
        using prems True False by (intro 1(2)[OF True, of "src ! ptr"]) auto
      then show ?thesis using True r False by (subst BlackList_iterateList.simps) simp
    qed
  next
    case False
    then show ?thesis using prems(6) by (subst BlackList_iterateList.simps) (simp add: item_postI)
  qed
qed

lemma dec_no_brace: "CHR ''{'' \<notin> set (dec n)"
  using dec_digits[of "CHR ''{''" n] by (auto simp: isdigit_def)

lemma range_loop_spec:
  assumes "expander_ok n A ex" "bl_args lst = A" "0 \<le> start" "end < 2 ^ 31" "fmt_uint_decimal (pe_fmt E)"
    "p + length (dec (nat end)) + length postfix < length nb" "nobrace p nb" "count_list postfix (CHR ''{'') < n"
  shows "specR {SignedOverflow} (range_loop E ex p postfix start end lst nb) (item_post (length nb) p lst)"
  using assms
proof (induction E ex p postfix start "end" lst nb rule: range_loop.induct)
  case (1 E ex p postfix start "end" lst nb)
  note prems = 1(2-9)
  show ?case
  proof (cases "start \<le> end")
    case True
    have d: "fmt_uint (pe_fmt E) (nat start) = dec (nat start)"
      using prems(3,4,5) True by (auto simp: fmt_uint_decimal_def)
    have "length (dec (nat start)) \<le> length (dec (nat end))" using True by (intro length_dec_mono) simp
    then have it: "specR {SignedOverflow} (expand_item ex p postfix lst nb (fmt_uint (pe_fmt E) (nat start))) (item_post (length nb) p lst)"
      unfolding d using prems by (intro expand_item_spec[OF prems(1,2) _ prems(7) dec_no_brace prems(8)]) simp
    show ?thesis
      unfolding range_loop.simps[of E ex p postfix start "end" lst nb] if_P[OF True] specR_simps
    proof (rule specR_conseq[OF item_then_rest[OF it], of "\<lambda>lst1 nb1. if start = 2 ^ 31 - 1 then Inl SignedOverflow
          else range_loop E ex p postfix (start + 1) end lst1 nb1"])
      fix lst1 nb1 w assume p1: "item_post (length nb) p lst (lst1, nb1, True, w)"
      have "specR {SignedOverflow} (range_loop E ex p postfix (start + 1) end lst1 nb1) (item_post (length nb1) p lst1)"
        if "start \<noteq> 2 ^ 31 - 1"
        using p1 that prems True
        by (intro 1(1)[where x = lst1 and xa = nb1 and xb = True]) (auto simp: item_post_def grows_args)
      then show "specR {SignedOverflow} (if start = 2 ^ 31 - 1 then Inl SignedOverflow else range_loop E ex p postfix (start + 1) end lst1 nb1)
          (item_post (length nb1) p lst1)" by simp
    qed (auto split: if_splits)
  next
    case False
    then show ?thesis using prems(7) by (subst range_loop.simps) (simp add: item_postI)
  qed
qed

lemma iterateRange_spec:
  assumes "expander_ok n A ex" "bl_args lst = A" "line_buf src e" "list_start \<le> list_end" "list_end < e"
    "src ! list_end = CHR ''}''" "fmt_uint_decimal (pe_fmt E)"
    "p + (list_end - list_start) + length postfix < length nb" "list_start < list_end"
    "nobrace p nb" "count_list postfix (CHR ''{'') < n"
  shows "specR {SignedOverflow} (BlackList_iterateRange E ex p postfix src list_start list_end lst nb nr)
           (item_post (length nb) p lst)"
proof -
  obtain v1 n1 where s1: "strtol 10 (cstr src list_start) = (v1, n1)" by fastforce
  have b1: "list_start + n1 \<le> e"
    using strtol_len[of 10 "cstr src list_start"] line_buf_cstr[OF assms(3), of list_start] assms(4,5) s1 by simp
  have fail: "item_post (length nb) p lst (lst, nb, False, w)" for w using assms(10) by (simp add: item_postI)
  show ?thesis
  proof (cases "src ! (list_start + n1) = CHR ''-''")
    case False
    then show ?thesis
      using s1 b1 assms(3-5) fail line_buf_bounds[OF assms(3) b1]
      by (simp add: BlackList_iterateRange_def Let_def)
  next
    case True
    then have lt: "list_start + n1 < e" using line_buf_less[OF assms(3) b1] by simp
    obtain v2 n2 where s2: "strtol 10 (cstr src (list_start + n1 + 1)) = (v2, n2)" by fastforce
    let ?ep = "list_start + n1 + 1 + n2"
    have b2: "?ep \<le> e"
      using strtol_len[of 10 "cstr src (list_start + n1 + 1)"] line_buf_cstr[OF assms(3), of "list_start + n1 + 1"] lt s2 by simp
    have loop: "specR {SignedOverflow} (range_loop E ex p postfix (to_int32 v1) (to_int32 v2) lst nb) (item_post (length nb) p lst)"
      if "0 \<le> to_int32 v1" "0 \<le> to_int32 v2" "?ep \<le> list_end"
    proof (rule range_loop_spec[OF assms(1,2) that(1) to_int32_less assms(7) _ assms(10,11)])
      show "p + length (dec (nat (to_int32 v2))) + length postfix < length nb"
        using strtol_dec_length[OF s2 that(2)] that(3) assms(8) by simp
    qed
    show ?thesis
      using s1 s2 True b1 lt b2 assms(3-5) fail loop line_buf_bounds[OF assms(3) b1] line_buf_bounds[OF assms(3) b2]
      by (simp add: BlackList_iterateRange_def Let_def not_less)
  qed
qed

lemma count_list_le_append: "count_list ys x \<le> count_list (xs @ ys) x"
  by (induction xs) auto

lemma brace_count:
  assumes "e < length buf" "r < e" "brace_scan buf r (Some s) t"
  shows "count_list (take (e - r - 1) (drop (Suc r) buf)) (CHR ''{'') < count_list (take e buf) (CHR ''{'')"
proof -
  have "take e buf = take (Suc r) buf @ take (e - r - 1) (drop (Suc r) buf)"
    using assms(1,2) take_add[of "Suc r" "e - r - 1" buf] by simp
  moreover have "CHR ''{'' \<in> set (take (Suc r) buf)"
    using assms by (auto simp: brace_scan_def in_set_conv_nth intro!: exI[of _ s])
  then have "count_list (take (Suc r) buf) (CHR ''{'') \<noteq> 0" by (simp add: count_list_0_iff)
  ultimately show ?thesis by simp
qed

lemma expand_scanned_spec:
  fixes E s r t buf e
  defines "nb \<equiv> take s buf @ drop s (map (pe_stack E) [0..<e])"
    and "post \<equiv> take (e - Suc r) (drop (Suc r) buf)"
  assumes "env_ok E" "expander_ok fuel A ex" "bl_args lst = A" "line_buf buf e" "count_list (take e buf) (CHR ''{'') < Suc fuel"
    and "scan_post buf e (ScanRange s r t)"
  shows "length nb = e"
    and "specR {SignedOverflow} (case t of
            rgUNDECIDED \<Rightarrow> Inr (lst, nb, False, PARSE_ERRROR E nr ''can not parse range'')
          | rgLIST \<Rightarrow> BlackList_iterateList ex s post buf (Suc s) r (Suc s) lst nb
          | rgRANGE \<Rightarrow> BlackList_iterateRange E ex s post buf (Suc s) r lst nb nr)
          (item_post e s lst)"
proof -
  have e: "e < length buf" using assms(6) by (simp add: line_buf_def)
  have r: "s < r" "r < e" "buf ! r = CHR ''}''" "brace_scan buf r (Some s) t"
    using assms(8) by (auto simp: scan_post_def)
  show l: "length nb = e" using r e by (auto simp: nb_def)
  have lp: "length post = e - Suc r" using r e by (auto simp: post_def)
  have nbr: "nobrace s nb"
    using r(1,4) e r(2) by (auto simp: nb_def nobrace_def in_set_conv_nth brace_scan_def)
  have cnt: "count_list post (CHR ''{'') < fuel" unfolding post_def using brace_count[OF e r(2,4)] assms(7) by simp
  show "specR {SignedOverflow} (case t of
            rgUNDECIDED \<Rightarrow> Inr (lst, nb, False, PARSE_ERRROR E nr ''can not parse range'')
          | rgLIST \<Rightarrow> BlackList_iterateList ex s post buf (Suc s) r (Suc s) lst nb
          | rgRANGE \<Rightarrow> BlackList_iterateRange E ex s post buf (Suc s) r lst nb nr)
          (item_post e s lst)"
  proof (cases t)
    case rgUNDECIDED
    then show ?thesis using nbr by (simp add: item_postI l)
  next
    case rgLIST
    have "specR {SignedOverflow} (BlackList_iterateList ex s post buf (Suc s) r (Suc s) lst nb) (item_post (length nb) s lst)"
      using r e l lp nbr cnt by (intro iterateList_spec[OF assms(4,5)]) (auto simp: brace_scan_def)
    then show ?thesis by (simp add: rgLIST l)
  next
    case rgRANGE
    then have "Suc s < r" using r(4) by (simp add: brace_scan_def)
    then have "specR {SignedOverflow} (BlackList_iterateRange E ex s post buf (Suc s) r lst nb nr) (item_post (length nb) s lst)"
      using r e l lp nbr cnt assms(3) by (intro iterateRange_spec[OF assms(4-6)]) (auto simp: env_ok_def)
    then show ?thesis by (simp add: rgRANGE l)
  qed
qed

lemma expand_line_spec:
  assumes "env_ok E" "default_ok A"
  shows "expander_ok fuel A (expand_line fuel E nr)"
proof (induction fuel)
  case 0
  then show ?case by (simp add: expander_ok_def)
next
  case (Suc fuel)
  show ?case
    unfolding expander_ok_def
  proof (intro allI impI)
    fix lst :: BlackList and buf e
    assume a: "bl_args lst = A" "line_buf buf e" "count_list (take e buf) (CHR ''{'') < Suc fuel"
    have e: "e < length buf" using a(2) by (simp add: line_buf_def)
    have "specR {} (expand_scan buf 0 e None rgUNDECIDED) (scan_post buf e)"
      by (rule expand_scan_spec[OF e]) (simp add: brace_scan_def)
    then obtain sc where sc: "expand_scan buf 0 e None rgUNDECIDED = Inr sc" "scan_post buf e sc"
      using specR_total by blast
    show "specR {SignedOverflow} (expand_line (Suc fuel) E nr lst buf e) (line_post e lst buf)"
    proof (cases sc)
      case (ScanError msg)
      then show ?thesis by (simp add: sc line_postI)
    next
      case (ScanEnd b)
      have "specR {SignedOverflow} (BlackList_parseLine E lst buf e nr) (line_post e lst buf)"
        using parseLine_spec[OF a(2) assms(1)] assms(2) a(1) by (auto intro: specR_conseq)
      then show ?thesis
        by (auto simp: ScanEnd sc line_postI line_post_def elim!: specR_conseq)
    next
      case (ScanRange s r t)
      have r: "s < r" "r < e" using sc(2) by (auto simp: ScanRange scan_post_def)
      then have "memcpyR (map (pe_stack E) [0..<e]) 0 (take s buf) = Inr (take s buf @ drop s (map (pe_stack E) [0..<e]))"
        using e by (simp add: memcpyR_def min_def)
      moreover note specR_conseq[OF expand_scanned_spec(2)[OF assms(1) Suc a sc(2)[unfolded ScanRange], of nr],
          where Q = "\<lambda>x. specR {SignedOverflow} (case x of (lst, nb, ok, w) \<Rightarrow> Inr (lst, buf, ok, w)) (line_post e lst buf)"]
      ultimately show ?thesis
        using r e by (auto simp: ScanRange sc sliceR_def case_prod_unfold item_post_def line_post_def)
    qed
  qed
qed

lemma expandLine_spec:
  assumes "env_ok E" "default_ok (bl_args lst)" "line_buf buf e"
  shows "specR {SignedOverflow} (BlackList_expandLine E nr lst buf e) (line_post e lst buf)"
  using expand_line_spec[OF assms(1,2), of "expand_depth buf e" nr] assms(3)
  unfolding BlackList_expandLine_def expander_ok_def expand_depth_def by blast

section \<open>Properties\<close>

text \<open>
  Parsing a line that a NUL terminates always returns: no access leaves the line and no
  assertion fails, bytes of the line are only ever overwritten by NUL and bytes behind
  it are not touched, and at most well-formed entries are added to the list.
\<close>

theorem parseLine_memory_safe:
  assumes "env_ok E" and "default_ok (bl_args lst)" and "line_buf buf e"
  shows "\<exists>lst' buf' ok w. BlackList_parseLine E lst buf e line_nr = Inr (lst', buf', ok, w)
      \<and> line_upd e buf buf' \<and> grows lst lst'"
  using specR_total[OF parseLine_spec[OF assms(3,1,2)], of line_nr] by (auto simp: line_post_def)

definition net_null :: NetData where
  "net_null = \<lparr>net_v = base_entry 0 blUNDECIDED no_atmac, net_mask = 0, net_no_ip = False\<rparr>"

definition example_env :: parse_env where
  "example_env = \<lparr>pe_fmt = dec_ops, pe_ip_vec = list_vector ip_null, pe_net_vec = list_vector net_null,
     pe_local_mac = [2, 0, 0, 0, 0, 1], pe_uninit_mac = replicate 6 0, pe_stack = (\<lambda>_. CHR ''?''), pe_testsuite = False\<rparr>"

definition empty_list :: BlackList where
  "empty_list = \<lparr>bl_ip_list = [], bl_net_list = [], bl_last_mtime = 0, bl_args = default_arguments\<rparr>"

lemma example_env_ok: "env_ok example_env"
  by (simp add: env_ok_def example_env_def list_vector_lib wf_mac_def)

lemma empty_list_ok: "default_ok (bl_args empty_list)"
  by (simp add: default_ok_def empty_list_def default_arguments_def wf_mac_def)

theorem parseLine_memory_safe_witness:
  "\<exists>lst' buf' ok w. BlackList_parseLine example_env empty_list (''10.0.0.0/24@'' @ [NUL]) 12 1 = Inr (lst', buf', ok, w)
      \<and> line_upd 12 (''10.0.0.0/24@'' @ [NUL]) buf' \<and> grows empty_list lst'"
  by (rule parseLine_memory_safe[OF example_env_ok empty_list_ok]) (simp add: line_buf_def)

text \<open>
  C20: expanding a line terminates within the given recursion depth and stays inside of the line and
  of the blocks allocated for the expanded lines; it returns unless the counter of a
  numeric range overflows.
\<close>

theorem expandLine_memory_safe:
  assumes "env_ok E" and "default_ok (bl_args lst)" and "line_buf buf e"
  shows "(\<exists>lst' buf' ok w. BlackList_expandLine E line_nr lst buf e = Inr (lst', buf', ok, w)
      \<and> line_upd e buf buf' \<and> grows lst lst')
      \<or> BlackList_expandLine E line_nr lst buf e = Inl SignedOverflow"
  using expandLine_spec[OF assms, of line_nr]
  by (cases "BlackList_expandLine E line_nr lst buf e") (auto simp: line_post_def)

theorem expandLine_memory_safe_witness:
  "\<exists>lst' buf' ok w. BlackList_expandLine example_env 1 empty_list (''10.{1-2}.0.{5,7}'' @ [NUL]) 16 = Inr (lst', buf', ok, w)
      \<and> grows empty_list lst'"
proof -
  have "case BlackList_expandLine example_env 1 empty_list (''10.{1-2}.0.{5,7}'' @ [NUL]) 16 of Inl _ \<Rightarrow> False | Inr _ \<Rightarrow> True"
    by code_simp
  moreover have "line_buf (''10.{1-2}.0.{5,7}'' @ [NUL]) 16" by (simp add: line_buf_def)
  ultimately show ?thesis
    using expandLine_memory_safe[OF example_env_ok empty_list_ok, of "''10.{1-2}.0.{5,7}'' @ [NUL]" 16 1] by auto
qed

end
