(* ===== verification/Blacklist_Print.thy ===== *)
theory Blacklist_Print
  imports Parser_Safety
begin

text \<open>
  Printing of the blacklist (\<open>BlackList_print\<close> of \<open>src/src/blacklist.c\<close>) and what the parser makes of
  concrete lines: printed entries are read back, \<open>/n\<close> gives the mask of \<open>n\<close> leading
  bits, a range in the host part is expanded to one entry per item; and the
  lines where the code does not do what the manual page promises.
\<close>

section \<open>Printing\<close>

definition BlackList_printAtMac :: "int \<Rightarrow> AtMac \<Rightarrow> writes" where
  "BlackList_printAtMac fd atmac =
     (if am_status atmac \<noteq> amNONE
      then Vwrite fd ''@'' @ (if am_status atmac = amNEGATIVE then Vwrite fd ''!'' else [])
           @ Vwrite fd (ether_ntoa (am_mac atmac))
      else [])"

definition BlackList_print_internal :: "int \<Rightarrow> BaseData \<Rightarrow> in_addr option \<Rightarrow> bool \<Rightarrow> writes" where
  "BlackList_print_internal fd data m no_ip =
     (case b_status data of blUNDECIDED \<Rightarrow> Vwrite fd ''?'' | blIGNORE \<Rightarrow> Vwrite fd ''!'' | _ \<Rightarrow> [])
     @ (if no_ip then Vwrite fd ''*''
        else writeIP fd (b_ip data) @ (case m of None \<Rightarrow> [] | Some a \<Rightarrow> Vwrite fd ''/'' @ writeIP fd a))
     @ BlackList_printAtMac fd (b_atmac data)
     @ Vwrite fd [TAB, TAB]
     @ Vwrite fd (case b_status data of blUNDECIDED \<Rightarrow> ''FAIL'' | blIGNORE \<Rightarrow> '''' | blRAND \<Rightarrow> ''RANDOM''
                  | blSET \<Rightarrow> ether_ntoa (b_mac data))
     @ Vwrite fd [NL]"

definition BlackList_print :: "BlackList \<Rightarrow> int \<Rightarrow> writes" where
  "BlackList_print lst fd =
     concat (map (\<lambda>i. BlackList_print_internal fd (ip_v i) None False) (bl_ip_list lst))
     @ concat (map (\<lambda>i. BlackList_print_internal fd (net_v i) (Some (net_mask i)) (net_no_ip i)) (bl_net_list lst))"

text \<open>The text of some writes.\<close>

definition text_of :: "writes \<Rightarrow> string" where
  "text_of w = concat (map snd w)"

section \<open>Scanning known text\<close>

text \<open>Characters that a scanner passes over.\<close>

definition passes :: "string \<Rightarrow> string \<Rightarrow> bool" where
  "passes d s \<longleftrightarrow> (\<forall>c\<in>set s. c \<notin> set d \<and> c \<noteq> NUL)"

lemma scan_token_hit:
  assumes "passes d s" "c \<in> set d" "length a + length s < e"
  shows "scan_token d (a @ s @ c # r) (length a) e = Inr (a @ s @ NUL # r, length a + length s, Some c)"
  using assms
proof (induction s arbitrary: a)
  case Nil
  then show ?case by (subst scan_token.simps) (simp add: list_update_append)
next
  case (Cons x s)
  have "scan_token d ((a @ [x]) @ s @ c # r) (length (a @ [x])) e = Inr ((a @ [x]) @ s @ NUL # r, length (a @ [x]) + length s, Some c)"
    using Cons.prems by (intro Cons.IH) (auto simp: passes_def)
  with Cons.prems show ?case by (subst scan_token.simps) (simp add: passes_def)
qed

lemma scan_token_end:
  assumes "passes d s" "e = length a + length s"
  shows "scan_token d (a @ s @ r) (length a) e = Inr (a @ s @ r, e, None)"
  using assms
proof (induction s arbitrary: a)
  case Nil
  then show ?case by (subst scan_token.simps) simp
next
  case (Cons x s)
  have "scan_token d ((a @ [x]) @ s @ r) (length (a @ [x])) e = Inr ((a @ [x]) @ s @ r, e, None)"
    using Cons.prems by (intro Cons.IH) (auto simp: passes_def)
  with Cons.prems show ?case by (subst scan_token.simps) (simp add: passes_def)
qed

lemma scan_while_text:
  assumes "\<forall>x\<in>set s. P x" "\<not> P c"
  shows "scan_while P (a @ s @ c # r) (length a) = Inr (length a + length s)"
  using assms
proof (induction s arbitrary: a)
  case Nil
  then show ?case by (subst scan_while.simps) simp
next
  case (Cons x s)
  have "scan_while P ((a @ [x]) @ s @ c # r) (length (a @ [x])) = Inr (length (a @ [x]) + length s)"
    using Cons.prems by (intro Cons.IH) auto
  with Cons.prems show ?case by (subst scan_while.simps) simp
qed

lemma cstr_text: "NUL \<notin> set s \<Longrightarrow> cstr (a @ s @ NUL # r) (length a) = s"
  unfolding cstr_def by (induction s) auto

lemma cstrR_text: "NUL \<notin> set s \<Longrightarrow> cstrR (a @ s @ NUL # r) (length a) = Inr s"
  by (simp add: cstrR_def cstr_text)

lemma readR_text: "readR (a @ c # r) (length a) = Inr c"
  by simp

lemma inet_ntoa_chars: "c \<in> set (inet_ntoa ip) \<Longrightarrow> isdigit c \<or> c = CHR ''.''"
  by (auto simp: inet_ntoa_def dest: dec_digits)

lemma ether_ntoa_chars: "c \<in> set (ether_ntoa m) \<Longrightarrow> c \<in> set DEC2HEX \<or> c = CHR '':''"
proof -
  assume "c \<in> set (ether_ntoa m)"
  then have "c \<in> set (concat (map ether_octet m))" unfolding ether_ntoa_def by (rule in_set_butlastD)
  then obtain b where b: "c \<in> set (ether_octet b)" by auto
  have "length DEC2HEX = 16" by (simp add: DEC2HEX_def)
  then show ?thesis
    using b octet_nibbles(1,2)[of b] by (auto simp: ether_octet_eq)
qed

definition plain :: "char \<Rightarrow> bool" where
  "plain c \<longleftrightarrow> c \<notin> set [NUL, TAB, NL, CHR '' '', CHR ''#'', CHR ''/'', CHR ''@'', CHR ''!'', CHR ''*'', CHR ''{'', CHR ''}'',
                         CHR ''-'', CHR '','']"

lemma isdigit_plain: "isdigit c \<or> c = CHR ''.'' \<Longrightarrow> plain c"
  by (auto simp: plain_def isdigit_def)

lemma inet_ntoa_plain: "\<forall>c\<in>set (inet_ntoa ip). plain c"
  using inet_ntoa_chars[of _ ip] isdigit_plain by blast

lemma ether_ntoa_plain: "\<forall>c\<in>set (ether_ntoa m). plain c"
proof
  fix c assume "c \<in> set (ether_ntoa m)"
  moreover have "list_all plain ('':'' @ DEC2HEX)" by code_simp
  ultimately show "plain c" using ether_ntoa_chars[of c m] by (auto simp: list_all_iff)
qed

lemma plain_passes: "\<forall>c\<in>set s. plain c \<Longrightarrow> set d \<subseteq> set [TAB, CHR '' '', CHR ''#'', CHR ''/'', CHR ''@''] \<Longrightarrow> passes d s"
  by (auto simp: passes_def plain_def)

lemma plain_no_NUL: "\<forall>c\<in>set s. plain c \<Longrightarrow> NUL \<notin> set s"
  by (auto simp: plain_def)

section \<open>Reading printed entries\<close>

text \<open>The parts of a printed line.\<close>

fun mac_text :: "BlackListStatus \<Rightarrow> ether_addr \<Rightarrow> string" where
  "mac_text blSET m = ether_ntoa m"
| "mac_text blRAND m = ''RANDOM''"
| "mac_text _ m = []"

definition at_text :: "AtMac \<Rightarrow> string" where
  "at_text am = (if am_status am = amNONE then []
     else CHR ''@'' # (if am_status am = amNEGATIVE then ''!'' else []) @ ether_ntoa (am_mac am))"

lemma parse_mac_part_text:
  assumes "st \<noteq> blUNDECIDED" "st = blSET \<Longrightarrow> wf_mac m" "buf = a @ mac_text st m @ [NUL]"
  shows "parse_mac_part E lst (st = blIGNORE) buf (length a) (length a + length (mac_text st m)) nr
     = Inr (buf, Some (st, if st = blSET then m else pe_uninit_mac E), [])"
proof (cases st)
  case blIGNORE
  then show ?thesis by (simp add: parse_mac_part_def)
next
  case blSET
  let ?s = "ether_ntoa m"
  have l: "length ?s = 17" using assms(2) blSET by (simp add: length_ether_ntoa)
  obtain x xs where x: "?s = x # xs" using l by (cases ?s) auto
  have pl: "plain x" using ether_ntoa_plain[of m] x by simp
  have t: "scan_token [CHR ''#'', CHR '' '', TAB] (a @ ?s @ [NUL]) (length a) (length a + length ?s)
      = Inr (a @ ?s @ [NUL], length a + length ?s, None)"
    by (rule scan_token_end[OF plain_passes[OF ether_ntoa_plain]]) auto
  have c: "cstrR (a @ ?s @ [NUL]) (length a) = Inr ?s" by (rule cstrR_text[OF plain_no_NUL[OF ether_ntoa_plain]])
  have r: "?s \<noteq> ''RANDOM''" using l by auto
  have "readR (a @ ?s @ [NUL]) (length a) = Inr x" by (simp add: x)
  with blSET t c l r pl assms(2) show ?thesis
    by (simp add: assms(3) parse_mac_part_def parse_mac_word_def BlackList_parseMac_def xether_aton_ntoa plain_def)
next
  case blRAND
  have t: "scan_token [CHR ''#'', CHR '' '', TAB] (a @ ''RANDOM'' @ [NUL]) (length a) (length a + length ''RANDOM'')
      = Inr (a @ ''RANDOM'' @ [NUL], length a + length ''RANDOM'', None)"
    by (rule scan_token_end) (auto simp: passes_def)
  have c: "cstrR (a @ ''RANDOM'' @ [NUL]) (length a) = Inr ''RANDOM''" by (rule cstrR_text) simp
  from blRAND t c show ?thesis
    by (simp add: assms(3) parse_mac_part_def parse_mac_word_def)
qed (use assms in simp)

lemma mac_text_no_blank: "st \<noteq> blUNDECIDED \<Longrightarrow> \<not> blank (hd (mac_text st m @ [NUL]))"
proof (cases st)
  case blSET
  show ?thesis
  proof (cases "ether_ntoa m")
    case (Cons x xs)
    then have "plain x" using ether_ntoa_plain[of m] by simp
    then show ?thesis using Cons blSET by (simp add: plain_def blank_def)
  qed (simp add: blSET blank_def)
qed (auto simp: blank_def)

lemma parse_tail_text:
  assumes "st \<noteq> blUNDECIDED" "st = blSET \<Longrightarrow> wf_mac m" "set tabs \<subseteq> {TAB}"
    "buf = a @ tabs @ mac_text st m @ [NUL]" "e = length buf - 1" "\<not> (ii \<and> am_status am = amNEGATIVE)"
  shows "parse_tail E lst (st = blIGNORE) hm ii ip pm am buf (length a) e nr
     = Inr (parse_push E lst hm ii ip pm am st (if st = blSET then m else pe_uninit_mac E), buf, True, [])"
proof -
  obtain c r where cr: "mac_text st m @ [NUL] = c # r" by (cases "mac_text st m @ [NUL]") auto
  then have "\<not> blank c" using mac_text_no_blank[OF assms(1), of m] by simp
  then have w: "BlackList_ignoreWhitespace buf (length a) = Inr (length a + length tabs)"
    unfolding BlackList_ignoreWhitespace_def assms(4) cr using assms(3)
    by (intro scan_while_text) (auto simp: blank_def)
  have e: "e = length (a @ tabs) + length (mac_text st m)" by (simp add: assms(4,5))
  have "parse_mac_part E lst (st = blIGNORE) buf (length (a @ tabs)) e nr
     = Inr (buf, Some (st, if st = blSET then m else pe_uninit_mac E), [])"
    unfolding e by (rule parse_mac_part_text[OF assms(1,2)]) (simp_all add: assms(4))
  with w assms(6) show ?thesis by (simp add: parse_tail_def e)
qed

lemma parse_atmac_mac_text:
  assumes "wf_mac m" "r \<noteq> []" "length p + 17 + length r = e"
  shows "parse_atmac_mac E st (p @ ether_ntoa m @ TAB # r) (length p) e nr
      = Inr (p @ ether_ntoa m @ NUL # r, length p + 18, Some \<lparr>am_mac = m, am_status = st\<rparr>, [])"
proof -
  let ?s = "ether_ntoa m"
  have l: "length ?s = 17" using assms(1) by (simp add: length_ether_ntoa)
  have lt: "length p + length ?s < e" using assms(2,3) l by (cases r) auto
  have t: "scan_token [CHR '' '', TAB] (p @ ?s @ TAB # r) (length p) e = Inr (p @ ?s @ NUL # r, length p + length ?s, Some TAB)"
    by (rule scan_token_hit[OF plain_passes[OF ether_ntoa_plain]]) (use lt in auto)
  have c: "cstrR (p @ ?s @ NUL # r) (length p) = Inr ?s" by (rule cstrR_text[OF plain_no_NUL[OF ether_ntoa_plain]])
  from t c lt l assms(1) show ?thesis
    by (simp add: parse_atmac_mac_def BlackList_parseMac_def xether_aton_ntoa)
qed

lemma parse_atmac_text:
  assumes "wf_mac (am_mac am)" "am_status am \<noteq> amNONE" "r \<noteq> []"
    "buf = a @ tl (at_text am) @ TAB # r" "length buf = Suc e"
  shows "parse_atmac E buf (length a) e nr
     = Inr (a @ tl (at_text am) @ NUL # r, length a + length (at_text am), Some am, [])"
proof -
  let ?s = "ether_ntoa (am_mac am)"
  have am: "\<lparr>am_mac = am_mac am, am_status = am_status am\<rparr> = am" by simp
  have l: "length ?s = 17" using assms(1) by (simp add: length_ether_ntoa)
  show ?thesis
  proof (cases "am_status am = amNEGATIVE")
    case True
    then have b: "buf = (a @ ''!'') @ ?s @ TAB # r" "length (a @ ''!'') + 17 + length r = e"
      using assms(4,5) l by (auto simp: at_text_def)
    show ?thesis
      using parse_atmac_mac_text[OF assms(1,3) b(2), of E amNEGATIVE nr] True am l
      by (simp add: parse_atmac_def b(1) at_text_def)
  next
    case False
    then have st: "am_status am = amPOSITIVE" using assms(2) by (cases "am_status am") auto
    then have b: "buf = a @ ?s @ TAB # r" "length a + 17 + length r = e"
      using assms(4,5) l by (auto simp: at_text_def)
    obtain x xs where x: "?s = x # xs" using l by (cases ?s) auto
    have "plain x" using ether_ntoa_plain[of "am_mac am"] x by simp
    then have "readR buf (length a) = Inr x" "x \<noteq> CHR ''!''" by (simp_all add: b(1) x plain_def)
    then show ?thesis
      using parse_atmac_mac_text[OF assms(1,3) b(2), of E amPOSITIVE nr] st am l
      by (simp add: parse_atmac_def b(1) at_text_def)
  qed
qed

text \<open>
  The pushed entry: what the parser stores for an entry \<open>d\<close>. The MAC of an entry that is not
  \<open>blSET\<close> is not printed and not initialised by the parser.
\<close>

abbreviation stored_mac :: "parse_env \<Rightarrow> BaseData \<Rightarrow> ether_addr" where
  "stored_mac E d \<equiv> (if b_status d = blSET then b_mac d else pe_uninit_mac E)"

text \<open>Entries that can be written down: in particular without \<open>@mac\<close> its field is zero.\<close>

definition printable :: "BaseData \<Rightarrow> bool" where
  "printable d \<longleftrightarrow> base_wf d \<and> (am_status (b_atmac d) = amNONE \<longrightarrow> am_mac (b_atmac d) = replicate 6 0)"

lemma parse_from_at_text:
  assumes d: "printable d" "\<not> (ii \<and> am_status (b_atmac d) \<noteq> amPOSITIVE)"
    and buf: "buf = a @ (if am_status (b_atmac d) = amNONE then tabs else tl (at_text (b_atmac d)) @ [TAB, TAB]) @ mac_text (b_status d) (b_mac d) @ [NUL]"
    and e: "length buf = Suc e" "set tabs \<subseteq> {TAB}"
  shows "\<exists>buf'. parse_from_at E lst (b_status d = blIGNORE) hm (am_status (b_atmac d) \<noteq> amNONE) ii ip pm buf (length a) e nr
     = Inr (parse_push E lst hm ii ip pm (b_atmac d) (b_status d) (stored_mac E d), buf', True, [])"
proof -
  have st: "b_status d \<noteq> blUNDECIDED" "b_status d = blSET \<Longrightarrow> wf_mac (b_mac d)" "wf_mac (am_mac (b_atmac d))"
    using d(1) by (auto simp: printable_def base_wf_def)
  have ii: "\<not> (ii \<and> am_status (b_atmac d) = amNEGATIVE)" using d(2) by auto
  show ?thesis
  proof (cases "am_status (b_atmac d) = amNONE")
    case True
    have z: "\<lparr>am_mac = replicate 6 0, am_status = amNONE\<rparr> = b_atmac d"
      using True d(1) by (simp add: printable_def)
    have b: "buf = a @ tabs @ mac_text (b_status d) (b_mac d) @ [NUL]" using buf True by simp
    have le: "length a \<le> e" using e(1) b by simp
    have "parse_tail E lst (b_status d = blIGNORE) hm ii ip pm (b_atmac d) buf (length a) e nr
      = Inr (parse_push E lst hm ii ip pm (b_atmac d) (b_status d) (stored_mac E d), buf, True, [])"
      using e(1) by (intro parse_tail_text[OF st(1,2) e(2) b _ ii]) auto
    with True d(2) z le show ?thesis by (simp add: parse_from_at_def)
  next
    case False
    let ?r = "TAB # mac_text (b_status d) (b_mac d) @ [NUL]"
    have b: "buf = a @ tl (at_text (b_atmac d)) @ TAB # ?r" using buf False by simp
    have le: "length a \<le> e" using e(1) b by simp
    have at: "parse_atmac E buf (length a) e nr
        = Inr (a @ tl (at_text (b_atmac d)) @ NUL # ?r, length a + length (at_text (b_atmac d)), Some (b_atmac d), [])"
      by (rule parse_atmac_text[OF st(3) False _ b e(1)]) simp
    let ?a = "a @ tl (at_text (b_atmac d)) @ [NUL]"
    have la: "length ?a = length a + length (at_text (b_atmac d))" using False by (simp add: at_text_def)
    have "parse_tail E lst (b_status d = blIGNORE) hm ii ip pm (b_atmac d) (?a @ [TAB] @ mac_text (b_status d) (b_mac d) @ [NUL]) (length ?a) e nr
      = Inr (parse_push E lst hm ii ip pm (b_atmac d) (b_status d) (stored_mac E d), ?a @ [TAB] @ mac_text (b_status d) (b_mac d) @ [NUL], True, [])"
      using e(1) b by (intro parse_tail_text[OF st(1,2) _ refl _ ii]) auto
    then have "parse_tail E lst (b_status d = blIGNORE) hm ii ip pm (b_atmac d) (a @ tl (at_text (b_atmac d)) @ NUL # ?r) (length a + length (at_text (b_atmac d))) e nr
      = Inr (parse_push E lst hm ii ip pm (b_atmac d) (b_status d) (stored_mac E d), a @ tl (at_text (b_atmac d)) @ NUL # ?r, True, [])"
      unfolding la by simp
    with False at le show ?thesis by (simp add: parse_from_at_def)
  qed
qed

text \<open>Behind a netmask the \<open>@\<close> is still in the buffer.\<close>

lemma parse_rest_text:
  assumes d: "printable d" and buf: "buf = a @ at_text (b_atmac d) @ [TAB, TAB] @ mac_text (b_status d) (b_mac d) @ [NUL]"
    and e: "length buf = Suc e"
  shows "\<exists>buf'. parse_rest E lst (b_status d = blIGNORE) hm False False ip pm buf (length a) e nr
     = Inr (parse_push E lst hm False ip pm (b_atmac d) (b_status d) (stored_mac E d), buf', True, [])"
proof (cases "am_status (b_atmac d) = amNONE")
  case True
  then have b: "buf = a @ TAB # TAB # mac_text (b_status d) (b_mac d) @ [NUL]" using buf by (simp add: at_text_def)
  have "\<exists>buf'. parse_from_at E lst (b_status d = blIGNORE) hm False False ip pm buf (length a) e nr
     = Inr (parse_push E lst hm False ip pm (b_atmac d) (b_status d) (stored_mac E d), buf', True, [])"
    using parse_from_at_text[OF d, of False buf a "[TAB, TAB]" e] True e b by simp
  then show ?thesis using b by (simp add: parse_rest_def)
next
  case False
  let ?a = "a @ ''@''"
  have b: "buf = ?a @ (tl (at_text (b_atmac d)) @ [TAB, TAB]) @ mac_text (b_status d) (b_mac d) @ [NUL]"
    using buf False by (simp add: at_text_def)
  have r: "readR buf (length a) = Inr (CHR ''@'')" using b by simp
  have "\<exists>buf'. parse_from_at E lst (b_status d = blIGNORE) hm True False ip pm buf (length ?a) e nr
     = Inr (parse_push E lst hm False ip pm (b_atmac d) (b_status d) (stored_mac E d), buf', True, [])"
    using parse_from_at_text[OF d, of False buf ?a "[]" e E lst hm ip pm nr] False e b by simp
  then show ?thesis using r by (simp add: parse_rest_def)
qed

lemma parseNetMask_text:
  assumes "mask_end c" "c \<noteq> NUL" "NUL \<notin> set r" "buf = a @ inet_ntoa m @ c # r @ [NUL]"
  shows "BlackList_parseNetMask E buf (length a) nr = Inr (buf, length a + length (inet_ntoa m), Some m, [])"
proof -
  define o0 where "o0 = dec (ip_octet m 0)"
  define os where "os = ''.'' @ dec (ip_octet m 1) @ ''.'' @ dec (ip_octet m 2) @ ''.'' @ dec (ip_octet m 3)"
  have m: "inet_ntoa m = o0 @ os" by (simp add: inet_ntoa_def o0_def os_def)
  have pl: "\<forall>x\<in>set (o0 @ os). plain x" using inet_ntoa_plain[of m] by (simp only: m)
  have no: "NUL \<notin> set (inet_ntoa m @ c # r)" using assms(2,3) plain_no_NUL[OF inet_ntoa_plain] by auto
  have s: "cstrR buf (length a) = Inr (inet_ntoa m @ c # r)"
    using cstrR_text[OF no, of a "[]"] assms(4) by simp
  have v: "strtol 0 (inet_ntoa m @ c # r) = (int (ip_octet m 0), length o0)"
    using strtol_dec[of 0 "ip_octet m 0" "os @ c # r"] ip_octet_less[of m 0]
    by (simp add: m o0_def os_def isdigit_def)
  have r: "readR buf (length a + length o0) = Inr (CHR ''.'')"
    using readR_ok[of "length a + length o0" buf] by (simp add: assms(4) m os_def nth_append)
  have nm: "\<not> mask_end (CHR ''.'')" by (simp add: mask_end_def)
  have b2: "buf = (a @ o0) @ os @ c # r @ [NUL]" by (simp add: assms(4) m)
  have w: "scan_while (\<lambda>c. \<not> mask_end c) buf (length a + length o0) = Inr (length a + length (inet_ntoa m))"
    using scan_while_text[of os "\<lambda>c. \<not> mask_end c" c "a @ o0" "r @ [NUL]"] pl assms(1)
    by (auto simp: b2 m mask_end_def plain_def)
  let ?k = "length a + length (inet_ntoa m)"
  have k: "?k < length buf" "buf ! ?k = c" "buf[?k := NUL] = a @ inet_ntoa m @ NUL # r @ [NUL]"
    by (simp_all add: assms(4) nth_append list_update_append)
  have s2: "cstrR (a @ inet_ntoa m @ NUL # r @ [NUL]) (length a) = Inr (inet_ntoa m)"
    by (rule cstrR_text[OF plain_no_NUL[OF inet_ntoa_plain]])
  have restore: "pokeR (a @ inet_ntoa m @ NUL # r @ [NUL]) ?k c = Inr buf"
    by (simp add: assms(4) list_update_append)
  have "inet_aton (inet_ntoa m) = Some m" using inet_aton_ntoa[of "[]" m] by simp
  with s v r nm w k s2 restore show ?thesis
    by (simp add: BlackList_parseNetMask_def)
qed

lemma inet_ntoa_hd: obtains x xs where "inet_ntoa ip = x # xs" "isdigit x"
  using dec_cons[of "ip_octet ip 0"] by (metis append_Cons inet_ntoa_def)

lemma inet_ntoa_not_star: "inet_ntoa ip \<noteq> ''*''"
  by (rule inet_ntoa_hd[of ip]) (auto simp: isdigit_def)

lemma at_text_no_NUL: "NUL \<notin> set (at_text am)"
  using plain_no_NUL[OF ether_ntoa_plain] by (auto simp: at_text_def)

lemma mac_text_no_NUL: "NUL \<notin> set (mac_text st m)"
  using plain_no_NUL[OF ether_ntoa_plain] by (cases st) auto

text \<open>The host part, for the three forms of an entry.\<close>

lemma parse_host_ip:
  assumes d: "printable d"
    and buf: "buf = a @ inet_ntoa (b_ip d) @ at_text (b_atmac d) @ [TAB, TAB] @ mac_text (b_status d) (b_mac d) @ [NUL]"
    and e: "length buf = Suc e"
  shows "\<exists>buf'. parse_host E lst (b_status d = blIGNORE) buf (length a) e nr
     = Inr (parse_push E lst False False (b_ip d) 0xFFFFFFFF (b_atmac d) (b_status d) (stored_mac E d), buf', True, [])"
proof -
  let ?ip = "inet_ntoa (b_ip d)" and ?none = "am_status (b_atmac d) = amNONE"
  let ?delims = "[CHR ''/'', CHR ''@'', CHR '' '', TAB]"
  define c where "c = (if ?none then TAB else CHR ''@'')"
  define r where "r = (if ?none then [TAB] else tl (at_text (b_atmac d)) @ [TAB, TAB]) @ mac_text (b_status d) (b_mac d) @ [NUL]"
  have b: "buf = a @ ?ip @ c # r" by (simp add: buf c_def r_def at_text_def)
  have lt: "length a + length ?ip < e" using e by (auto simp: b r_def)
  have t: "scan_token ?delims buf (length a) e = Inr (a @ ?ip @ NUL # r, length a + length ?ip, Some c)"
    unfolding b by (rule scan_token_hit[OF plain_passes[OF inet_ntoa_plain] _ lt]) (auto simp: c_def)
  have s: "cstrR (a @ ?ip @ NUL # r) (length a) = Inr ?ip"
    by (rule cstrR_text[OF plain_no_NUL[OF inet_ntoa_plain]])
  have ia: "inet_aton ?ip = Some (b_ip d)" using inet_aton_ntoa[of "[]"] by simp
  let ?a = "a @ ?ip @ [NUL]"
  have from_at: "\<exists>buf'. parse_from_at E lst (b_status d = blIGNORE) False (\<not> ?none) False (b_ip d) 0xFFFFFFFF (?a @ r) (length ?a) e nr
     = Inr (parse_push E lst False False (b_ip d) 0xFFFFFFFF (b_atmac d) (b_status d) (stored_mac E d), buf', True, [])"
    by (rule parse_from_at_text[OF d, where tabs = "[TAB]"]) (use e in \<open>auto simp: r_def b\<close>)
  obtain x xs where x: "r = x # xs" by (cases r) (auto simp: r_def)
  have nx: "?none \<Longrightarrow> x \<noteq> CHR ''@''" using x by (auto simp: r_def)
  have rd: "readR (?a @ r) (length ?a) = Inr x" unfolding x by (rule readR_text)
  have "\<exists>buf'. parse_rest E lst (b_status d = blIGNORE) False (\<not> ?none) False (b_ip d) 0xFFFFFFFF (?a @ r) (length ?a) e nr
     = Inr (parse_push E lst False False (b_ip d) 0xFFFFFFFF (b_atmac d) (b_status d) (stored_mac E d), buf', True, [])"
    unfolding parse_rest_def rd bindR.simps using from_at nx by (cases ?none) auto
  then show ?thesis
    using t s ia lt by (auto simp: parse_host_def parse_mask_part_def inet_ntoa_not_star c_def)
qed

lemma parse_host_net:
  assumes d: "printable d"
    and buf: "buf = a @ inet_ntoa ip @ CHR ''/'' # inet_ntoa m @ at_text (b_atmac d) @ [TAB, TAB] @ mac_text (b_status d) (b_mac d) @ [NUL]"
    and e: "length buf = Suc e"
  shows "\<exists>buf'. parse_host E lst (b_status d = blIGNORE) buf (length a) e nr
     = Inr (parse_push E lst True False ip m (b_atmac d) (b_status d) (stored_mac E d), buf', True, [])"
proof -
  let ?ip = "inet_ntoa ip" and ?delims = "[CHR ''/'', CHR ''@'', CHR '' '', TAB]"
  let ?r = "inet_ntoa m @ at_text (b_atmac d) @ [TAB, TAB] @ mac_text (b_status d) (b_mac d) @ [NUL]"
  have lt: "length a + length ?ip < e" using e by (auto simp: buf)
  have t: "scan_token ?delims buf (length a) e = Inr (a @ ?ip @ NUL # ?r, length a + length ?ip, Some (CHR ''/''))"
    unfolding buf by (rule scan_token_hit[OF plain_passes[OF inet_ntoa_plain] _ lt]) auto
  have s: "cstrR (a @ ?ip @ NUL # ?r) (length a) = Inr ?ip"
    by (rule cstrR_text[OF plain_no_NUL[OF inet_ntoa_plain]])
  have ia: "inet_aton ?ip = Some ip" using inet_aton_ntoa[of "[]"] by simp
  let ?a = "a @ ?ip @ [NUL]"
  obtain c r' where cr: "at_text (b_atmac d) @ [TAB, TAB] @ mac_text (b_status d) (b_mac d) = c # r'" "mask_end c" "c \<noteq> NUL"
    by (cases "am_status (b_atmac d) = amNONE") (auto simp: at_text_def mask_end_def)
  have nr': "NUL \<notin> set r'"
  proof
    assume "NUL \<in> set r'"
    then have "NUL \<in> set (c # r')" by simp
    then show False unfolding cr(1)[symmetric] using at_text_no_NUL mac_text_no_NUL by auto
  qed
  have mk: "BlackList_parseNetMask E (?a @ ?r) (length ?a) nr = Inr (?a @ ?r, length ?a + length (inet_ntoa m), Some m, [])"
    using parseNetMask_text[OF cr(2,3) nr', of "?a @ ?r" ?a m E nr] cr(1) by simp
  have "\<exists>buf'. parse_rest E lst (b_status d = blIGNORE) True False False ip m (?a @ ?r) (length (?a @ inet_ntoa m)) e nr
     = Inr (parse_push E lst True False ip m (b_atmac d) (b_status d) (stored_mac E d), buf', True, [])"
    by (rule parse_rest_text[OF d]) (use e in \<open>auto simp: buf\<close>)
  with mk t s ia lt show ?thesis
    by (auto simp: parse_host_def parse_mask_part_def inet_ntoa_not_star add.assoc)
qed

lemma parse_host_star:
  assumes d: "printable d" "am_status (b_atmac d) = amPOSITIVE" "b_status d \<noteq> blIGNORE"
    and buf: "buf = CHR ''*'' # at_text (b_atmac d) @ [TAB, TAB] @ mac_text (b_status d) (b_mac d) @ [NUL]"
    and e: "length buf = Suc e"
  shows "\<exists>buf'. parse_host E lst False buf 0 e nr
     = Inr (parse_push E lst False True 0 0xFFFFFFFF (b_atmac d) (b_status d) (stored_mac E d), buf', True, [])"
proof -
  let ?delims = "[CHR ''/'', CHR ''@'', CHR '' '', TAB]"
  let ?r = "tl (at_text (b_atmac d)) @ [TAB, TAB] @ mac_text (b_status d) (b_mac d) @ [NUL]"
  have b: "buf = [] @ ''*'' @ CHR ''@'' # ?r" using d(2) by (simp add: buf at_text_def)
  have lt: "length ([]::string) + length ''*'' < e" using e by (auto simp: b)
  have t: "scan_token ?delims buf (length ([]::string)) e = Inr ([] @ ''*'' @ NUL # ?r, length ([]::string) + length ''*'', Some (CHR ''@''))"
    unfolding b by (rule scan_token_hit[OF _ _ lt]) (auto simp: passes_def)
  have s: "cstrR ([] @ ''*'' @ NUL # ?r) (length ([]::string)) = Inr ''*''"
    by (rule cstrR_text) simp
  let ?a = "''*'' @ [NUL]"
  have from_at: "\<exists>buf'. parse_from_at E lst (b_status d = blIGNORE) False (am_status (b_atmac d) \<noteq> amNONE) True 0 0xFFFFFFFF (?a @ ?r) (length ?a) e nr
     = Inr (parse_push E lst False True 0 0xFFFFFFFF (b_atmac d) (b_status d) (stored_mac E d), buf', True, [])"
    by (rule parse_from_at_text[OF d(1), where tabs = "[]"]) (use e d(2) in \<open>auto simp: b\<close>)
  obtain x xs where x: "?r = x # xs" by (cases "tl (at_text (b_atmac d))") auto
  have rd: "readR (CHR ''*'' # NUL # ?r) (Suc (Suc 0)) = Inr x" using x by simp
  show ?thesis
    using t s from_at lt d(2,3) rd
    by (auto simp: parse_host_def parse_mask_part_def parse_rest_def)
qed

text \<open>A printed line, without its newline.\<close>

definition entry_text :: "BaseData \<Rightarrow> in_addr option \<Rightarrow> bool \<Rightarrow> string" where
  "entry_text d m no_ip =
     (if b_status d = blIGNORE then ''!'' else [])
     @ (if no_ip then ''*'' else inet_ntoa (b_ip d) @ (case m of None \<Rightarrow> [] | Some a \<Rightarrow> CHR ''/'' # inet_ntoa a))
     @ at_text (b_atmac d) @ [TAB, TAB] @ mac_text (b_status d) (b_mac d)"

lemma print_entry_text:
  "b_status d \<noteq> blUNDECIDED \<Longrightarrow> text_of (BlackList_print_internal fd d m no_ip) = entry_text d m no_ip @ [NL]"
  by (cases "b_status d"; cases m)
    (auto simp: text_of_def BlackList_print_internal_def entry_text_def at_text_def BlackList_printAtMac_def
      Vwrite_def writeIP_def)

lemma parseLine_start:
  assumes "buf = (if ignore then ''!'' else []) @ x # rest" "\<not> blank x" "x \<noteq> CHR ''#''" "x \<noteq> CHR ''!''" "0 < e"
  shows "BlackList_parseLine E lst buf e nr = parse_host E lst ignore buf (length (if ignore then ''!'' else [])) e nr"
proof -
  have "BlackList_ignoreWhitespace buf 0 = Inr 0"
    unfolding BlackList_ignoreWhitespace_def
    using assms(1,2) by (subst scan_while.simps) (auto simp: blank_def)
  then show ?thesis using assms by (auto simp: BlackList_parseLine_def)
qed

lemma expand_scan_plain:
  assumes "e < length buf" "\<forall>k. i \<le> k \<and> k < e \<longrightarrow> buf ! k \<notin> {CHR ''{'', CHR ''}'', CHR ''-'', CHR '',''}"
  shows "expand_scan buf i e None rt = Inr (ScanEnd False)"
  using assms
proof (induction "e - i" arbitrary: i)
  case 0
  then show ?case by (subst expand_scan.simps) simp
next
  case (Suc n)
  then have "expand_scan buf (Suc i) e None rt = Inr (ScanEnd False)" by (intro Suc.hyps(1)) auto
  moreover have "i < e" using Suc.hyps(2) by simp
  moreover from this have "buf ! i \<notin> {CHR ''{'', CHR ''}'', CHR ''-'', CHR '',''}" using Suc.prems(2) by blast
  ultimately show ?case using Suc.prems(1) by (subst expand_scan.simps) simp
qed

lemma expandLine_plain:
  assumes "e < length buf" "\<forall>c\<in>set (take e buf). c \<notin> {CHR ''{'', CHR ''}'', CHR ''-'', CHR '',''}"
  shows "BlackList_expandLine E nr lst buf e =
     bindR (BlackList_parseLine E lst buf e nr) (\<lambda>(lst, buf, _, w). Inr (lst, buf, True, w))"
proof -
  have "\<forall>k. 0 \<le> k \<and> k < e \<longrightarrow> buf ! k \<notin> {CHR ''{'', CHR ''}'', CHR ''-'', CHR '',''}"
  proof (intro allI impI)
    fix k assume "0 \<le> k \<and> k < e"
    then have "buf ! k \<in> set (take e buf)" using assms(1) by (auto simp: in_set_conv_nth intro!: exI[of _ k])
    then show "buf ! k \<notin> {CHR ''{'', CHR ''}'', CHR ''-'', CHR '',''}" using assms(2) by blast
  qed
  then have "expand_scan buf 0 e None rgUNDECIDED = Inr (ScanEnd False)" by (rule expand_scan_plain[OF assms(1)])
  then show ?thesis by (simp add: BlackList_expandLine_def expand_depth_def)
qed

definition no_range :: "string \<Rightarrow> bool" where
  "no_range s \<longleftrightarrow> list_all (\<lambda>c. c \<notin> {CHR ''{'', CHR ''}'', CHR ''-'', CHR '',''}) s"

lemma no_range_simps [simp]:
  "no_range []" "no_range (xs @ ys) \<longleftrightarrow> no_range xs \<and> no_range ys"
  "no_range (c # cs) \<longleftrightarrow> c \<notin> {CHR ''{'', CHR ''}'', CHR ''-'', CHR '',''} \<and> no_range cs"
  by (simp_all add: no_range_def)

lemma plain_no_range: "\<forall>c\<in>set s. plain c \<Longrightarrow> no_range s"
  unfolding no_range_def list_all_iff plain_def by auto

lemma entry_text_no_range: "no_range (entry_text d m no_ip)"
  using plain_no_range[OF inet_ntoa_plain] plain_no_range[OF ether_ntoa_plain]
  by (cases "b_status d"; cases m) (simp_all add: entry_text_def at_text_def)

lemma entry_text_start:
  obtains x rest where "entry_text d m no_ip = (if b_status d = blIGNORE then ''!'' else []) @ x # rest"
    "\<not> blank x" "x \<noteq> CHR ''#''" "x \<noteq> CHR ''!''"
proof -
  obtain y ys where y: "inet_ntoa (b_ip d) = y # ys" "isdigit y" by (rule inet_ntoa_hd)
  then have "\<not> blank y" "y \<noteq> CHR ''#''" "y \<noteq> CHR ''!''" by (auto simp: blank_def isdigit_def)
  with y show ?thesis
    by (intro that[of "if no_ip then CHR ''*'' else y"
          "(if no_ip then [] else ys @ (case m of None \<Rightarrow> [] | Some a \<Rightarrow> CHR ''/'' # inet_ntoa a))
           @ at_text (b_atmac d) @ [TAB, TAB] @ mac_text (b_status d) (b_mac d)"])
      (auto simp: entry_text_def blank_def)
qed

lemma parse_entry_text:
  assumes "printable d" "no_ip \<longrightarrow> am_status (b_atmac d) = amPOSITIVE \<and> b_status d \<noteq> blIGNORE"
  shows "\<exists>buf'. BlackList_expandLine E nr lst (entry_text d m no_ip @ [NUL]) (length (entry_text d m no_ip))
     = Inr (parse_push E lst (m \<noteq> None \<and> \<not> no_ip) no_ip (if no_ip then 0 else b_ip d)
              (case m of Some a \<Rightarrow> if no_ip then 0xFFFFFFFF else a | None \<Rightarrow> 0xFFFFFFFF)
              (b_atmac d) (b_status d) (stored_mac E d), buf', True, [])"
proof -
  let ?t = "entry_text d m no_ip" and ?ign = "b_status d = blIGNORE"
  let ?a = "if ?ign then ''!'' else []"
  let ?push = "parse_push E lst (m \<noteq> None \<and> \<not> no_ip) no_ip (if no_ip then 0 else b_ip d)
              (case m of Some a \<Rightarrow> if no_ip then 0xFFFFFFFF else a | None \<Rightarrow> 0xFFFFFFFF)
              (b_atmac d) (b_status d) (stored_mac E d)"
  obtain x rest where x: "?t = ?a @ x # rest" "\<not> blank x" "x \<noteq> CHR ''#''" "x \<noteq> CHR ''!''"
    by (rule entry_text_start)
  have start: "BlackList_parseLine E lst (?t @ [NUL]) (length ?t) nr = parse_host E lst ?ign (?t @ [NUL]) (length ?a) (length ?t) nr"
    using x by (intro parseLine_start[where x = x and rest = "rest @ [NUL]"]) auto
  have "\<exists>buf'. parse_host E lst ?ign (?t @ [NUL]) (length ?a) (length ?t) nr = Inr (?push, buf', True, [])"
  proof (cases no_ip)
    case True
    then have "?t @ [NUL] = CHR ''*'' # at_text (b_atmac d) @ [TAB, TAB] @ mac_text (b_status d) (b_mac d) @ [NUL]"
      using assms(2) by (simp add: entry_text_def)
    from parse_host_star[OF assms(1) _ _ this, of "length ?t" E lst nr] True assms(2)
    show ?thesis by (cases m) auto
  next
    case False
    show ?thesis
    proof (cases m)
      case None
      have "?t @ [NUL] = ?a @ inet_ntoa (b_ip d) @ at_text (b_atmac d) @ [TAB, TAB] @ mac_text (b_status d) (b_mac d) @ [NUL]"
        using False None by (simp add: entry_text_def)
      from parse_host_ip[OF assms(1) this, of "length ?t" E lst nr] False None show ?thesis by simp
    next
      case (Some k)
      have "?t @ [NUL] = ?a @ inet_ntoa (b_ip d) @ CHR ''/'' # inet_ntoa k @ at_text (b_atmac d) @ [TAB, TAB] @ mac_text (b_status d) (b_mac d) @ [NUL]"
        using False Some by (simp add: entry_text_def)
      from parse_host_net[OF assms(1) this, of "length ?t" E lst nr] False Some show ?thesis by simp
    qed
  qed
  then obtain buf' where "BlackList_parseLine E lst (?t @ [NUL]) (length ?t) nr = Inr (?push, buf', True, [])"
    unfolding start by blast
  moreover have "BlackList_expandLine E nr lst (?t @ [NUL]) (length ?t) =
     bindR (BlackList_parseLine E lst (?t @ [NUL]) (length ?t) nr) (\<lambda>(lst, buf, _, w). Inr (lst, buf, True, w))"
    using entry_text_no_range[of d m no_ip] by (intro expandLine_plain) (auto simp: no_range_def list_all_iff)
  ultimately show ?thesis by simp
qed

section \<open>Netmasks\<close>

lemma push_ip_eq: "env_ok E \<Longrightarrow> push_ip E lst d = lst\<lparr>bl_ip_list := bl_ip_list lst @ [d]\<rparr>"
  using vector_lib.append_element[of "pe_ip_vec E" "bl_ip_list lst"]
  by (cases "Vector_pushback (pe_ip_vec E) (bl_ip_list lst)") (simp add: push_ip_def env_ok_def)

lemma push_net_eq: "env_ok E \<Longrightarrow> push_net E lst d = lst\<lparr>bl_net_list := bl_net_list lst @ [d]\<rparr>"
  using vector_lib.append_element[of "pe_net_vec E" "bl_net_list lst"]
  by (cases "Vector_pushback (pe_net_vec E) (bl_net_list lst)") (simp add: push_net_def env_ok_def)

lemma ntohl_prefix_mask: "n \<le> 32 \<Longrightarrow> ntohl (prefix_mask n) = push_bit (32 - n) (- 1)"
proof (cases "n < 32")
  case True
  then have "1 + (32 - n - 1) = 32 - n" by simp
  then have "push_bit 1 (push_bit (32 - n - 1) (- 1 :: u32)) = push_bit (32 - n) (- 1)"
    by (simp only: push_bit_push_bit)
  with True show ?thesis by (simp only: prefix_mask_def if_True ntohl_ntohl)
qed (simp add: prefix_mask_def ntohl_ntohl)

lemma bit_prefix_mask: "n \<le> 32 \<Longrightarrow> bit (ntohl (prefix_mask n)) k \<longleftrightarrow> 32 - n \<le> k \<and> k < 32"
  by (auto simp: ntohl_prefix_mask bit_push_bit_iff simp del: push_bit_minus_one_eq_not_mask)

lemma getBitCount_prefix_mask: "n \<le> 32 \<Longrightarrow> getBitCount (prefix_mask n) = int n"
proof -
  have "list_all (\<lambda>n. getBitCount (prefix_mask n) = int n) [0..<33]" by code_simp
  then show "n \<le> 32 \<Longrightarrow> ?thesis" by (simp add: list_all_iff)
qed

lemma dec_plain: "\<forall>c\<in>set (dec n). plain c"
  using dec_digits isdigit_plain by blast

lemma parseNetMask_number:
  assumes "n \<le> 32" "buf = a @ dec n @ [NUL]"
  shows "BlackList_parseNetMask E buf (length a) nr = Inr (buf, length a + length (dec n), Some (prefix_mask n), [])"
proof -
  have s: "cstrR buf (length a) = Inr (dec n)"
    unfolding assms(2) by (rule cstrR_text[OF plain_no_NUL[OF dec_plain]])
  have v: "strtol 0 (dec n) = (int n, length (dec n))" using strtol_dec[of 0 n "[]"] assms(1) by simp
  have r: "readR buf (length a + length (dec n)) = Inr NUL" using readR_text[of "a @ dec n" NUL "[]"] assms(2) by simp
  from s v r assms(1) show ?thesis by (simp add: BlackList_parseNetMask_def mask_end_def)
qed

lemma parse_host_number:
  assumes "n \<le> 32" "tm_type (a_mac (bl_args lst)) = mcFIXED"
    and buf: "buf = inet_ntoa ip @ CHR ''/'' # dec n @ [NUL]" and e: "length buf = Suc e"
  shows "\<exists>buf'. parse_host E lst False buf 0 e nr
     = Inr (parse_push E lst True False ip (prefix_mask n) no_atmac blSET (tm_ether (a_mac (bl_args lst))), buf', True, [])"
proof -
  let ?ip = "inet_ntoa ip" and ?delims = "[CHR ''/'', CHR ''@'', CHR '' '', TAB]"
  let ?r = "dec n @ [NUL]"
  have b: "buf = [] @ ?ip @ CHR ''/'' # ?r" by (simp add: buf)
  have lt: "length ([]::string) + length ?ip < e" using e by (auto simp: buf)
  have t: "scan_token ?delims buf (length ([]::string)) e = Inr ([] @ ?ip @ NUL # ?r, length ([]::string) + length ?ip, Some (CHR ''/''))"
    unfolding b by (rule scan_token_hit[OF plain_passes[OF inet_ntoa_plain] _ lt]) auto
  have s: "cstrR ([] @ ?ip @ NUL # ?r) (length ([]::string)) = Inr ?ip"
    by (rule cstrR_text[OF plain_no_NUL[OF inet_ntoa_plain]])
  have ia: "inet_aton ?ip = Some ip" using inet_aton_ntoa[of "[]"] by simp
  let ?a = "?ip @ [NUL]"
  have e2: "length ?a + length (dec n) = e" using e by (simp add: buf)
  have mk: "BlackList_parseNetMask E (?a @ ?r) (length ?a) nr = Inr (?a @ ?r, e, Some (prefix_mask n), [])"
    using parseNetMask_number[OF assms(1), of "?a @ ?r" ?a E nr] e2 by simp
  have rd: "readR (?a @ ?r) e = Inr NUL" using readR_text[of "?a @ dec n" NUL "[]"] e2 by simp
  have w: "BlackList_ignoreWhitespace (?a @ ?r) e = Inr e"
    unfolding BlackList_ignoreWhitespace_def using scan_while_text[of "[]" blank NUL "?a @ dec n" "[]"] e2
    by (simp add: blank_def)
  have "parse_rest E lst False True False False ip (prefix_mask n) (?a @ ?r) e e nr
      = Inr (parse_push E lst True False ip (prefix_mask n) no_atmac blSET (tm_ether (a_mac (bl_args lst))), ?a @ ?r, True, [])"
    unfolding parse_rest_def rd bindR.simps
    using w assms(2) by (simp add: parse_from_at_def parse_tail_def parse_mac_part_def BlackList_setDefaultMac_def no_atmac_def)
  with mk t s ia lt show ?thesis
    by (auto simp: parse_host_def parse_mask_part_def inet_ntoa_not_star)
qed

section \<open>Properties\<close>

text \<open>
  The line that \<open>BlackList_print\<close> writes for an address entry is read back as that entry;
  only a MAC that is neither printed nor used is not restored.
\<close>

theorem print_parse_ip:
  assumes "env_ok E" and "printable (ip_v d)"
    and "text_of (BlackList_print_internal fd (ip_v d) None False) = line @ [NL]"
  shows "\<exists>buf'. BlackList_expandLine E line_nr lst (line @ [NUL]) (length line)
     = Inr (lst\<lparr>bl_ip_list := bl_ip_list lst @ [d\<lparr>ip_v := (ip_v d)\<lparr>b_mac := stored_mac E (ip_v d)\<rparr>\<rparr>]\<rparr>, buf', True, [])"
proof -
  have "b_status (ip_v d) \<noteq> blUNDECIDED" using assms(2) by (simp add: printable_def base_wf_def)
  then have l: "line = entry_text (ip_v d) None False" using assms(3) by (simp add: print_entry_text)
  obtain buf' where "BlackList_expandLine E line_nr lst (line @ [NUL]) (length line)
     = Inr (parse_push E lst False False (b_ip (ip_v d)) 0xFFFFFFFF (b_atmac (ip_v d)) (b_status (ip_v d)) (stored_mac E (ip_v d)), buf', True, [])"
    using parse_entry_text[OF assms(2), of False E line_nr lst None] by (auto simp: l)
  then show ?thesis
    by (simp add: parse_push_def push_ip_eq[OF assms(1)])
qed

text \<open>
  The line that \<open>BlackList_print\<close> writes for a network or a \<open>*@mac\<close> entry is read back
  as that entry.
\<close>

theorem print_parse_net:
  assumes "env_ok E" and "printable (net_v d)" and "net_wf d" and "\<not> (net_no_ip d \<and> b_status (net_v d) = blIGNORE)"
    and "text_of (BlackList_print_internal fd (net_v d) (Some (net_mask d)) (net_no_ip d)) = line @ [NL]"
  shows "\<exists>buf'. BlackList_expandLine E line_nr lst (line @ [NUL]) (length line)
     = Inr (lst\<lparr>bl_net_list := bl_net_list lst @ [d\<lparr>net_v := (net_v d)\<lparr>b_mac := stored_mac E (net_v d)\<rparr>\<rparr>]\<rparr>, buf', True, [])"
proof -
  have "b_status (net_v d) \<noteq> blUNDECIDED" using assms(2) by (simp add: printable_def base_wf_def)
  then have l: "line = entry_text (net_v d) (Some (net_mask d)) (net_no_ip d)" using assms(5) by (simp add: print_entry_text)
  have wf: "b_ip (net_v d) AND net_mask d = b_ip (net_v d)"
    "net_no_ip d \<longrightarrow> net_mask d = 0 \<and> am_status (b_atmac (net_v d)) = amPOSITIVE"
    using assms(3) by (auto simp: net_wf_def)
  obtain buf' where "BlackList_expandLine E line_nr lst (line @ [NUL]) (length line)
     = Inr (parse_push E lst (\<not> net_no_ip d) (net_no_ip d) (if net_no_ip d then 0 else b_ip (net_v d))
         (if net_no_ip d then 0xFFFFFFFF else net_mask d) (b_atmac (net_v d)) (b_status (net_v d)) (stored_mac E (net_v d)), buf', True, [])"
    using parse_entry_text[OF assms(2), of "net_no_ip d" E line_nr lst "Some (net_mask d)"] wf(2) assms(4) by (auto simp: l)
  then show ?thesis
    using wf by (cases "net_no_ip d") (auto simp: parse_push_def push_net_eq[OF assms(1)] Let_def)
qed

theorem print_parse_ip_witness:
  "\<exists>line buf'. BlackList_expandLine example_env 1 empty_list (line @ [NUL]) (length line)
     = Inr (empty_list\<lparr>bl_ip_list := [\<lparr>ip_v = base_entry 0x0100000A blSET no_atmac\<rparr>]\<rparr>, buf', True, [])"
proof -
  let ?d = "\<lparr>ip_v = base_entry 0x0100000A blSET no_atmac\<rparr>"
  have p: "printable (ip_v ?d)" by code_simp
  have "text_of (BlackList_print_internal 1 (ip_v ?d) None False) = entry_text (ip_v ?d) None False @ [NL]"
    by (rule print_entry_text) (simp add: base_entry_def)
  from print_parse_ip[OF example_env_ok p this, of 1 empty_list] show ?thesis
    by (auto simp: base_entry_def empty_list_def)
qed

theorem print_parse_net_witness:
  "\<exists>line buf'. BlackList_expandLine example_env 1 empty_list (line @ [NUL]) (length line)
     = Inr (empty_list\<lparr>bl_net_list := [\<lparr>net_v = base_entry 0x0000000A blSET no_atmac, net_mask = 0x00FFFFFF, net_no_ip = False\<rparr>]\<rparr>, buf', True, [])"
proof -
  let ?d = "\<lparr>net_v = base_entry 0x0000000A blSET no_atmac, net_mask = 0x00FFFFFF, net_no_ip = False\<rparr>"
  have p: "printable (net_v ?d)" and w: "net_wf ?d" by code_simp+
  have i: "\<not> (net_no_ip ?d \<and> b_status (net_v ?d) = blIGNORE)" by simp
  have "text_of (BlackList_print_internal 1 (net_v ?d) (Some (net_mask ?d)) (net_no_ip ?d)) = entry_text (net_v ?d) (Some (net_mask ?d)) (net_no_ip ?d) @ [NL]"
    by (rule print_entry_text) (simp add: base_entry_def)
  from print_parse_net[OF example_env_ok p w i this, of 1 empty_list] show ?thesis
    by (auto simp: base_entry_def empty_list_def)
qed

text \<open>
  C28: \<open>a.b.c.d/n\<close> adds the network whose mask has, in host order, exactly the \<open>n\<close> leading bits
  set; its address is reduced to the network, and it gets the default MAC.
\<close>

theorem slash_n_network:
  assumes "env_ok E" and "tm_type (a_mac (bl_args lst)) = mcFIXED" and "n \<le> 32"
  shows "\<exists>buf' m. BlackList_expandLine E line_nr lst (inet_ntoa ip @ ''/'' @ dec n @ [NUL]) (length (inet_ntoa ip @ ''/'' @ dec n))
     = Inr (lst\<lparr>bl_net_list := bl_net_list lst @
          [\<lparr>net_v = \<lparr>b_ip = ip AND m, b_status = blSET, b_mac = tm_ether (a_mac (bl_args lst)), b_atmac = no_atmac\<rparr>,
            net_mask = m, net_no_ip = False\<rparr>]\<rparr>, buf', True, [])
     \<and> (\<forall>k. bit (ntohl m) k = (32 - n \<le> k \<and> k < 32)) \<and> getBitCount m = int n"
proof -
  let ?line = "inet_ntoa ip @ ''/'' @ dec n" and ?m = "prefix_mask n"
  obtain x xs where x: "inet_ntoa ip = x # xs" "isdigit x" by (rule inet_ntoa_hd)
  have x2: "\<not> blank x" "x \<noteq> CHR ''#''" "x \<noteq> CHR ''!''" using x(2) by (auto simp: blank_def isdigit_def)
  have "BlackList_parseLine E lst (?line @ [NUL]) (length ?line) line_nr = parse_host E lst False (?line @ [NUL]) 0 (length ?line) line_nr"
    using parseLine_start[of "?line @ [NUL]" False x "xs @ ''/'' @ dec n @ [NUL]" "length ?line" E lst line_nr] x(1) x2
    by simp
  moreover obtain buf' where "parse_host E lst False (?line @ [NUL]) 0 (length ?line) line_nr
     = Inr (parse_push E lst True False ip ?m no_atmac blSET (tm_ether (a_mac (bl_args lst))), buf', True, [])"
    using parse_host_number[OF assms(3,2), of "?line @ [NUL]" ip "length ?line" E line_nr] by auto
  moreover have "BlackList_expandLine E line_nr lst (?line @ [NUL]) (length ?line) =
     bindR (BlackList_parseLine E lst (?line @ [NUL]) (length ?line) line_nr) (\<lambda>(lst, buf, _, w). Inr (lst, buf, True, w))"
    using plain_no_range[OF inet_ntoa_plain[of ip]] plain_no_range[OF dec_plain[of n]]
    by (intro expandLine_plain) (auto simp: no_range_def list_all_iff)
  ultimately have "BlackList_expandLine E line_nr lst (?line @ [NUL]) (length ?line) = Inr (lst\<lparr>bl_net_list := bl_net_list lst @
          [\<lparr>net_v = \<lparr>b_ip = ip AND ?m, b_status = blSET, b_mac = tm_ether (a_mac (bl_args lst)), b_atmac = no_atmac\<rparr>,
            net_mask = ?m, net_no_ip = False\<rparr>]\<rparr>, buf', True, [])"
    by (simp add: parse_push_def push_net_eq[OF assms(1)] Let_def)
  then show ?thesis
    using bit_prefix_mask[OF assms(3)] getBitCount_prefix_mask[OF assms(3)] by auto
qed

theorem slash_n_network_witness:
  "\<exists>buf' m. BlackList_expandLine example_env 1 empty_list (inet_ntoa 0x0000000A @ ''/'' @ dec 24 @ [NUL]) (length (inet_ntoa 0x0000000A @ ''/'' @ dec 24))
     = Inr (empty_list\<lparr>bl_net_list := bl_net_list empty_list @
          [\<lparr>net_v = \<lparr>b_ip = 0x0000000A AND m, b_status = blSET, b_mac = tm_ether (a_mac (bl_args empty_list)), b_atmac = no_atmac\<rparr>,
            net_mask = m, net_no_ip = False\<rparr>]\<rparr>, buf', True, [])
     \<and> (\<forall>k. bit (ntohl m) k = (32 - 24 \<le> k \<and> k < 32)) \<and> getBitCount m = int 24"
  by (rule slash_n_network[OF example_env_ok]) (simp_all add: empty_list_def default_arguments_def)

end
