(* ===== verification/Parser_Locality.thy ===== *)
theory Parser_Locality
  imports Blacklist_Print
begin

text \<open>
  Locality of the scanner: what a line parses to does not depend on the bytes behind its terminating
  NUL, and these bytes stay as they are. The code parses a line where it lies in the read
  buffer or in a block of \<open>alloca\<close>; by locality the result is that of the line alone.
\<close>

named_theorems local_simps \<open>results that are kept when bytes are appended to the buffer\<close>

section \<open>Memory accesses\<close>

lemma readR_local [local_simps]: "readR b i = Inr c \<Longrightarrow> readR (b @ j) i = Inr c"
  by (auto simp: readR_def nth_append split: if_splits)

lemma pokeR_local [local_simps]: "pokeR b i c = Inr b' \<Longrightarrow> pokeR (b @ j) i c = Inr (b' @ j)"
  by (auto simp: pokeR_def list_update_append split: if_splits)

lemma cstrR_local [local_simps]: "cstrR b i = Inr s \<Longrightarrow> cstrR (b @ j) i = Inr s"
  by (auto simp: cstrR_def cstr_def takeWhile_append1 split: if_splits)

lemma sliceR_local [local_simps]: "sliceR b i n = Inr s \<Longrightarrow> sliceR (b @ j) i n = Inr s"
  by (auto simp: sliceR_def split: if_splits)

section \<open>Scanners\<close>

lemma scan_while_local [local_simps]: "scan_while P b i = Inr k \<Longrightarrow> scan_while P (b @ j) i = Inr k"
proof (induction P b i rule: scan_while.induct)
  case (1 P b i)
  from "1.prems" have "i < length b" by (subst (asm) scan_while.simps) (auto split: if_splits)
  with 1 show ?case
    by (subst scan_while.simps, subst (asm) (2) scan_while.simps) (auto simp: nth_append split: if_splits)
qed

lemma ignoreWhitespace_local [local_simps]:
  "BlackList_ignoreWhitespace b i = Inr k \<Longrightarrow> BlackList_ignoreWhitespace (b @ j) i = Inr k"
  unfolding BlackList_ignoreWhitespace_def by (rule scan_while_local)

lemma scan_token_local [local_simps]:
  "scan_token d b pos e = Inr (b', k, hit) \<Longrightarrow> scan_token d (b @ j) pos e = Inr (b' @ j, k, hit)"
proof (induction d b pos e rule: scan_token.induct)
  case (1 d b pos e)
  show ?case
  proof (cases "pos < e")
    case True
    with "1.prems" obtain c where c: "readR b pos = Inr c" by (subst (asm) scan_token.simps) (auto simp: run_simps)
    then have b: "c = b ! pos" "pos < length b" by (auto simp: readR_def split: if_splits)
    show ?thesis
    proof (cases "c \<in> set d \<or> c = NUL")
      case True
      with \<open>pos < e\<close> "1.prems" c show ?thesis
        by (subst scan_token.simps, subst (asm) scan_token.simps) (auto simp: run_simps local_simps split: if_splits)
    next
      case False
      with \<open>pos < e\<close> "1.prems" c "1.IH"[of c] show ?thesis
        by (subst scan_token.simps, subst (asm) (2) scan_token.simps) (auto simp: run_simps local_simps split: if_splits)
    qed
  next
    case False
    with "1.prems" show ?thesis by (subst scan_token.simps, subst (asm) scan_token.simps) auto
  qed
qed

section \<open>Parts of a line\<close>

lemma parseMac_local [local_simps]:
  "BlackList_parseMac E b s nr = Inr r \<Longrightarrow> BlackList_parseMac E (b @ j) s nr = Inr r"
  by (auto elim!: bindR_InrE simp: BlackList_parseMac_def local_simps assertR_def)

lemma parseNetMask_local [local_simps]:
  "BlackList_parseNetMask E b s nr = Inr (b', k, m, w) \<Longrightarrow> BlackList_parseNetMask E (b @ j) s nr = Inr (b' @ j, k, m, w)"
  by (auto elim!: bindR_InrE simp: BlackList_parseNetMask_def local_simps assertR_def Let_def split: prod.splits option.splits if_splits)

lemma parse_atmac_mac_local [local_simps]:
  "parse_atmac_mac E st b s e nr = Inr (b', k, m, w) \<Longrightarrow> parse_atmac_mac E st (b @ j) s e nr = Inr (b' @ j, k, m, w)"
  by (auto elim!: bindR_InrE simp: parse_atmac_mac_def local_simps assertR_def split: option.splits)

lemma parse_atmac_local [local_simps]:
  "parse_atmac E b s e nr = Inr (b', k, m, w) \<Longrightarrow> parse_atmac E (b @ j) s e nr = Inr (b' @ j, k, m, w)"
  by (auto elim!: bindR_InrE simp: parse_atmac_def local_simps assertR_def split: if_splits)

lemma parse_mac_word_local [local_simps]:
  "parse_mac_word E ig b s e nr = Inr (b', m, w) \<Longrightarrow> parse_mac_word E ig (b @ j) s e nr = Inr (b' @ j, m, w)"
  by (auto elim!: bindR_InrE simp: parse_mac_word_def local_simps assertR_def split: if_splits)

lemma parse_mac_part_local [local_simps]:
  "parse_mac_part E lst ig b s e nr = Inr (b', m, w) \<Longrightarrow> parse_mac_part E lst ig (b @ j) s e nr = Inr (b' @ j, m, w)"
  by (auto elim!: bindR_InrE simp: parse_mac_part_def local_simps assertR_def split: if_splits)

lemma parse_tail_local [local_simps]:
  "parse_tail E lst ig hm ii ip m am b s e nr = Inr (l, b', ok, w)
   \<Longrightarrow> parse_tail E lst ig hm ii ip m am (b @ j) s e nr = Inr (l, b' @ j, ok, w)"
  by (auto elim!: bindR_InrE simp: parse_tail_def local_simps assertR_def split: if_splits option.splits prod.splits)

lemma parse_from_at_local [local_simps]:
  "parse_from_at E lst ig hm ha ii ip m b s e nr = Inr (l, b', ok, w)
   \<Longrightarrow> parse_from_at E lst ig hm ha ii ip m (b @ j) s e nr = Inr (l, b' @ j, ok, w)"
  by (auto elim!: bindR_InrE simp: parse_from_at_def local_simps assertR_def split: if_splits option.splits)

lemma parse_rest_local [local_simps]:
  "parse_rest E lst ig hm ha ii ip m b s e nr = Inr (l, b', ok, w)
   \<Longrightarrow> parse_rest E lst ig hm ha ii ip m (b @ j) s e nr = Inr (l, b' @ j, ok, w)"
  by (auto elim!: bindR_InrE simp: parse_rest_def local_simps assertR_def split: if_splits)

lemma parse_mask_part_local [local_simps]:
  "parse_mask_part E lst ig hm ha ii ip b s e nr = Inr (l, b', ok, w)
   \<Longrightarrow> parse_mask_part E lst ig hm ha ii ip (b @ j) s e nr = Inr (l, b' @ j, ok, w)"
  by (auto elim!: bindR_InrE simp: parse_mask_part_def local_simps assertR_def split: if_splits option.splits)

lemma parse_host_local [local_simps]:
  "parse_host E lst ig b s e nr = Inr (l, b', ok, w) \<Longrightarrow> parse_host E lst ig (b @ j) s e nr = Inr (l, b' @ j, ok, w)"
  by (auto elim!: bindR_InrE simp: parse_host_def local_simps assertR_def Let_def split: if_splits option.splits)

lemma parseLine_local [local_simps]:
  "BlackList_parseLine E lst b e nr = Inr (l, b', ok, w) \<Longrightarrow> BlackList_parseLine E lst (b @ j) e nr = Inr (l, b' @ j, ok, w)"
  by (auto elim!: bindR_InrE simp: BlackList_parseLine_def local_simps assertR_def split: if_splits)

section \<open>Ranges\<close>

lemma expand_scan_local [local_simps]:
  "expand_scan b i e rs rt = Inr sc \<Longrightarrow> expand_scan (b @ j) i e rs rt = Inr sc"
proof (induction b i e rs rt rule: expand_scan.induct)
  case (1 b i e rs rt)
  show ?case
  proof (cases "i < e")
    case True
    with "1.prems" obtain c where c: "readR b i = Inr c" by (subst (asm) expand_scan.simps) (auto simp: run_simps)
    show ?thesis
      using "1.prems" "1.IH"[OF True, of c] True c
      unfolding expand_scan.simps[of b i e rs rt] expand_scan.simps[of "b @ j" i e rs rt]
      by (auto elim!: bindR_InrE simp: local_simps Let_def split: if_splits option.splits)
  next
    case False
    with "1.prems" show ?thesis by (subst expand_scan.simps, subst (asm) expand_scan.simps) auto
  qed
qed

lemma iterateList_local [local_simps]:
  "BlackList_iterateList x p post b ls le ptr lst nb = Inr r \<Longrightarrow> BlackList_iterateList x p post (b @ j) ls le ptr lst nb = Inr r"
proof (induction x p post b ls le ptr lst nb arbitrary: r rule: BlackList_iterateList.induct)
  case (1 x p post b ls le ptr lst nb)
  show ?case
  proof (cases "ptr \<le> le")
    case True
    with "1.prems" obtain c where c: "readR b ptr = Inr c" by (subst (asm) BlackList_iterateList.simps) (auto simp: run_simps)
    show ?thesis
      using "1.prems" "1.IH"[OF True, of c] True c
      unfolding BlackList_iterateList.simps[of x p post b ls le ptr lst nb] BlackList_iterateList.simps[of x p post "b @ j" ls le ptr lst nb]
      by (auto elim!: bindR_InrE simp: local_simps split: if_splits)
  next
    case False
    with "1.prems" show ?thesis by (subst BlackList_iterateList.simps, subst (asm) BlackList_iterateList.simps) auto
  qed
qed

lemma iterateRange_local [local_simps]:
  "BlackList_iterateRange E x p post b ls le lst nb nr = Inr r \<Longrightarrow> BlackList_iterateRange E x p post (b @ j) ls le lst nb nr = Inr r"
  by (auto elim!: bindR_InrE simp: BlackList_iterateRange_def local_simps assertR_def Let_def split: prod.splits if_splits)

lemma expand_line_local:
  "expand_line n E nr lst b e = Inr (l, b', ok, w) \<Longrightarrow> expand_line n E nr lst (b @ j) e = Inr (l, b' @ j, ok, w)"
  by (cases n) (auto elim!: bindR_InrE simp: local_simps assertR_def Let_def split: line_scan.splits if_splits range_type.splits)

lemma expandLine_local:
  assumes "BlackList_expandLine E nr lst b e = Inr (l, b', ok, w)" "e \<le> length b"
  shows "BlackList_expandLine E nr lst (b @ j) e = Inr (l, b' @ j, ok, w)"
  using assms expand_line_local by (simp add: BlackList_expandLine_def expand_depth_def del: expand_line.simps)

end
