(* ===== verification/Range_Expansion.thy ===== *)
theory Range_Expansion
  imports Parser_Locality
begin

text \<open>
  What ranges mean: a line with \<open>{a,b,c}\<close> or \<open>{a-b}\<close> in its address part stands for the lines in which
  the range is replaced by each of its values. The copies share one buffer, and the
  delimiters that parsing one copy overwrites are not restored in the part before the range;
  so the statement needs a prefix without delimiters, and fails for a range in the netmask.
\<close>

section \<open>Reference\<close>

fun expand_all :: "parse_env \<Rightarrow> nat \<Rightarrow> BlackList \<Rightarrow> string list \<Rightarrow> (BlackList \<times> bool \<times> writes) run" where
  "expand_all E nr lst [] = Inr (lst, True, [])"
| "expand_all E nr lst (l # ls) =
     bindR (BlackList_expandLine E nr lst (l @ [NUL]) (length l)) (\<lambda>(lst, _, ok, w).
     if \<not> ok then Inr (lst, False, w)
     else bindR (expand_all E nr lst ls) (\<lambda>(lst, ok, w'). Inr (lst, ok, w @ w')))"

definition host_prefix :: "string \<Rightarrow> bool" where
  "host_prefix p \<longleftrightarrow> (\<forall>c\<in>set p. c \<notin> delims \<and> c \<notin> {CHR ''{'', CHR ''}'', CHR ''-'', CHR '',''})"

section \<open>One item\<close>

lemma line_upd_prefix:
  assumes "line_upd e b b'" "take n b = p" "\<forall>c\<in>set p. c \<notin> delims"
  shows "take n b' = p"
proof (rule nth_equalityI)
  have l: "length b' = length b" using assms(1) by (simp add: line_upd_def)
  show len: "length (take n b') = length p" using l arg_cong[OF assms(2), of length] by simp
  fix i assume "i < length (take n b')"
  then have i: "i < n" "i < length b" "i < length p" using l len by auto
  have "p ! i = b ! i" using assms(2) i by auto
  moreover have "p ! i \<notin> delims" using assms(3) i(3) nth_mem by blast
  ultimately have "b' ! i = p ! i" using assms(1) i(2) unfolding line_upd_def by metis
  with i show "take n b' ! i = p ! i" by simp
qed

lemma expand_item_fresh:
  assumes "env_ok E" "default_ok (bl_args lst)" "host_prefix p" "CHR ''{'' \<notin> set item"
    and nb: "take (length p) nb = p" "length p + length item + length q < length nb"
    and x: "BlackList_expandLine E nr lst ((p @ item @ q) @ [NUL]) (length (p @ item @ q)) = Inr (l, b, ok, w)"
  shows "\<exists>nb'. expand_item (expand_line (Suc (count_list q (CHR ''{''))) E nr) (length p) q lst nb item = Inr (l, nb', ok, w)
     \<and> take (length p) nb' = p \<and> length nb' = length nb \<and> bl_args l = bl_args lst"
proof -
  let ?n = "length p + length item + length q"
  let ?r = "drop (Suc ?n) nb"
  have cnt: "count_list p (CHR ''{'') = 0" "count_list item (CHR ''{'') = 0"
    using assms(3,4) by (auto simp: count_list_0_iff host_prefix_def)
  have il: "item_line (length p) q nb item = ((p @ item @ q) @ [NUL]) @ ?r"
    by (simp add: item_line_def nb(1) add.assoc)
  have d: "expand_depth (item_line (length p) q nb item) ?n = Suc (count_list q (CHR ''{''))"
    by (simp add: expand_depth_def il cnt)
  have loc: "BlackList_expandLine E nr lst (item_line (length p) q nb item) ?n = Inr (l, b @ ?r, ok, w)"
    using expandLine_local[OF x, of ?r] by (simp add: il add.assoc)
  then have "expand_item (expand_line (Suc (count_list q (CHR ''{''))) E nr) (length p) q lst nb item = Inr (l, b @ ?r, ok, w)"
    unfolding expand_item_eq[OF nb(2)] BlackList_expandLine_def d .
  moreover have u: "line_upd ?n (item_line (length p) q nb item) (b @ ?r)" "bl_args l = bl_args lst"
    using expandLine_spec[OF assms(1,2) item_line_buf(1)[OF nb(2)], of nr] loc by (auto simp: line_post_def dest: grows_args)
  moreover have "take (length p) (b @ ?r) = p"
    by (rule line_upd_prefix[OF u(1)]) (use item_line_buf(3)[OF nb(2)] nb(1) assms(3) in \<open>auto simp: host_prefix_def\<close>)
  moreover have "length (b @ ?r) = length nb"
    using u(1) length_item_line[OF nb(2)] by (simp add: line_upd_def)
  ultimately show ?thesis by blast
qed

section \<open>Finding the range\<close>

definition scan_plain :: "nat option \<Rightarrow> char \<Rightarrow> bool" where
  "scan_plain rs c \<longleftrightarrow> c \<notin> {CHR ''#'', CHR ''{'', CHR ''}'', CHR ''-'', CHR '',''} \<and> (rs \<noteq> None \<longrightarrow> isdigit c)"

lemma expand_scan_skip:
  assumes "\<forall>c\<in>set s. scan_plain rs c" "length (a @ s) \<le> e"
  shows "expand_scan (a @ s @ r) (length a) e rs rt = expand_scan (a @ s @ r) (length (a @ s)) e rs rt"
  using assms
proof (induction s arbitrary: a)
  case (Cons c s)
  have "expand_scan (a @ (c # s) @ r) (length a) e rs rt = expand_scan ((a @ [c]) @ s @ r) (length (a @ [c])) e rs rt"
    using Cons.prems by (subst expand_scan.simps) (auto simp: scan_plain_def nth_append)
  also have "\<dots> = expand_scan ((a @ [c]) @ s @ r) (length ((a @ [c]) @ s)) e rs rt"
    by (rule Cons.IH) (use Cons.prems in auto)
  finally show ?case by simp
qed simp

lemma scan_step:
  assumes "length a < e"
  shows "expand_scan (a @ CHR ''{'' # r) (length a) e None rt = expand_scan (a @ CHR ''{'' # r) (Suc (length a)) e (Some (length a)) rgUNDECIDED"
    "rt = rgUNDECIDED \<or> rt = rgLIST \<Longrightarrow> expand_scan (a @ CHR '','' # r) (length a) e (Some s) rt = expand_scan (a @ CHR '','' # r) (Suc (length a)) e (Some s) rgLIST"
    "expand_scan (a @ CHR ''-'' # r) (length a) e (Some s) rgUNDECIDED = expand_scan (a @ CHR ''-'' # r) (Suc (length a)) e (Some s) rgRANGE"
    "expand_scan (a @ CHR ''}'' # r) (length a) e (Some s) rt = Inr (ScanRange s (length a) rt)"
  using assms by (subst expand_scan.simps; auto)+

lemma digits_plain: "\<forall>c\<in>set s. isdigit c \<Longrightarrow> \<forall>c\<in>set s. scan_plain rs c"
  by (auto simp: scan_plain_def isdigit_def)

lemma prefix_plain: "host_prefix p \<Longrightarrow> \<forall>c\<in>set p. scan_plain None c"
  by (auto simp: scan_plain_def host_prefix_def delims_def)

fun join :: "string list \<Rightarrow> string" where
  "join [] = []"
| "join [x] = x"
| "join (x # xs) = x @ CHR '','' # join xs"

lemma expand_scan_items:
  assumes "\<forall>i\<in>set items. \<forall>c\<in>set i. isdigit c" "items \<noteq> []" "rt = rgUNDECIDED \<or> rt = rgLIST"
    and "length (a @ join items) < e"
  shows "expand_scan (a @ join items @ CHR ''}'' # r) (length a) e (Some s) rt
    = Inr (ScanRange s (length (a @ join items)) (if length items = 1 then rt else rgLIST))"
  using assms
proof (induction items arbitrary: a rt rule: join.induct)
  case (2 x)
  have "expand_scan (a @ x @ CHR ''}'' # r) (length a) e (Some s) rt = expand_scan (a @ x @ CHR ''}'' # r) (length (a @ x)) e (Some s) rt"
    by (rule expand_scan_skip) (use 2 digits_plain in auto)
  also have "\<dots> = Inr (ScanRange s (length (a @ x)) rt)"
    using scan_step(4)[of "a @ x" e r s rt] 2 by simp
  finally show ?case by simp
next
  case (3 x y zs)
  let ?r = "join (y # zs) @ CHR ''}'' # r"
  have "expand_scan (a @ x @ CHR '','' # ?r) (length a) e (Some s) rt = expand_scan (a @ x @ CHR '','' # ?r) (length (a @ x)) e (Some s) rt"
    by (rule expand_scan_skip) (use 3 digits_plain in auto)
  also have "\<dots> = expand_scan (a @ x @ CHR '','' # ?r) (Suc (length (a @ x))) e (Some s) rgLIST"
    using scan_step(2)[of "a @ x" e rt ?r s] 3 by simp
  also have "\<dots> = Inr (ScanRange s (length (a @ join (x # y # zs))) rgLIST)"
    using "3.IH"[of rgLIST "a @ x @ '',''"] 3 by simp
  finally show ?case by simp
qed simp

section \<open>Lists\<close>

declare expand_line.simps [simp del]

lemma iterateList_skip:
  assumes "\<forall>c\<in>set s. c \<noteq> CHR '',''" "length (a @ s) \<le> le"
  shows "BlackList_iterateList x p post (a @ s @ r) ls le (length a) lst nb = BlackList_iterateList x p post (a @ s @ r) ls le (length (a @ s)) lst nb"
  using assms
proof (induction s arbitrary: a)
  case (Cons c s)
  have "BlackList_iterateList x p post (a @ (c # s) @ r) ls le (length a) lst nb
      = BlackList_iterateList x p post ((a @ [c]) @ s @ r) ls le (length (a @ [c])) lst nb"
    using Cons.prems by (subst BlackList_iterateList.simps) (auto simp: nth_append)
  also have "\<dots> = BlackList_iterateList x p post ((a @ [c]) @ s @ r) ls le (length ((a @ [c]) @ s)) lst nb"
    by (rule Cons.IH) (use Cons.prems in auto)
  finally show ?case by simp
qed simp

lemma iterateList_item:
  assumes "\<forall>c\<in>set i. c \<noteq> CHR '',''" "length (a @ i) \<le> le" "c = CHR '','' \<or> length (a @ i) = le"
    and "expand_item x p post lst nb i = Inr (l1, nb1, ok, w1)"
  shows "BlackList_iterateList x p post (a @ i @ c # r) (length a) le (length a) lst nb =
    (if \<not> ok then Inr (l1, nb1, False, w1)
     else bindR (BlackList_iterateList x p post (a @ i @ c # r) (Suc (length (a @ i))) le (Suc (length (a @ i))) l1 nb1)
       (\<lambda>(lst, nb, ok, w'). Inr (lst, nb, ok, w1 @ w')))"
proof -
  have "BlackList_iterateList x p post (a @ i @ c # r) (length a) le (length a) lst nb
      = BlackList_iterateList x p post (a @ i @ c # r) (length a) le (length (a @ i)) lst nb"
    by (rule iterateList_skip[OF assms(1,2)])
  moreover have "readR (a @ i @ c # r) (length (a @ i)) = Inr c" "sliceR (a @ i @ c # r) (length a) (length (a @ i) - length a) = Inr i"
    by (simp_all add: readR_def sliceR_def nth_append)
  ultimately show ?thesis
    using assms(2,3,4) by (subst (asm) (2) BlackList_iterateList.simps) auto
qed

lemma iterateList_all:
  assumes "env_ok E" "host_prefix p" "\<forall>i\<in>set items. \<forall>c\<in>set i. isdigit c" "items \<noteq> []"
    and "default_ok (bl_args lst)" "take (length p) nb = p" "\<forall>i\<in>set items. length p + length i + length q < length nb"
    and "expand_all E nr lst (map (\<lambda>i. p @ i @ q) items) = Inr (l, ok, w)"
  shows "\<exists>nb'. BlackList_iterateList (expand_line (Suc (count_list q (CHR ''{''))) E nr) (length p) q (a @ join items @ CHR ''}'' # r)
     (length a) (length (a @ join items)) (length a) lst nb = Inr (l, nb', ok, w)"
  using assms(3-)
proof (induction items arbitrary: a lst nb w rule: join.induct)
  case (2 i)
  let ?x = "expand_line (Suc (count_list q (CHR ''{''))) E nr"
  from "2.prems"(6) obtain l1 b ok1 w1 where
    x: "BlackList_expandLine E nr lst ((p @ i @ q) @ [NUL]) (length (p @ i @ q)) = Inr (l1, b, ok1, w1)" "l = l1" "ok = ok1" "w = w1"
    by (auto elim!: bindR_InrE split: if_splits)
  have i: "CHR ''{'' \<notin> set i" "\<forall>c\<in>set i. c \<noteq> CHR '',''" using "2.prems"(1) by (auto simp: isdigit_def)
  have len: "length p + length i + length q < length nb" using "2.prems"(5) by simp
  obtain nb1 where e: "expand_item ?x (length p) q lst nb i = Inr (l1, nb1, ok1, w1)"
    using expand_item_fresh[OF assms(1) "2.prems"(3) assms(2) i(1) "2.prems"(4) len x(1)] by blast
  have end_of_list: "BlackList_iterateList ?x (length p) q (a @ i @ CHR ''}'' # r) (Suc (length (a @ i))) (length (a @ i)) (Suc (length (a @ i))) l1 nb1 = Inr (l1, nb1, True, [])"
    by (subst BlackList_iterateList.simps) simp
  show ?case
    using iterateList_item[OF i(2) _ _ e, of a "length (a @ i)" "CHR ''}''" r] end_of_list x by auto
next
  case (3 i y zs)
  let ?x = "expand_line (Suc (count_list q (CHR ''{''))) E nr"
  let ?J = "join (y # zs)"
  from "3.prems"(6) obtain l1 b ok1 w1 where
    x: "BlackList_expandLine E nr lst ((p @ i @ q) @ [NUL]) (length (p @ i @ q)) = Inr (l1, b, ok1, w1)"
    by (auto elim!: bindR_InrE)
  have i: "CHR ''{'' \<notin> set i" "\<forall>c\<in>set i. c \<noteq> CHR '',''" using "3.prems"(1) by (auto simp: isdigit_def)
  have len: "length p + length i + length q < length nb" using "3.prems"(5) by simp
  obtain nb1 where e: "expand_item ?x (length p) q lst nb i = Inr (l1, nb1, ok1, w1)"
    "take (length p) nb1 = p" "length nb1 = length nb" "bl_args l1 = bl_args lst"
    using expand_item_fresh[OF assms(1) "3.prems"(3) assms(2) i(1) "3.prems"(4) len x] by blast
  note it = iterateList_item[OF i(2) _ _ e(1), of a "length (a @ i @ CHR '','' # ?J)" "CHR '',''" "?J @ CHR ''}'' # r"]
  show ?case
  proof (cases ok1)
    case True
    with x "3.prems"(6) obtain w2 where
      w2: "expand_all E nr l1 (map (\<lambda>i. p @ i @ q) (y # zs)) = Inr (l, ok, w2)" "w = w1 @ w2"
      by (auto elim!: bindR_InrE simp del: expand_all.simps(2) simp: expand_all.simps(2)[of E nr lst])
    obtain nb2 where "BlackList_iterateList ?x (length p) q ((a @ i @ '','') @ ?J @ CHR ''}'' # r)
        (length (a @ i @ '','')) (length ((a @ i @ '','') @ ?J)) (length (a @ i @ '','')) l1 nb1 = Inr (l, nb2, ok, w2)"
      using "3.IH"[of l1 nb1 w2 "a @ i @ '',''"] w2(1) "3.prems"(1,3,5) e(2-4) by auto
    then show ?thesis using it True w2(2) by simp
  next
    case False
    then have "l = l1" "ok = False" "w = w1" using x "3.prems"(6) by auto
    with it False show ?thesis by simp
  qed
qed simp

lemma expandLine_range:
  assumes "expand_scan (line @ [NUL]) 0 (length line) None rgUNDECIDED = Inr (ScanRange s r t)" "s < r" "r < length line"
  shows "BlackList_expandLine E nr lst (line @ [NUL]) (length line) =
    (let nb = take s line @ drop s (map (pe_stack E) [0..<length line]);
         post = drop (Suc r) line; x = expand_line (count_list line (CHR ''{'')) E nr in
     bindR (case t of
                rgUNDECIDED \<Rightarrow> Inr (lst, nb, False, PARSE_ERRROR E nr ''can not parse range'')
              | rgLIST \<Rightarrow> BlackList_iterateList x s post (line @ [NUL]) (Suc s) r (Suc s) lst nb
              | rgRANGE \<Rightarrow> BlackList_iterateRange E x s post (line @ [NUL]) (Suc s) r lst nb nr)
       (\<lambda>(lst, nb, ok, w). Inr (lst, line @ [NUL], ok, w)))"
  using assms
  by (simp add: BlackList_expandLine_def expand_line.simps expand_depth_def Let_def sliceR_def memcpyR_def min_def del: drop_map)

lemma scan_to_brace:
  assumes "host_prefix p" "length p < e"
  shows "expand_scan (p @ CHR ''{'' # r) 0 e None rgUNDECIDED
     = expand_scan ((p @ ''{'') @ r) (length (p @ ''{'')) e (Some (length p)) rgUNDECIDED"
  using expand_scan_skip[OF prefix_plain[OF assms(1)], of "[]" e "CHR ''{'' # r" rgUNDECIDED] scan_step(1)[OF assms(2)] assms(2)
  by simp

lemma count_brace_line:
  "host_prefix p \<Longrightarrow> CHR ''{'' \<notin> set s \<Longrightarrow> count_list (p @ ''{'' @ s @ ''}'' @ q) (CHR ''{'') = Suc (count_list q (CHR ''{''))"
  by (auto simp: host_prefix_def count_list_0_iff)

lemma join_no_brace: "\<forall>i\<in>set items. \<forall>c\<in>set i. isdigit c \<Longrightarrow> CHR ''{'' \<notin> set (join items)"
  by (induction items rule: join.induct) (auto simp: isdigit_def)

lemma length_join: "i \<in> set items \<Longrightarrow> length i \<le> length (join items)"
  by (induction items rule: join.induct) auto

lemma list_line:
  assumes "env_ok E" "default_ok (bl_args lst)" "host_prefix p" "\<forall>i\<in>set items. \<forall>c\<in>set i. isdigit c" "2 \<le> length items"
    and "expand_all E nr lst (map (\<lambda>i. p @ i @ q) items) = Inr (lst', ok, w)"
    and line: "line = p @ ''{'' @ join items @ ''}'' @ q"
  shows "BlackList_expandLine E nr lst (line @ [NUL]) (length line) = Inr (lst', line @ [NUL], ok, w)"
proof -
  let ?a = "p @ ''{''" and ?r = "q @ [NUL]"
  have ne: "items \<noteq> []" "length items \<noteq> 1" using assms(5) by auto
  have buf: "line @ [NUL] = p @ CHR ''{'' # join items @ CHR ''}'' # ?r" by (simp add: line)
  have sc: "expand_scan (line @ [NUL]) 0 (length line) None rgUNDECIDED = Inr (ScanRange (length p) (length (?a @ join items)) rgLIST)"
    using scan_to_brace[OF assms(3), of "length line" "join items @ CHR ''}'' # ?r"]
      expand_scan_items[OF assms(4) ne(1), of rgUNDECIDED ?a "length line" ?r "length p"] ne(2)
    by (simp add: buf line)
  let ?nb = "take (length p) line @ drop (length p) (map (pe_stack E) [0..<length line])"
  have nb: "take (length p) ?nb = p" "length ?nb = length line" by (simp_all add: line)
  have fit: "\<forall>i\<in>set items. length p + length i + length q < length ?nb"
    using length_join unfolding nb(2) by (fastforce simp: line)
  obtain nb' where it: "BlackList_iterateList (expand_line (Suc (count_list q (CHR ''{''))) E nr) (length p) q (?a @ join items @ CHR ''}'' # ?r)
     (length ?a) (length (?a @ join items)) (length ?a) lst ?nb = Inr (lst', nb', ok, w)"
    using iterateList_all[OF assms(1,3,4) ne(1) assms(2) nb(1) fit assms(6), of ?a ?r] by blast
  have post: "drop (Suc (length (?a @ join items))) line = q" by (simp add: line)
  have cnt: "count_list line (CHR ''{'') = Suc (count_list q (CHR ''{''))"
    using count_brace_line[OF assms(3) join_no_brace[OF assms(4)]] line by simp
  have lt: "length p < length (?a @ join items)" "length (?a @ join items) < length line" by (simp_all add: line)
  show ?thesis
    using it unfolding expandLine_range[OF sc lt] Let_def post cnt
    by (simp add: buf)
qed

section \<open>Numeric ranges\<close>

lemma range_loop_all:
  assumes "env_ok E" "host_prefix p" "n < 2 ^ 31 - 1"
    and "default_ok (bl_args lst)" "take (length p) nb = p" "\<forall>i\<in>{m..n}. length p + length (dec i) + length q < length nb"
    and "expand_all E nr lst (map (\<lambda>i. p @ dec i @ q) [m..<Suc n]) = Inr (l, ok, w)"
  shows "\<exists>nb'. range_loop E (expand_line (Suc (count_list q (CHR ''{''))) E nr) (length p) q (int m) (int n) lst nb = Inr (l, nb', ok, w)"
  using assms(4-)
proof (induction "Suc n - m" arbitrary: m lst nb w)
  case 0
  then show ?case by (subst range_loop.simps) simp
next
  case (Suc k)
  let ?x = "expand_line (Suc (count_list q (CHR ''{''))) E nr"
  have m: "m \<le> n" "[m..<Suc n] = m # [Suc m..<Suc n]" using Suc.hyps(2) by (auto simp: upt_conv_Cons)
  from Suc.prems(4) obtain l1 b ok1 w1 where
    x: "BlackList_expandLine E nr lst ((p @ dec m @ q) @ [NUL]) (length (p @ dec m @ q)) = Inr (l1, b, ok1, w1)"
    unfolding m(2) by (auto elim!: bindR_InrE)
  have len: "length p + length (dec m) + length q < length nb" using Suc.prems(3) m(1) by simp
  obtain nb1 where e: "expand_item ?x (length p) q lst nb (dec m) = Inr (l1, nb1, ok1, w1)"
    "take (length p) nb1 = p" "length nb1 = length nb" "bl_args l1 = bl_args lst"
    using expand_item_fresh[OF assms(1) Suc.prems(1) assms(2) dec_no_brace Suc.prems(2) len x] by blast
  have f: "fmt_uint (pe_fmt E) (nat (int m)) = dec m" using assms(1,3) m(1) by (simp add: env_ok_def fmt_uint_decimal_def)
  have step: "range_loop E ?x (length p) q (int m) (int n) lst nb =
     (if \<not> ok1 then Inr (l1, nb1, False, w1)
      else bindR (range_loop E ?x (length p) q (int (Suc m)) (int n) l1 nb1) (\<lambda>(lst, nb, ok, w'). Inr (lst, nb, ok, w1 @ w')))"
    using m(1) assms(3) e(1) f by (subst range_loop.simps) (auto simp: add.commute)
  show ?case
  proof (cases ok1)
    case True
    with x Suc.prems(4) obtain w2 where
      w2: "expand_all E nr l1 (map (\<lambda>i. p @ dec i @ q) [Suc m..<Suc n]) = Inr (l, ok, w2)" "w = w1 @ w2"
      unfolding m(2) by (auto elim!: bindR_InrE simp del: upt_Suc)
    then show ?thesis
      using Suc.hyps(1)[of "Suc m" l1 nb1 w2] m(1) Suc.hyps(2) Suc.prems(1,3) e(2-4) step True by (auto simp: Suc_diff_le)
  next
    case False
    then have "l = l1" "ok = False" "w = w1" using x Suc.prems(4) unfolding m(2) by auto
    with step False show ?thesis by simp
  qed
qed

lemma to_int32_nat: "m < 2 ^ 31 \<Longrightarrow> to_int32 (int m) = int m"
  by (simp add: to_int32_def)

lemma cstrR_from:
  assumes "NUL \<in> set r"
  shows "cstrR (a @ s @ c # r) (length a) = Inr (takeWhile (\<lambda>c. c \<noteq> NUL) (s @ c # r))"
  using assms by (simp add: cstrR_def cstr_def)

lemma takeWhile_text: "NUL \<notin> set s \<Longrightarrow> c \<noteq> NUL \<Longrightarrow> takeWhile (\<lambda>c. c \<noteq> NUL) (s @ c # r) = s @ c # takeWhile (\<lambda>c. c \<noteq> NUL) r"
  by (simp add: takeWhile_append)

lemma dec_no_NUL: "NUL \<notin> set (dec n)"
  using dec_digits[of NUL n] by (auto simp: isdigit_def)

lemma iterateRange_all:
  assumes "env_ok E" "host_prefix p" "m \<le> n" "n < 2 ^ 31 - 1"
    and "default_ok (bl_args lst)" "take (length p) nb = p" "\<forall>i\<in>{m..n}. length p + length (dec i) + length q < length nb"
    and "expand_all E nr lst (map (\<lambda>i. p @ dec i @ q) [m..<Suc n]) = Inr (l, ok, w)"
    and src: "src = a @ dec m @ CHR ''-'' # dec n @ CHR ''}'' # r" "NUL \<in> set r"
  shows "\<exists>nb'. BlackList_iterateRange E (expand_line (Suc (count_list q (CHR ''{''))) E nr) (length p) q src
     (length a) (length a + length (dec m) + 1 + length (dec n)) lst nb nr = Inr (l, nb', ok, w)"
proof -
  let ?t = "takeWhile (\<lambda>c. c \<noteq> NUL) r" and ?b = "a @ dec m @ ''-''"
  have s1: "cstrR src (length a) = Inr (dec m @ CHR ''-'' # dec n @ CHR ''}'' # ?t)"
    using src(2) by (simp add: src(1) cstrR_def cstr_def takeWhile_text dec_no_NUL)
  have s2: "cstrR src (Suc (length a + length (dec m))) = Inr (dec n @ CHR ''}'' # ?t)"
    using cstrR_from[OF src(2), of ?b "dec n" "CHR ''}''"] by (simp add: src(1) takeWhile_text dec_no_NUL)
  have t1: "strtol 10 (dec m @ CHR ''-'' # dec n @ CHR ''}'' # ?t) = (int m, length (dec m))"
    by (rule strtol_dec) (use assms(3,4) in \<open>auto simp: isdigit_def\<close>)
  have t2: "strtol 10 (dec n @ CHR ''}'' # ?t) = (int n, length (dec n))"
    by (rule strtol_dec) (use assms(4) in \<open>auto simp: isdigit_def\<close>)
  have r1: "readR src (length a + length (dec m)) = Inr (CHR ''-'')"
    using readR_text[of "a @ dec m" "CHR ''-''"] by (simp add: src(1))
  have r2: "readR src (Suc (length a + length (dec m) + length (dec n))) = Inr (CHR ''}'')"
    using readR_text[of "?b @ dec n" "CHR ''}''" r] by (simp add: src(1) add.assoc)
  obtain nb' where "range_loop E (expand_line (Suc (count_list q (CHR ''{''))) E nr) (length p) q (int m) (int n) lst nb = Inr (l, nb', ok, w)"
    using range_loop_all[OF assms(1,2,4-8)] by blast
  then show ?thesis
    using s1 s2 t1 t2 r1 r2 assms(3,4) to_int32_nat[of m] to_int32_nat[of n]
    by (simp add: BlackList_iterateRange_def Let_def)
qed

lemma drop_text: "drop (Suc (length a)) (a @ c # q) = q"
  by simp

lemma range_line:
  assumes "env_ok E" "default_ok (bl_args lst)" "host_prefix p" "m \<le> n" "n < 2 ^ 31 - 1"
    and "expand_all E nr lst (map (\<lambda>i. p @ dec i @ q) [m..<Suc n]) = Inr (lst', ok, w)"
    and line: "line = p @ ''{'' @ dec m @ ''-'' @ dec n @ ''}'' @ q"
  shows "BlackList_expandLine E nr lst (line @ [NUL]) (length line) = Inr (lst', line @ [NUL], ok, w)"
proof -
  let ?a = "p @ ''{''" and ?r = "q @ [NUL]" and ?rng = "dec m @ CHR ''-'' # dec n"
  have buf: "line @ [NUL] = p @ CHR ''{'' # ?rng @ CHR ''}'' # ?r" by (simp add: line)
  have dg: "\<forall>c\<in>set (dec i). isdigit c" for i using dec_digits by blast
  let ?b = "(?a @ dec m) @ ''-''"
  let ?all = "?a @ ?rng @ CHR ''}'' # ?r"
  have "expand_scan ?all (length ?a) (length line) (Some (length p)) rgUNDECIDED
      = expand_scan ?all (length (?a @ dec m)) (length line) (Some (length p)) rgUNDECIDED"
    using expand_scan_skip[OF digits_plain[OF dg], of ?a m "length line" "CHR ''-'' # dec n @ CHR ''}'' # ?r"] by (simp add: line)
  also have "\<dots> = expand_scan ?all (length ?b) (length line) (Some (length p)) rgRANGE"
    using scan_step(3)[of "?a @ dec m" "length line" "dec n @ CHR ''}'' # ?r" "length p"] by (simp add: line)
  also have "\<dots> = expand_scan ?all (length (?b @ dec n)) (length line) (Some (length p)) rgRANGE"
    using expand_scan_skip[OF digits_plain[OF dg], of ?b n "length line" "CHR ''}'' # ?r"] by (simp add: line)
  also have "\<dots> = Inr (ScanRange (length p) (length (?a @ ?rng)) rgRANGE)"
    using scan_step(4)[of "?b @ dec n" "length line" ?r "length p" rgRANGE] by (simp add: line)
  finally have sc: "expand_scan (line @ [NUL]) 0 (length line) None rgUNDECIDED = Inr (ScanRange (length p) (length (?a @ ?rng)) rgRANGE)"
    using scan_to_brace[OF assms(3), of "length line" "?rng @ CHR ''}'' # ?r"] by (simp add: buf line)
  let ?nb = "take (length p) line @ drop (length p) (map (pe_stack E) [0..<length line])"
  have nb: "take (length p) ?nb = p" "length ?nb = length line" by (simp_all add: line)
  have fit: "\<forall>i\<in>{m..n}. length p + length (dec i) + length q < length ?nb"
    using length_dec_mono unfolding nb(2) by (fastforce simp: line)
  obtain nb' where it: "BlackList_iterateRange E (expand_line (Suc (count_list q (CHR ''{''))) E nr) (length p) q ?all
     (length ?a) (length ?a + length (dec m) + 1 + length (dec n)) lst ?nb nr = Inr (lst', nb', ok, w)"
    using iterateRange_all[OF assms(1,3,4,5,2) nb(1) fit assms(6), of ?all ?a ?r] by auto
  have post: "drop (Suc (length (?a @ ?rng))) line = q"
    using drop_text[of "?a @ ?rng" "CHR ''}''" q] by (simp only: line append.assoc append_Cons append_Nil)
  have "CHR ''{'' \<notin> set ?rng" using dec_no_brace by auto
  from count_brace_line[OF assms(3) this] have cnt: "count_list line (CHR ''{'') = Suc (count_list q (CHR ''{''))" by (simp add: line)
  have lt: "length p < length (?a @ ?rng)" "length (?a @ ?rng) < length line" by (simp_all add: line)
  show ?thesis
    using it unfolding expandLine_range[OF sc lt] Let_def post cnt
    by (simp add: buf add.assoc)
qed

section \<open>Properties\<close>

text \<open>
  C24: a list \<open>{i1,i2,...}\<close> of numbers behind an address part without delimiters stands for the
  lines in which it is replaced by each number: expanding the line is expanding these lines in turn.
\<close>

theorem list_expansion:
  assumes "env_ok E" and "default_ok (bl_args lst)" and "host_prefix p"
    and "\<forall>i\<in>set items. \<forall>c\<in>set i. isdigit c" and "2 \<le> length items"
    and "expand_all E nr lst (map (\<lambda>i. p @ i @ q) items) = Inr (lst', ok, w)"
  shows "\<exists>buf'. BlackList_expandLine E nr lst ((p @ ''{'' @ join items @ ''}'' @ q) @ [NUL]) (length (p @ ''{'' @ join items @ ''}'' @ q))
     = Inr (lst', buf', ok, w)"
  using list_line[OF assms refl] by blast

text \<open>
  C25: a numeric range \<open>{m-n}\<close> with \<open>m \<le> n\<close> behind an address part without delimiters stands for
  the lines with \<open>m\<close>, \<open>m + 1\<close> up to \<open>n\<close> in its place.
\<close>

theorem range_expansion:
  assumes "env_ok E" and "default_ok (bl_args lst)" and "host_prefix p" and "m \<le> n" and "n < 2 ^ 31 - 1"
    and "expand_all E nr lst (map (\<lambda>i. p @ dec i @ q) [m..<Suc n]) = Inr (lst', ok, w)"
  shows "\<exists>buf'. BlackList_expandLine E nr lst ((p @ ''{'' @ dec m @ ''-'' @ dec n @ ''}'' @ q) @ [NUL])
       (length (p @ ''{'' @ dec m @ ''-'' @ dec n @ ''}'' @ q)) = Inr (lst', buf', ok, w)"
  using range_line[OF assms refl] by blast

theorem list_expansion_witness:
  "\<exists>lst' buf' w. BlackList_expandLine example_env 1 empty_list ((''10.0.0.'' @ ''{'' @ join [''1'', ''7''] @ ''}'' @ '' RANDOM'') @ [NUL])
       (length (''10.0.0.'' @ ''{'' @ join [''1'', ''7''] @ ''}'' @ '' RANDOM'')) = Inr (lst', buf', True, w)
     \<and> map (\<lambda>d. b_ip (ip_v d)) (bl_ip_list lst') = [0x0100000A, 0x0700000A]"
proof -
  have "case expand_all example_env 1 empty_list (map (\<lambda>i. ''10.0.0.'' @ i @ '' RANDOM'') [''1'', ''7'']) of Inl _ \<Rightarrow> False
     | Inr (l, ok, w) \<Rightarrow> ok \<and> map (\<lambda>d. b_ip (ip_v d)) (bl_ip_list l) = [0x0100000A, 0x0700000A]" by code_simp
  then obtain l w where x: "expand_all example_env 1 empty_list (map (\<lambda>i. ''10.0.0.'' @ i @ '' RANDOM'') [''1'', ''7'']) = Inr (l, True, w)"
    "map (\<lambda>d. b_ip (ip_v d)) (bl_ip_list l) = [0x0100000A, 0x0700000A]" by (auto split: sum.splits)
  have h: "host_prefix ''10.0.0.''" by code_simp
  have d: "\<forall>i\<in>set [''1'', ''7'']. \<forall>c\<in>set i. isdigit c" by code_simp
  have "2 \<le> length [''1'', ''7'']" by simp
  from list_expansion[OF example_env_ok empty_list_ok h d this x(1)] obtain buf' where
    b: "BlackList_expandLine example_env 1 empty_list ((''10.0.0.'' @ ''{'' @ join [''1'', ''7''] @ ''}'' @ '' RANDOM'') @ [NUL])
       (length (''10.0.0.'' @ ''{'' @ join [''1'', ''7''] @ ''}'' @ '' RANDOM'')) = Inr (l, buf', True, w)" by (rule exE)
  show ?thesis by (rule exI[of _ l], rule exI[of _ buf'], rule exI[of _ w], rule conjI[OF b x(2)])
qed

theorem range_expansion_witness:
  "\<exists>lst' buf' w. BlackList_expandLine example_env 1 empty_list ((''10.0.0.'' @ ''{'' @ dec 9 @ ''-'' @ dec 11 @ ''}'' @ []) @ [NUL])
       (length (''10.0.0.'' @ ''{'' @ dec 9 @ ''-'' @ dec 11 @ ''}'' @ [])) = Inr (lst', buf', True, w)
     \<and> map (\<lambda>d. b_ip (ip_v d)) (bl_ip_list lst') = [0x0900000A, 0x0A00000A, 0x0B00000A]"
proof -
  have "case expand_all example_env 1 empty_list (map (\<lambda>i. ''10.0.0.'' @ dec i @ []) [9..<Suc 11]) of Inl _ \<Rightarrow> False
     | Inr (l, ok, w) \<Rightarrow> ok \<and> map (\<lambda>d. b_ip (ip_v d)) (bl_ip_list l) = [0x0900000A, 0x0A00000A, 0x0B00000A]" by code_simp
  then obtain l w where x: "expand_all example_env 1 empty_list (map (\<lambda>i. ''10.0.0.'' @ dec i @ []) [9..<Suc 11]) = Inr (l, True, w)"
    "map (\<lambda>d. b_ip (ip_v d)) (bl_ip_list l) = [0x0900000A, 0x0A00000A, 0x0B00000A]" by (auto split: sum.splits)
  have h: "host_prefix ''10.0.0.''" by code_simp
  have r: "9 \<le> (11::nat)" "11 < (2::nat) ^ 31 - 1" by simp_all
  from range_expansion[OF example_env_ok empty_list_ok h r x(1)] obtain buf' where
    b: "BlackList_expandLine example_env 1 empty_list ((''10.0.0.'' @ ''{'' @ dec 9 @ ''-'' @ dec 11 @ ''}'' @ []) @ [NUL])
       (length (''10.0.0.'' @ ''{'' @ dec 9 @ ''-'' @ dec 11 @ ''}'' @ [])) = Inr (l, buf', True, w)" by (rule exE)
  show ?thesis by (rule exI[of _ l], rule exI[of _ buf'], rule exI[of _ w], rule conjI[OF b x(2)])
qed

text \<open>
  Behind a delimiter ranges do not work: of the two networks that \<open>10.0.0.0/2{4,5}\<close> stands for only
  the first is added, the second copy of the line has lost its \<open>/\<close> and is rejected.
\<close>

theorem range_in_netmask_fails:
  "\<exists>lst' buf' w. BlackList_expandLine example_env 1 empty_list (''10.0.0.0/2{4,5}'' @ [NUL]) 15 = Inr (lst', buf', True, w)
     \<and> map (\<lambda>d. (b_ip (net_v d), net_mask d)) (bl_net_list lst') = [(0x0000000A, prefix_mask 24)] \<and> bl_ip_list lst' = [] \<and> w \<noteq> []"
proof -
  have "case BlackList_expandLine example_env 1 empty_list (''10.0.0.0/2{4,5}'' @ [NUL]) 15 of Inl _ \<Rightarrow> False
     | Inr (l, b, ok, w) \<Rightarrow> ok \<and> map (\<lambda>d. (b_ip (net_v d), net_mask d)) (bl_net_list l) = [(0x0000000A, prefix_mask 24)] \<and> bl_ip_list l = [] \<and> w \<noteq> []"
    by code_simp
  then show ?thesis by (auto split: sum.splits)
qed

end
