(* ===== verification/Wrappers.thy ===== *)
theory Wrappers
  imports Prelude
begin

text \<open>
  The wrappers of \<open>src/src/wrappers.h\<close>: each performs a system call and ends the process
  when the call reports a failure. The answer of the operating system is an argument.
\<close>

section \<open>The common exit\<close>

definition FatalErrnoError :: "bool \<Rightarrow> int \<Rightarrow> unit run" where
  "FatalErrnoError condition retval = (if \<not> condition then Inr () else Inl (Exit retval))"

text \<open>
  \<open>TEMP_FAILURE_RETRY\<close> of \<open>src/src/compat.h\<close> (the same macro is part of the GNU C library): a call is repeated while a signal interrupts it. The
  answers of the system are a list of values with the condition \<open>errno == EINTR\<close>; nothing is returned while all of them are interrupted.
  The other theories take the answer after the last repetition.
\<close>

fun TEMP_FAILURE_RETRY :: "(int \<times> bool) list \<Rightarrow> int option" where
  "TEMP_FAILURE_RETRY [] = None"
| "TEMP_FAILURE_RETRY ((result, interrupted) # answers) =
     (if result = - 1 \<and> interrupted then TEMP_FAILURE_RETRY answers else Some result)"

lemma retry_first_answer:
  "TEMP_FAILURE_RETRY answers =
     map_option fst (find (\<lambda>(result, interrupted). result \<noteq> - 1 \<or> \<not> interrupted) answers)"
  by (induction answers rule: TEMP_FAILURE_RETRY.induct) auto

text \<open>\<open>strdupa\<close> of the same file: an identical string on the stack.\<close>

definition strdupa :: "string \<Rightarrow> string" where
  [simp]: "strdupa s = s"

section \<open>Memory\<close>

text \<open>
  What the allocator answers: whether it is out of memory, and the indeterminate contents
  of memory that was never written, by element index. Sizes are computed in \<open>size_t\<close>, and
  no block is larger than the address space of a process (\<open>2 ^ 47\<close> bytes on x86-64
  GNU/Linux). A block of \<open>b\<close> bytes holds \<open>b div elem_size\<close> elements.
\<close>

record 'a heap_env =
  env_oom :: bool
  env_mem :: "nat \<Rightarrow> 'a"

definition address_space :: nat where
  "address_space = 2 ^ 47"

definition alloc_bytes :: "nat \<Rightarrow> nat \<Rightarrow> nat" where
  "alloc_bytes n elem_size = (n * elem_size) mod 2 ^ 64"

definition alloc_fails :: "'a heap_env \<Rightarrow> nat \<Rightarrow> nat \<Rightarrow> bool" where
  "alloc_fails H n elem_size \<longleftrightarrow> env_oom H \<or> address_space < alloc_bytes n elem_size"

definition Emalloc :: "'a heap_env \<Rightarrow> nat \<Rightarrow> nat \<Rightarrow> 'a list run" where
  "Emalloc H n elem_size =
     bindR (FatalErrnoError (alloc_fails H n elem_size \<and> alloc_bytes n elem_size \<noteq> 0) 1)
       (\<lambda>_. Inr (map (env_mem H) [0..<alloc_bytes n elem_size div elem_size]))"

definition Erealloc :: "'a heap_env \<Rightarrow> 'a list \<Rightarrow> nat \<Rightarrow> nat \<Rightarrow> 'a list run" where
  "Erealloc H ptr n elem_size =
     bindR (FatalErrnoError (alloc_fails H n elem_size \<and> alloc_bytes n elem_size \<noteq> 0) 1)
       (\<lambda>_. let m = alloc_bytes n elem_size div elem_size in
            Inr (take m ptr @ map (env_mem H) [length ptr..<m]))"

lemma FatalErrnoError_simps [simp]:
  "FatalErrnoError False r = Inr ()" "FatalErrnoError True r = Inl (Exit r)"
  by (simp_all add: FatalErrnoError_def)

lemma alloc_bytes_exact:
  "0 < e \<Longrightarrow> n * e \<le> 4 * address_space \<Longrightarrow> alloc_bytes n e = n * e \<and> alloc_bytes n e div e = n"
  by (simp add: alloc_bytes_def address_space_def)

lemma Emalloc_Inr:
  "0 < e \<Longrightarrow> n * e \<le> address_space \<Longrightarrow> \<not> env_oom H \<Longrightarrow> Emalloc H n e = Inr (map (env_mem H) [0..<n])"
  by (simp add: Emalloc_def alloc_fails_def alloc_bytes_exact)

lemma Erealloc_Inr_iff:
  assumes "0 < e" "0 < n" "n * e \<le> 4 * address_space"
  shows "Erealloc H ptr n e = Inr block \<longleftrightarrow>
     \<not> env_oom H \<and> n * e \<le> address_space \<and> block = take n ptr @ map (env_mem H) [length ptr..<n]"
  using assms alloc_bytes_exact[OF assms(1,3)]
  by (auto simp: Erealloc_def alloc_fails_def run_simps Let_def FatalErrnoError_def)

end
