(* ===== verification/Prioqueue.thy ===== *)
theory Prioqueue
  imports Wrappers
begin

text \<open>
  The priority queue of \<open>src/src/prioqueue.c\<close>: a binary heap in a growable array with a
  three-way comparison function, where the element that compares greatest is at the
  root. The array (\<open>pq_data\<close>) has \<open>pq_allocated\<close> slots, of which the first \<open>pq_count\<close>
  are in use. The theory has the operations, the invariant of the representation, what
  each operation does to the multiset of queued elements and to the heap order, and
  the interface the worker uses as a locale.
\<close>

section \<open>Index arithmetic\<close>

text \<open>
  \<open>1 << i\<close> shifts an \<open>int\<close>: C leaves counts of 32 and more undefined, and the
  x86 shift instructions take the count modulo 32. The result is converted to
  \<open>size_t\<close> by sign extension.
\<close>

definition int_shl1 :: "nat \<Rightarrow> int" where
  "int_shl1 i = to_int32 (2 ^ (i mod 32))"

definition size_t_of :: "int \<Rightarrow> nat" where
  "size_t_of v = nat (v mod 2 ^ 64)"

fun powify_loop :: "nat \<Rightarrow> nat \<Rightarrow> nat" where
  "powify_loop val 0 = 1"
| "powify_loop val (Suc i) =
     (if and val (size_t_of (int_shl1 i)) \<noteq> 0
      then (if i = 63 then val else size_t_of (to_int32 (int_shl1 (i + 1) - 1)))
      else powify_loop val i)"

definition powify :: "nat \<Rightarrow> nat" where
  "powify val = powify_loop val 64"

definition parent :: "nat \<Rightarrow> nat" where
  "parent i = (i - 1) div 2"

definition left :: "nat \<Rightarrow> nat" where
  "left i = 2 * i + 1"

definition right :: "nat \<Rightarrow> nat" where
  "right i = 2 * i + 2"

definition PriorityQueue_test :: bool where
  "PriorityQueue_test \<longleftrightarrow>
     powify 0 = 1 \<and> powify 1 = 1 \<and> powify 2 = 3 \<and> powify 3 = 3 \<and> powify 4 = 7
   \<and> powify 23 = 31 \<and> powify 64 = 127 \<and> powify 0x81234567 = 0x81234567
   \<and> parent 7 = 3 \<and> parent 9 = 4 \<and> parent 10 = 4 \<and> parent 14 = 6
   \<and> left 3 = 7 \<and> right 3 = 8 \<and> left 6 = 13 \<and> right 6 = 14"

lemma parent_less [termination_simp]: "0 < i \<Longrightarrow> parent i < i"
  by (auto simp: parent_def)

lemma parent_less_trans: "0 < i \<Longrightarrow> i < n \<Longrightarrow> parent i < n"
  by (rule less_trans[OF parent_less])

lemma parent_children [simp]: "parent (left i) = i" "parent (right i) = i"
  by (simp_all add: parent_def left_def right_def)

lemma parent_eq_iff: "0 < k \<Longrightarrow> parent k = i \<longleftrightarrow> k = left i \<or> k = right i"
  by (auto simp: parent_def left_def right_def)

lemma children_less [simp]: "i < left i" "i < right i" "left i < right i"
  by (simp_all add: left_def right_def)

section \<open>The queue and its operations\<close>

record 'a PriorityQueue =
  pq_data :: "'a list"
  pq_count :: nat
  pq_allocated :: nat
  pq_elem_size :: nat
  pq_cmp_func :: "'a \<Rightarrow> 'a \<Rightarrow> int"

definition PriorityQueue_init ::
  "'a heap_env \<Rightarrow> ('a \<Rightarrow> 'a \<Rightarrow> int) \<Rightarrow> nat \<Rightarrow> nat \<Rightarrow> 'a PriorityQueue run" where
  "PriorityQueue_init H cmp_func cnt elem_size =
     assertR (0 < elem_size)
       (let cnt' = powify cnt in
        bindR (Emalloc H cnt' elem_size)
          (\<lambda>block. Inr \<lparr>pq_data = block, pq_count = 0, pq_allocated = cnt',
                        pq_elem_size = elem_size, pq_cmp_func = cmp_func\<rparr>))"

definition PriorityQueue_count :: "'a PriorityQueue \<Rightarrow> nat" where
  "PriorityQueue_count q = pq_count q"

definition PriorityQueue_max :: "'a PriorityQueue \<Rightarrow> 'a option" where
  "PriorityQueue_max q = (if PriorityQueue_count q = 0 then None else Some (pq_data q ! 0))"

definition swap_slots :: "'a list \<Rightarrow> nat \<Rightarrow> nat \<Rightarrow> 'a list" where
  "swap_slots ptr i j = ptr[i := ptr ! j, j := ptr ! i]"

definition heapify_largest :: "'a PriorityQueue \<Rightarrow> nat \<Rightarrow> nat" where
  "heapify_largest q pos =
     (let l = left pos; r = right pos; ptr = pq_data q; c = pq_count q;
          largest = (if l < c \<and> pq_cmp_func q (ptr ! l) (ptr ! r) > 0 then l else pos)
      in if r < c \<and> pq_cmp_func q (ptr ! r) (ptr ! largest) > 0 then r else largest)"

lemma heapify_largest_bound:
  "heapify_largest q pos \<noteq> pos \<Longrightarrow> pos < heapify_largest q pos \<and> heapify_largest q pos < pq_count q"
  by (auto simp: heapify_largest_def left_def right_def Let_def split: if_splits)

function PriorityQueue_heapify :: "'a PriorityQueue \<Rightarrow> nat \<Rightarrow> 'a PriorityQueue" where
  "PriorityQueue_heapify q pos =
     (let largest = heapify_largest q pos in
      if largest \<noteq> pos
      then PriorityQueue_heapify (q\<lparr>pq_data := swap_slots (pq_data q) pos largest\<rparr>) largest
      else q)"
  by pat_completeness auto
termination
  by (relation "measure (\<lambda>(q, pos). pq_count q - pos)")
    (auto dest!: heapify_largest_bound simp: diff_less_mono2)

declare PriorityQueue_heapify.simps [simp del]

definition PriorityQueue_extract :: "'a PriorityQueue \<Rightarrow> 'a PriorityQueue" where
  "PriorityQueue_extract q =
     (if pq_count q = 0 then q
      else let q = q\<lparr>pq_count := pq_count q - 1\<rparr> in
        if pq_count q > 0
        then PriorityQueue_heapify (q\<lparr>pq_data := (pq_data q)[0 := pq_data q ! pq_count q]\<rparr>) 0
        else q)"

fun insert_sift :: "('a \<Rightarrow> 'a \<Rightarrow> int) \<Rightarrow> 'a list \<Rightarrow> 'a \<Rightarrow> nat \<Rightarrow> 'a list \<times> nat" where
  "insert_sift cmp ptr key 0 = (ptr, 0)"
| "insert_sift cmp ptr key (Suc k) =
     (let aux = ptr ! parent (Suc k) in
      if cmp aux key \<ge> 0 then (ptr, Suc k)
      else insert_sift cmp (ptr[Suc k := aux]) key (parent (Suc k)))"

definition PriorityQueue_insertInternal :: "'a PriorityQueue \<Rightarrow> 'a \<Rightarrow> 'a PriorityQueue" where
  "PriorityQueue_insertInternal q key =
     (case insert_sift (pq_cmp_func q) (pq_data q) key (pq_count q) of
        (ptr, i) \<Rightarrow> q\<lparr>pq_data := ptr[i := key], pq_count := pq_count q + 1\<rparr>)"

definition PriorityQueue_insert :: "'a heap_env \<Rightarrow> 'a PriorityQueue \<Rightarrow> 'a \<Rightarrow> 'a PriorityQueue run" where
  "PriorityQueue_insert H q key =
     (if pq_count q = pq_allocated q then
        (let new_size = (pq_allocated q * 2 + 1) mod 2 ^ 64 in
         if new_size < pq_allocated q then Inl (Exit 1)
         else bindR (Erealloc H (pq_data q) new_size (pq_elem_size q))
                (\<lambda>block. Inr (PriorityQueue_insertInternal
                   (q\<lparr>pq_allocated := new_size, pq_data := block\<rparr>) key)))
      else Inr (PriorityQueue_insertInternal q key))"

section \<open>Representation invariant and abstraction\<close>

definition pq_wf :: "'a PriorityQueue \<Rightarrow> bool" where
  "pq_wf q \<longleftrightarrow> pq_count q \<le> pq_allocated q \<and> length (pq_data q) = pq_allocated q"

text \<open>The queue as a multiset, and its heap order.\<close>

definition pq_elems :: "'a PriorityQueue \<Rightarrow> 'a multiset" where
  "pq_elems q = mset (take (pq_count q) (pq_data q))"

definition pq_heap :: "'a PriorityQueue \<Rightarrow> bool" where
  "pq_heap q \<longleftrightarrow>
     (\<forall>i. 0 < i \<and> i < pq_count q \<longrightarrow> 0 \<le> pq_cmp_func q (pq_data q ! parent i) (pq_data q ! i))"

text \<open>
  A comparison function orders the elements of \<open>S\<close> by an integer key: this is how every
  comparison function of the program works, within the range where its difference
  does not wrap around.
\<close>

definition keyed :: "('a \<Rightarrow> 'a \<Rightarrow> int) \<Rightarrow> ('a \<Rightarrow> int) \<Rightarrow> 'a set \<Rightarrow> bool" where
  "keyed cmp key S \<longleftrightarrow> (\<forall>x\<in>S. \<forall>y\<in>S. (0 \<le> cmp x y \<longleftrightarrow> key y \<le> key x) \<and> (0 < cmp x y \<longleftrightarrow> key y < key x))"

lemma keyedD:
  "keyed cmp key S \<Longrightarrow> x \<in> S \<Longrightarrow> y \<in> S \<Longrightarrow> 0 \<le> cmp x y \<longleftrightarrow> key y \<le> key x"
  "keyed cmp key S \<Longrightarrow> x \<in> S \<Longrightarrow> y \<in> S \<Longrightarrow> 0 < cmp x y \<longleftrightarrow> key y < key x"
  by (auto simp: keyed_def)

lemma pq_elems_nth: "pq_wf q \<Longrightarrow> x \<in># pq_elems q \<longleftrightarrow> (\<exists>i<pq_count q. pq_data q ! i = x)"
  by (auto simp: pq_elems_def pq_wf_def in_set_conv_nth)

lemma pq_nth_in: "pq_wf q \<Longrightarrow> i < pq_count q \<Longrightarrow> pq_data q ! i \<in># pq_elems q"
  by (auto simp: pq_elems_nth)

lemma size_pq_elems: "pq_wf q \<Longrightarrow> size (pq_elems q) = pq_count q"
  by (simp add: pq_elems_def pq_wf_def)

lemma mset_take_swap:
  assumes "i < n" "j < n" "n \<le> length xs"
  shows "mset (take n (xs[i := xs ! j, j := xs ! i])) = mset (take n xs)"
  using mset_swap[of j "take n xs" i] assms by (simp add: take_update_swap)

lemma mset_take_hole:
  "n < length xs \<Longrightarrow> mset (take (Suc n) (xs[n := x])) = add_mset x (mset (take n xs))"
  by (simp add: take_Suc_conv_app_nth)

section \<open>Sifting down\<close>

definition heapify_swap :: "'a PriorityQueue \<Rightarrow> nat \<Rightarrow> 'a PriorityQueue" where
  "heapify_swap q pos = q\<lparr>pq_data := swap_slots (pq_data q) pos (heapify_largest q pos)\<rparr>"

lemma heapify_stop: "heapify_largest q pos = pos \<Longrightarrow> PriorityQueue_heapify q pos = q"
  by (simp add: PriorityQueue_heapify.simps[of q pos])

lemma heapify_step:
  "heapify_largest q pos \<noteq> pos \<Longrightarrow>
   PriorityQueue_heapify q pos = PriorityQueue_heapify (heapify_swap q pos) (heapify_largest q pos)"
  by (simp add: PriorityQueue_heapify.simps[of q pos] heapify_swap_def Let_def)

lemma heapify_swap_simps [simp]:
  "pq_count (heapify_swap q pos) = pq_count q"
  "pq_allocated (heapify_swap q pos) = pq_allocated q"
  "pq_elem_size (heapify_swap q pos) = pq_elem_size q"
  "pq_cmp_func (heapify_swap q pos) = pq_cmp_func q"
  "length (pq_data (heapify_swap q pos)) = length (pq_data q)"
  by (simp_all add: heapify_swap_def swap_slots_def)

lemma heapify_induct [case_names swap]:
  assumes "\<And>q pos. (heapify_largest q pos \<noteq> pos \<Longrightarrow> P (heapify_swap q pos) (heapify_largest q pos)) \<Longrightarrow> P q pos"
  shows "P q pos"
  by (rule PriorityQueue_heapify.induct) (rule assms, auto simp: heapify_swap_def)

lemma heapify_frame [simp]:
  "pq_count (PriorityQueue_heapify q pos) = pq_count q"
  "pq_allocated (PriorityQueue_heapify q pos) = pq_allocated q"
  "pq_elem_size (PriorityQueue_heapify q pos) = pq_elem_size q"
  "pq_cmp_func (PriorityQueue_heapify q pos) = pq_cmp_func q"
  "length (pq_data (PriorityQueue_heapify q pos)) = length (pq_data q)"
  by (induction q pos rule: heapify_induct; metis heapify_stop heapify_step heapify_swap_simps)+

lemma heapify_unused:
  "drop (pq_count q) (pq_data (PriorityQueue_heapify q pos)) = drop (pq_count q) (pq_data q)"
proof (induction q pos rule: heapify_induct)
  case (swap q pos)
  show ?case
  proof (cases "heapify_largest q pos = pos")
    case False
    with swap heapify_largest_bound[OF False] show ?thesis
      by (simp add: heapify_step) (simp add: heapify_swap_def swap_slots_def)
  qed (simp add: heapify_stop)
qed

lemma heapify_elems:
  "pq_count q \<le> length (pq_data q) \<Longrightarrow> pq_elems (PriorityQueue_heapify q pos) = pq_elems q"
proof (induction q pos rule: heapify_induct)
  case (swap q pos)
  show ?case
  proof (cases "heapify_largest q pos = pos")
    case False
    with swap heapify_largest_bound[OF False] have "pq_elems (heapify_swap q pos) = pq_elems q"
      by (simp add: pq_elems_def heapify_swap_def swap_slots_def mset_take_swap)
    with swap False show ?thesis by (simp add: heapify_step)
  qed (simp add: heapify_stop)
qed

lemma heapify_below:
  "i < pos \<Longrightarrow> pq_data (PriorityQueue_heapify q pos) ! i = pq_data q ! i"
proof (induction q pos rule: heapify_induct)
  case (swap q pos)
  show ?case
  proof (cases "heapify_largest q pos = pos")
    case False
    with swap heapify_largest_bound[OF False] show ?thesis
      by (simp add: heapify_step) (simp add: heapify_swap_def swap_slots_def)
  qed (simp add: heapify_stop)
qed

text \<open>
  The comparison that \<open>PriorityQueue_heapify\<close> makes at slot \<open>pos\<close>, in terms of the keys.
  The first test compares the two children with each other and not the left child with
  \<open>pos\<close>; when there is no right child it reads the slot just behind the queue.
\<close>

lemma heapify_largest_keyed:
  assumes "keyed (pq_cmp_func q) key S" and "\<forall>i\<le>pq_count q. pq_data q ! i \<in> S" and "pos < pq_count q"
  shows "heapify_largest q pos =
     (if left pos < pq_count q \<and> key (pq_data q ! right pos) < key (pq_data q ! left pos) then left pos
      else if right pos < pq_count q \<and> key (pq_data q ! pos) < key (pq_data q ! right pos) then right pos
      else pos)"
proof -
  have lr: "left pos < pq_count q \<Longrightarrow> right pos \<le> pq_count q"
    by (simp add: left_def right_def)
  show ?thesis
    using assms(2,3) lr
    by (auto simp: heapify_largest_def Let_def keyedD[OF assms(1)])
qed

text \<open>
  A slot \<open>pos\<close> that holds a minimal element, with the slot behind the queue an equal copy of
  it, and heap order everywhere else.
\<close>

definition sinking :: "('a \<Rightarrow> int) \<Rightarrow> 'a PriorityQueue \<Rightarrow> nat \<Rightarrow> bool" where
  "sinking key q pos \<longleftrightarrow>
     (let K = (\<lambda>i. key (pq_data q ! i)); c = pq_count q in
        pos < c \<and> c < length (pq_data q) \<and> K c = K pos
      \<and> (\<forall>i. 0 < i \<and> i < c \<and> parent i \<noteq> pos \<longrightarrow> K i \<le> K (parent i))
      \<and> (\<forall>i. 0 < i \<and> i < c \<and> parent i = pos \<and> 0 < pos \<longrightarrow> K i \<le> K (parent pos))
      \<and> (\<forall>i<c. K pos \<le> K i))"

lemma sinking_swap:
  assumes "sinking key q pos" and m: "m = left pos \<or> m = right pos" "m < pq_count q"
    and "\<And>i. 0 < i \<Longrightarrow> i < pq_count q \<Longrightarrow> parent i = pos \<Longrightarrow> key (pq_data q ! i) \<le> key (pq_data q ! m)"
  shows "sinking key (q\<lparr>pq_data := swap_slots (pq_data q) pos m\<rparr>) m"
proof -
  have gt: "pos < m" and pm: "parent m = pos" using m(1) by auto
  have *: "swap_slots (pq_data q) pos m ! i =
      (if i = pos then pq_data q ! m else if i = m then pq_data q ! pos else pq_data q ! i)" for i
    using assms(1) m(2) gt by (auto simp: sinking_def swap_slots_def Let_def nth_list_update)
  have ne: "parent i \<noteq> m" if "i \<le> m" "0 < i" for i
    using that parent_less[of i] by linarith
  let ?K = "\<lambda>i. key (pq_data q ! i)" and ?c = "pq_count q"
  let ?K' = "\<lambda>i. key (swap_slots (pq_data q) pos m ! i)"
  from assms(1) have c: "pos < ?c" "?c < length (pq_data q)" "?K ?c = ?K pos"
    and A: "\<And>i. 0 < i \<Longrightarrow> i < ?c \<Longrightarrow> parent i \<noteq> pos \<Longrightarrow> ?K i \<le> ?K (parent i)"
    and B: "\<And>i. 0 < i \<Longrightarrow> i < ?c \<Longrightarrow> parent i = pos \<Longrightarrow> 0 < pos \<Longrightarrow> ?K i \<le> ?K (parent pos)"
    and M: "\<And>i. i < ?c \<Longrightarrow> ?K pos \<le> ?K i"
    by (auto simp: sinking_def Let_def)
  have A': "?K' i \<le> ?K' (parent i)" if i: "0 < i" "i < ?c" "parent i \<noteq> m" for i
  proof (cases "parent i = pos")
    case True
    then show ?thesis using assms(4)[of i] M[OF m(2)] i gt by (auto simp: *)
  next
    case False
    with i gt pm A[of i] B[of m] m(2) show ?thesis by (auto simp: *)
  qed
  have B': "?K' i \<le> ?K' (parent m)" if "0 < i" "i < ?c" "parent i = m" for i
    using A[of i] that ne[of i] gt by (auto simp: * pm)
  have M': "?K' m \<le> ?K' i" if "i < ?c" for i
    using M[of i] M[of m] m(2) that gt by (auto simp: *)
  show ?thesis
    using c m(2) gt A' B' M' by (auto simp: sinking_def Let_def *) (simp add: swap_slots_def)
qed

lemma heapify_restores_heap:
  assumes "keyed (pq_cmp_func q) key S" and "\<forall>i\<le>pq_count q. pq_data q ! i \<in> S" and "sinking key q pos"
  shows "pq_heap (PriorityQueue_heapify q pos)"
  using assms
proof (induction q pos rule: heapify_induct)
  case (swap q pos)
  let ?K = "\<lambda>i. key (pq_data q ! i)" and ?c = "pq_count q" and ?m = "heapify_largest q pos"
  have pos: "pos < ?c" and stale: "?K ?c = ?K pos" and len: "?c < length (pq_data q)"
    and M: "\<And>i. i < ?c \<Longrightarrow> ?K pos \<le> ?K i"
    using swap.prems(3) by (auto simp: sinking_def Let_def)
  note big = heapify_largest_keyed[OF swap.prems(1,2) pos]
  have ch: "i = left pos \<or> i = right pos" if "parent i = pos" "0 < i" for i
    using that by (simp add: parent_eq_iff)
  have edge: "right pos = ?c" if "left pos < ?c" "\<not> right pos < ?c"
    using that by (simp add: left_def right_def)
  show ?case
  proof (cases "?m = pos")
    case True
    have "?K i \<le> ?K pos" if "0 < i" "i < ?c" "parent i = pos" for i
      using ch[OF that(3,1)] big True edge stale that(2) children_less[of pos]
      by (auto split: if_splits)
    then have "?K i \<le> ?K (parent i)" if "0 < i" "i < ?c" for i
      using that swap.prems(3) by (cases "parent i = pos") (auto simp: sinking_def Let_def)
    moreover have "pq_data q ! i \<in> S" "pq_data q ! parent i \<in> S" if "0 < i" "i < ?c" for i
      using that swap.prems(2) parent_less_trans[of i ?c] by auto
    ultimately show ?thesis
      using keyedD(1)[OF swap.prems(1)] by (simp add: True heapify_stop pq_heap_def)
  next
    case False
    note lt = heapify_largest_bound[OF False]
    have child: "?m = left pos \<or> ?m = right pos"
      using big False by (auto split: if_splits)
    have top: "?K i \<le> ?K ?m" if "0 < i" "i < ?c" "parent i = pos" for i
      using ch[OF that(3,1)] big False edge stale that(2) by (auto split: if_splits)
    have "sinking key (heapify_swap q pos) ?m"
      unfolding heapify_swap_def using swap.prems(3) child lt top by (intro sinking_swap) auto
    moreover have "\<forall>i\<le>?c. pq_data (heapify_swap q pos) ! i \<in> S"
      using swap.prems(2) lt len pos
      by (auto simp: heapify_swap_def swap_slots_def nth_list_update)
    ultimately show ?thesis
      using swap.IH[OF False] swap.prems(1) by (simp add: heapify_step[OF False])
  qed
qed

section \<open>Extraction\<close>

text \<open>The queue after the root was replaced by the last element.\<close>

definition pq_moved :: "'a PriorityQueue \<Rightarrow> 'a PriorityQueue" where
  "pq_moved q = q\<lparr>pq_count := pq_count q - 1,
                   pq_data := (pq_data q)[0 := pq_data q ! (pq_count q - 1)]\<rparr>"

lemma extract_moved: "1 < pq_count q \<Longrightarrow> PriorityQueue_extract q = PriorityQueue_heapify (pq_moved q) 0"
  by (simp add: PriorityQueue_extract_def pq_moved_def Let_def)

lemma extract_single: "pq_count q = 1 \<Longrightarrow> PriorityQueue_extract q = q\<lparr>pq_count := 0\<rparr>"
  by (simp add: PriorityQueue_extract_def Let_def)

lemma moved_frame [simp]:
  "pq_count (pq_moved q) = pq_count q - 1"
  "pq_allocated (pq_moved q) = pq_allocated q"
  "pq_cmp_func (pq_moved q) = pq_cmp_func q"
  "length (pq_data (pq_moved q)) = length (pq_data q)"
  by (simp_all add: pq_moved_def)

lemma moved_wf: "pq_wf q \<Longrightarrow> pq_wf (pq_moved q)"
  by (auto simp: pq_wf_def)

lemma moved_nth:
  "pq_wf q \<Longrightarrow> 1 < pq_count q \<Longrightarrow> i \<le> pq_count q - 1 \<Longrightarrow>
   pq_data (pq_moved q) ! i = (if i = 0 then pq_data q ! (pq_count q - 1) else pq_data q ! i)"
  by (cases i) (auto simp: pq_moved_def pq_wf_def nth_list_update)

lemma extract_frame [simp]:
  "pq_count (PriorityQueue_extract q) = pq_count q - 1"
  "pq_allocated (PriorityQueue_extract q) = pq_allocated q"
  "pq_elem_size (PriorityQueue_extract q) = pq_elem_size q"
  "pq_cmp_func (PriorityQueue_extract q) = pq_cmp_func q"
  "length (pq_data (PriorityQueue_extract q)) = length (pq_data q)"
  by (auto simp: PriorityQueue_extract_def Let_def)

lemma extract_wf [wf_intros]: "pq_wf q \<Longrightarrow> pq_wf (PriorityQueue_extract q)"
  by (auto simp: pq_wf_def)

lemma take_moved:
  assumes "pq_wf q" "1 < pq_count q"
  shows "mset (take (pq_count q - 1) (pq_data (pq_moved q))) + {#pq_data q ! 0#} = pq_elems q"
proof -
  obtain x xs where d: "pq_data q = x # xs"
    using assms by (cases "pq_data q") (auto simp: pq_wf_def)
  obtain c where c: "pq_count q = Suc (Suc c)"
    using assms(2) that[of "pq_count q - 2"] by simp
  have "c < length xs" using assms(1) by (auto simp: pq_wf_def d c)
  then show ?thesis
    by (simp add: pq_elems_def pq_moved_def d c take_Suc_conv_app_nth)
qed

lemma extract_elems:
  assumes "pq_wf q" "0 < pq_count q"
  shows "pq_elems (PriorityQueue_extract q) + {#pq_data q ! 0#} = pq_elems q"
proof (cases "pq_count q = 1")
  case True
  with assms show ?thesis
    by (cases "pq_data q") (auto simp: extract_single pq_elems_def pq_wf_def)
next
  case False
  with assms(2) have gt: "1 < pq_count q" by simp
  have "pq_elems (PriorityQueue_heapify (pq_moved q) 0) = pq_elems (pq_moved q)"
    using assms(1) by (intro heapify_elems) (auto simp: pq_moved_def pq_wf_def)
  moreover have "pq_elems (pq_moved q) = mset (take (pq_count q - 1) (pq_data (pq_moved q)))"
    by (simp add: pq_elems_def pq_moved_def)
  ultimately show ?thesis
    using take_moved[OF assms(1) gt] by (simp only: extract_moved[OF gt])
qed

lemma extract_unused:
  assumes "0 < pq_count q"
  shows "drop (pq_count q) (pq_data (PriorityQueue_extract q)) = drop (pq_count q) (pq_data q)"
proof (cases "pq_count q = 1")
  case False
  with assms have gt: "1 < pq_count q" by simp
  have "drop (pq_count q) (pq_data (PriorityQueue_extract q))
      = drop 1 (drop (pq_count (pq_moved q)) (pq_data (PriorityQueue_heapify (pq_moved q) 0)))"
    using gt by (simp add: extract_moved pq_moved_def)
  also have "\<dots> = drop 1 (drop (pq_count (pq_moved q)) (pq_data (pq_moved q)))"
    by (simp only: heapify_unused)
  finally show ?thesis using gt by (simp add: pq_moved_def)
qed (simp add: extract_single)

section \<open>Order\<close>

lemma heap_root_greatest:
  assumes "keyed (pq_cmp_func q) key S" "set_mset (pq_elems q) \<subseteq> S" "pq_wf q" "pq_heap q" "i < pq_count q"
  shows "key (pq_data q ! i) \<le> key (pq_data q ! 0)"
  using assms(5)
proof (induction i rule: less_induct)
  case (less i)
  have S: "pq_data q ! j \<in> S" if "j < pq_count q" for j
    using assms(2,3) that by (auto simp: pq_elems_nth subset_iff)
  show ?case
  proof (cases "i = 0")
    case False
    then have p: "parent i < i" by (simp add: parent_less)
    with less have "key (pq_data q ! parent i) \<le> key (pq_data q ! 0)" by simp
    moreover have "key (pq_data q ! i) \<le> key (pq_data q ! parent i)"
      using assms(4) False less.prems p keyedD(1)[OF assms(1) S S, of "parent i" i]
      by (auto simp: pq_heap_def)
    ultimately show ?thesis by linarith
  qed simp
qed

lemma heap_below_children:
  assumes "keyed (pq_cmp_func q) key S" "set_mset (pq_elems q) \<subseteq> S" "pq_wf q" "pq_heap q"
    and "0 < i" "i < pq_count q"
  shows "key (pq_data q ! i) \<le> key (pq_data q ! 1) \<or>
         2 < pq_count q \<and> key (pq_data q ! i) \<le> key (pq_data q ! 2)"
  using assms(5,6)
proof (induction i rule: less_induct)
  case (less i)
  have S: "pq_data q ! j \<in> S" if "j < pq_count q" for j
    using assms(2,3) that by (auto simp: pq_elems_nth subset_iff)
  show ?case
  proof (cases "parent i = 0")
    case True
    with less.prems have "i = 1 \<or> i = 2" by (auto simp: parent_def)
    with less.prems show ?thesis by auto
  next
    case False
    have p: "parent i < i" using less.prems(1) by (rule parent_less)
    have "key (pq_data q ! i) \<le> key (pq_data q ! parent i)"
      using assms(4) less.prems p keyedD(1)[OF assms(1) S S, of "parent i" i]
      by (auto simp: pq_heap_def)
    moreover have "key (pq_data q ! parent i) \<le> key (pq_data q ! 1) \<or>
        2 < pq_count q \<and> key (pq_data q ! parent i) \<le> key (pq_data q ! 2)"
      using less.IH[OF p] False parent_less_trans[OF less.prems] by blast
    ultimately show ?thesis by linarith
  qed
qed

lemma moved_in:
  assumes "set_mset (pq_elems q) \<subseteq> S" "pq_wf q" "1 < pq_count q"
  shows "\<forall>i\<le>pq_count (pq_moved q). pq_data (pq_moved q) ! i \<in> S"
proof (intro allI impI)
  fix i
  assume "i \<le> pq_count (pq_moved q)"
  then have "pq_data (pq_moved q) ! i \<in># pq_elems q"
    using moved_nth[OF assms(2,3), of i] assms(3) by (auto intro: pq_nth_in[OF assms(2)])
  with assms(1) show "pq_data (pq_moved q) ! i \<in> S" by auto
qed

text \<open>One extraction from a heap brings a greatest remaining element to the root.\<close>

lemma extract_next_greatest:
  assumes "keyed (pq_cmp_func q) key S" "set_mset (pq_elems q) \<subseteq> S" "pq_wf q" "pq_heap q"
    and "y \<in># pq_elems (PriorityQueue_extract q)"
  shows "key y \<le> key (pq_data (PriorityQueue_extract q) ! 0)"
proof -
  let ?q = "pq_moved q" and ?c = "pq_count q - 1"
  have wf': "pq_wf (PriorityQueue_extract q)" using assms(3) by (rule extract_wf)
  have gt: "1 < pq_count q"
    using assms(5) size_pq_elems[OF wf'] by (cases "pq_count q \<le> 1") (auto simp: pq_elems_def)
  note ks = heapify_largest_keyed[of ?q key S 0] and nth = moved_nth[OF assms(3) gt]
    and below = heap_below_children[OF assms(1-4)]
  let ?K = "\<lambda>i. key (pq_data q ! i)"
  have y: "\<exists>i\<le>?c. 0 < i \<and> key y = ?K i"
  proof -
    have "y \<in># pq_elems ?q"
      using assms(3,5) heapify_elems[of ?q 0] by (auto simp: extract_moved[OF gt] pq_moved_def pq_wf_def)
    then obtain i where "i < ?c" "pq_data ?q ! i = y"
      using pq_elems_nth[OF moved_wf[OF assms(3)], of y] by auto
    then show ?thesis
      using nth[of i] gt by (intro exI[of _ "if i = 0 then ?c else i"]) auto
  qed
  have "left 0 = 1" "right 0 = 2" by (simp_all add: left_def right_def)
  then have big: "heapify_largest ?q 0 =
     (if 1 < ?c \<and> ?K 2 < ?K 1 then 1 else if 2 < ?c \<and> ?K ?c < ?K 2 then 2 else 0)"
    using ks assms(1) moved_in[OF assms(2,3) gt] gt nth[of 0] nth[of 1] nth[of 2]
    by (cases "2 \<le> ?c") simp_all
  have root: "pq_data (PriorityQueue_extract q) ! 0 = pq_data ?q ! heapify_largest ?q 0"
  proof (cases "heapify_largest ?q 0 = 0")
    case True then show ?thesis by (simp add: extract_moved[OF gt] heapify_stop)
  next
    case False
    then show ?thesis
      using assms(3) gt heapify_below[of 0 "heapify_largest ?q 0" "heapify_swap ?q 0"]
      by (simp add: extract_moved[OF gt] heapify_step)
        (auto simp: heapify_swap_def swap_slots_def pq_moved_def pq_wf_def nth_list_update)
  qed
  from y obtain i where i: "i \<le> ?c" "0 < i" "key y = ?K i" by blast
  have le: "?K i \<le> ?K 1 \<or> 1 < ?c \<and> ?K i \<le> ?K 2" "?K ?c \<le> ?K 1 \<or> 1 < ?c \<and> ?K ?c \<le> ?K 2"
    using below[of i] below[of ?c] i(2) le_less_trans[OF i(1), of "pq_count q"] gt by auto
  consider "?c = 1" | "?c = 2" | "2 < ?c" using gt by linarith
  then show ?thesis
    by cases (use le i nth[of 1] nth[of 2] nth[of 0] in \<open>auto simp: root big not_less\<close>)
qed

text \<open>Extraction keeps the heap order when the element in the last slot is a minimal one.\<close>

lemma extract_heap:
  assumes "keyed (pq_cmp_func q) key S" "set_mset (pq_elems q) \<subseteq> S" "pq_wf q" "pq_heap q"
    and "\<forall>y\<in>#pq_elems q. key (pq_data q ! (pq_count q - 1)) \<le> key y"
  shows "pq_heap (PriorityQueue_extract q)"
proof (cases "1 < pq_count q")
  case False
  then show ?thesis by (auto simp: pq_heap_def)
next
  case True
  let ?q = "pq_moved q" and ?c = "pq_count q - 1"
  have S: "pq_data q ! j \<in> S" and low: "key (pq_data q ! ?c) \<le> key (pq_data q ! j)" if "j < pq_count q" for j
    using assms(2,5) pq_nth_in[OF assms(3) that] by auto
  have ord: "key (pq_data q ! i) \<le> key (pq_data q ! parent i)" if "0 < i" "i < pq_count q" for i
    using assms(4) that keyedD(1)[OF assms(1) S S, of "parent i" i] parent_less_trans[OF that]
    by (auto simp: pq_heap_def)
  have pc: "parent i \<le> ?c" if "0 < i" "i < ?c" for i
    using parent_less_trans[OF that] by simp
  note nth = moved_nth[OF assms(3) True]
  have "sinking key ?q 0"
    unfolding sinking_def Let_def
    using True assms(3) ord pc low by (auto simp: nth pq_wf_def)
  then show ?thesis
    unfolding extract_moved[OF True]
    using assms(1) moved_in[OF assms(2,3) True] by (intro heapify_restores_heap) auto
qed

section \<open>Insertion\<close>

text \<open>
  The loop of \<open>PriorityQueue_insertInternal\<close> moves elements down along the path from slot
  \<open>i\<close> to the root; \<open>rising\<close> says that a key \<open>k\<close> put into slot \<open>i\<close> could only be out of order
  with respect to its ancestors.
\<close>

definition rising :: "('a \<Rightarrow> int) \<Rightarrow> int \<Rightarrow> 'a list \<Rightarrow> nat \<Rightarrow> nat \<Rightarrow> bool" where
  "rising key k ptr n i \<longleftrightarrow>
     (let K = (\<lambda>j. key (ptr ! j)) in
        i \<le> n \<and> n < length ptr
      \<and> (\<forall>j. 0 < j \<and> j \<le> n \<and> j \<noteq> i \<and> parent j \<noteq> i \<longrightarrow> K j \<le> K (parent j))
      \<and> (\<forall>j. 0 < j \<and> j \<le> n \<and> parent j = i \<longrightarrow> K j \<le> k \<and> (0 < i \<longrightarrow> K j \<le> K (parent i))))"

lemma rising_step:
  assumes "rising key k ptr n i" "0 < i" "key (ptr ! parent i) < k"
  shows "rising key k (ptr[i := ptr ! parent i]) n (parent i)"
proof -
  let ?p = "parent i" and ?ptr = "ptr[i := ptr ! parent i]"
  have lt: "?p < i" using assms(2) by (rule parent_less)
  have n: "i \<le> n" "n < length ptr"
    and A: "\<And>j. 0 < j \<Longrightarrow> j \<le> n \<Longrightarrow> j \<noteq> i \<Longrightarrow> parent j \<noteq> i \<Longrightarrow> key (ptr ! j) \<le> key (ptr ! parent j)"
    and B: "\<And>j. 0 < j \<Longrightarrow> j \<le> n \<Longrightarrow> parent j = i \<Longrightarrow> key (ptr ! j) \<le> key (ptr ! ?p)"
    using assms(1,2) by (auto simp: rising_def Let_def)
  have up: "0 < ?p \<Longrightarrow> key (ptr ! ?p) \<le> key (ptr ! parent ?p)" and pp: "0 < ?p \<Longrightarrow> parent ?p < i"
    using A[of ?p] lt n parent_less[of ?p] by auto
  have A': "key (?ptr ! j) \<le> key (?ptr ! parent j)" if "0 < j" "j \<le> n" "j \<noteq> ?p" "parent j \<noteq> ?p" for j
    using that A[of j] B[of j] n by (cases "parent j = i") (auto simp: nth_list_update)
  have B': "key (?ptr ! j) \<le> key (ptr ! ?p)" if "0 < j" "j \<le> n" "parent j = ?p" for j
    using that A[of j] n lt by (cases "j = i") auto
  have C': "key (?ptr ! j) \<le> k \<and> (0 < ?p \<longrightarrow> key (?ptr ! j) \<le> key (?ptr ! parent ?p))"
    if "0 < j" "j \<le> n" "parent j = ?p" for j
    using B'[OF that] assms(3) up pp by auto
  show ?thesis
    unfolding rising_def Let_def using A' C' n lt by simp
qed

lemma insert_sift_spec:
  assumes "insert_sift cmp ptr x i = (ptr', j)" "i \<le> n" "n < length ptr"
  shows "length ptr' = length ptr \<and> j \<le> i \<and> drop (Suc n) ptr' = drop (Suc n) ptr
     \<and> mset (take (Suc n) (ptr'[j := x])) = mset (take (Suc n) (ptr[i := x]))"
  using assms
proof (induction cmp ptr x i rule: insert_sift.induct)
  case (2 cmp ptr x k)
  let ?i = "Suc k" and ?p = "parent (Suc k)"
  have lt: "?p < ?i" by (simp add: parent_less)
  show ?case
  proof (cases "0 \<le> cmp (ptr ! ?p) x")
    case False
    have eq: "(ptr[?i := ptr ! ?p])[?p := x] = (ptr[?i := x])[?i := ptr[?i := x] ! ?p, ?p := ptr[?i := x] ! ?i]"
      using lt "2.prems" by (simp add: nth_list_update)
    have "mset (take (Suc n) ((ptr[?i := ptr ! ?p])[?p := x])) = mset (take (Suc n) (ptr[?i := x]))"
      unfolding eq using lt "2.prems" by (intro mset_take_swap) auto
    with False "2.IH"[OF refl False] "2.prems" lt show ?thesis by (auto simp: Let_def)
  qed (use "2.prems" in auto)
qed auto

lemma rising_done:
  assumes "rising key (key x) ptr n i" "i = 0 \<or> key x \<le> key (ptr ! parent i)" "0 < m" "m \<le> n"
  shows "key (ptr[i := x] ! m) \<le> key (ptr[i := x] ! parent m)"
proof -
  have n: "i \<le> n" "n < length ptr" "parent m \<noteq> m" "parent m < length ptr"
    using assms parent_less[OF assms(3)] by (auto simp: rising_def Let_def)
  show ?thesis
    using assms n by (cases "m = i"; cases "parent m = i") (auto simp: rising_def Let_def nth_list_update)
qed

lemma insert_sift_heap:
  assumes "insert_sift cmp ptr x i = (ptr', j)" "keyed cmp key S" "x \<in> S"
    and "\<forall>j\<le>n. j \<noteq> i \<longrightarrow> ptr ! j \<in> S" and "rising key (key x) ptr n i"
    and "0 < m" "m \<le> n"
  shows "key (ptr'[j := x] ! m) \<le> key (ptr'[j := x] ! parent m)"
  using assms(1-5)
proof (induction cmp ptr x i rule: insert_sift.induct)
  case (1 cmp ptr x)
  then show ?case using rising_done[of key x ptr n 0 m] assms(6,7) by simp
next
  case (2 cmp ptr x k)
  let ?p = "parent (Suc k)"
  have p: "?p < Suc k" "?p \<le> n" "Suc k \<le> n" "n < length ptr"
    using "2.prems"(5) parent_less[of "Suc k"] by (auto simp: rising_def Let_def)
  have S: "ptr ! ?p \<in> S" using "2.prems"(4) p by auto
  show ?case
  proof (cases "0 \<le> cmp (ptr ! ?p) x")
    case True
    then have "key x \<le> key (ptr ! ?p)" using keyedD(1)[OF "2.prems"(2) S "2.prems"(3)] by simp
    then show ?thesis
      using rising_done[OF "2.prems"(5) _ assms(6,7)] True "2.prems"(1) by (auto simp: Let_def)
  next
    case False
    then have lt: "key (ptr ! ?p) < key x" using keyedD(1)[OF "2.prems"(2) S "2.prems"(3)] by simp
    show ?thesis
      using False "2.IH"[OF refl False] "2.prems" S p rising_step[OF "2.prems"(5) _ lt]
      by (auto simp: Let_def nth_list_update)
  qed
qed

section \<open>Rounding up a capacity\<close>

lemma int_shl1_value: "int_shl1 i = (if i mod 32 = 31 then - (2 ^ 31) else 2 ^ (i mod 32))"
proof (cases "i mod 32 = 31")
  case True
  then show ?thesis by (simp add: int_shl1_def to_int32_def)
next
  case False
  then have "i mod 32 < 31" using mod_less_divisor[of 32 i] by linarith
  then have "(2::int) ^ (i mod 32) < 2 ^ 31" by (intro power_strict_increasing) auto
  with False show ?thesis by (simp add: int_shl1_def to_int32_def)
qed

lemma powify_high:
  assumes "val < 2 ^ 64"
  shows "and val (size_t_of (int_shl1 63)) \<noteq> 0 \<longleftrightarrow> 2 ^ 31 \<le> val"
proof -
  have m: "size_t_of (int_shl1 63) = push_bit 31 (mask 33)"
    by (simp add: size_t_of_def int_shl1_value push_bit_eq_mult mask_eq_exp_minus_1)
  have "and val (push_bit 31 (mask 33)) = push_bit 31 (take_bit 33 (drop_bit 31 val))"
    by (rule bit_eqI) (auto simp: bit_simps)
  also have "take_bit 33 (drop_bit 31 val) = drop_bit 31 val"
    using assms by (simp add: take_bit_nat_eq_self_iff drop_bit_eq_div)
  finally show ?thesis
    by (simp add: m drop_bit_eq_div push_bit_eq_mult) (simp add: div_greater_zero_iff)
qed

lemma powify_low:
  assumes "2 ^ k \<le> val" "val < 2 ^ Suc k" "k \<le> 30" "k + 33 \<le> n" "n \<le> 63"
  shows "powify_loop val n = 2 ^ Suc k - 1"
  using assms(4,5)
proof (induction n)
  case (Suc i)
  have i: "i mod 32 = i - 32" "i - 32 < 31" using Suc.prems by (auto simp: mod_if)
  have mask: "size_t_of (int_shl1 i) = 2 ^ (i - 32)"
    using i power_strict_increasing[of "i - 32" 31 "2::int"]
    by (simp add: int_shl1_value size_t_of_def nat_power_eq)
  show ?case
  proof (cases "i = k + 32")
    case True
    have "val div 2 ^ k = 1" using assms(1,2) by (intro div_nat_eqI) auto
    then have "bit val k" by (simp add: bit_iff_odd)
    moreover have "size_t_of (to_int32 (int_shl1 (i + 1) - 1)) = 2 ^ Suc k - 1"
    proof (cases "k = 30")
      case True
      then show ?thesis using \<open>i = k + 32\<close> by (simp add: int_shl1_value size_t_of_def to_int32_def)
    next
      case False
      with assms(3) have "k < 30" by simp
      then have "(2::int) ^ Suc k < 2 ^ 31" by (intro power_strict_increasing) auto
      moreover have "(i + 1) mod 32 = Suc k" using \<open>i = k + 32\<close> \<open>k < 30\<close> by (simp add: mod_if)
      moreover have "nat (2 * 2 ^ k - 1) = 2 * 2 ^ k - Suc 0"
        using nat_int[of "2 * 2 ^ k - Suc 0"] by (simp add: of_nat_diff)
      ultimately show ?thesis using \<open>k < 30\<close>
        by (simp add: int_shl1_value size_t_of_def to_int32_def)
    qed
    moreover have "i - 32 = k" "i \<noteq> 63" using True assms(3) by auto
    ultimately show ?thesis
      unfolding powify_loop.simps(2) mask by (simp only: and_exp_eq_0_iff_not_bit) simp
  next
    case False
    have "val < 2 ^ (i - 32)"
      using assms(2) Suc.prems False order_less_le_trans power_increasing[of "Suc k" "i - 32" "2::nat"] by force
    then have "\<not> bit val (i - 32)" by (simp add: bit_iff_odd)
    with False Suc show ?thesis by (simp add: mask and_exp_eq_0_iff_not_bit)
  qed
qed simp


lemma powify_zero: "powify_loop 0 n = 1"
  by (induction n) auto

lemma powify_cases:
  assumes "val < 2 ^ 64"
  shows "powify val = (if 2 ^ 31 \<le> val then val else powify_loop val 63)"
proof -
  have "powify val = (if and val (size_t_of (int_shl1 63)) \<noteq> 0 then val else powify_loop val 63)"
    unfolding powify_def using powify_loop.simps(2)[of val 63] by simp
  with powify_high[OF assms] show ?thesis by simp
qed

lemma ex_top_bit: "0 < (val :: nat) \<Longrightarrow> \<exists>k. 2 ^ k \<le> val \<and> val < 2 ^ Suc k"
  by (metis ex_power_ivl1 One_nat_def Suc_eq_plus1 Suc_leI one_add_one order_refl)


section \<open>Insertion and initialisation as a whole\<close>

lemma insertInternal_frame [simp]:
  "pq_count (PriorityQueue_insertInternal q x) = pq_count q + 1"
  "pq_allocated (PriorityQueue_insertInternal q x) = pq_allocated q"
  "pq_elem_size (PriorityQueue_insertInternal q x) = pq_elem_size q"
  "pq_cmp_func (PriorityQueue_insertInternal q x) = pq_cmp_func q"
  by (simp_all add: PriorityQueue_insertInternal_def split: prod.split)

lemma insertInternal_elems:
  assumes "pq_wf q" "pq_count q < pq_allocated q"
  shows "pq_wf (PriorityQueue_insertInternal q x)"
    and "pq_elems (PriorityQueue_insertInternal q x) = add_mset x (pq_elems q)"
proof -
  obtain ptr j where s: "insert_sift (pq_cmp_func q) (pq_data q) x (pq_count q) = (ptr, j)"
    by fastforce
  note spec = insert_sift_spec[OF s order_refl]
  have len: "pq_count q < length (pq_data q)" using assms by (simp add: pq_wf_def)
  show "pq_wf (PriorityQueue_insertInternal q x)"
    using assms spec by (auto simp: PriorityQueue_insertInternal_def s pq_wf_def)
  show "pq_elems (PriorityQueue_insertInternal q x) = add_mset x (pq_elems q)"
    using spec len mset_take_hole[OF len, of x]
    by (simp add: PriorityQueue_insertInternal_def s pq_elems_def)
qed

lemma insertInternal_heap:
  assumes "keyed (pq_cmp_func q) key S" "insert x (set_mset (pq_elems q)) \<subseteq> S" "pq_wf q" "pq_heap q"
    and "pq_count q < pq_allocated q"
  shows "pq_heap (PriorityQueue_insertInternal q x)"
proof -
  let ?q = "PriorityQueue_insertInternal q x" and ?n = "pq_count q"
  obtain ptr j where s: "insert_sift (pq_cmp_func q) (pq_data q) x ?n = (ptr, j)"
    by fastforce
  have S: "pq_data q ! i \<in> S" if "i < ?n" for i
    using assms(2) pq_nth_in[OF assms(3) that] by auto
  have ord: "key (pq_data q ! i) \<le> key (pq_data q ! parent i)" if "0 < i" "i < ?n" for i
    using assms(4) that keyedD(1)[OF assms(1) S S, of "parent i" i] parent_less_trans[OF that]
    by (auto simp: pq_heap_def)
  have np: "parent i \<noteq> ?n" if "0 < i" "i \<le> ?n" for i
    using parent_less[OF that(1)] that(2) by simp
  have "rising key (key x) (pq_data q) ?n ?n"
    using assms(3,5) ord np by (auto simp: rising_def Let_def pq_wf_def)
  then have k: "key (ptr[j := x] ! m) \<le> key (ptr[j := x] ! parent m)" if "0 < m" "m \<le> ?n" for m
    using insert_sift_heap[OF s assms(1), of ?n m] assms(2) S that by auto
  have "y \<in> S" if "y \<in># pq_elems ?q" for y
    using that assms(2) insertInternal_elems(2)[OF assms(3,5), of x] by auto
  then have S': "ptr[j := x] ! i \<in> S" if "i \<le> ?n" for i
    using pq_nth_in[OF insertInternal_elems(1)[OF assms(3,5), of x], of i] that
    by (simp add: PriorityQueue_insertInternal_def s)
  show ?thesis
    using k keyedD(1)[OF assms(1) S' S'] parent_less_trans[of _ "Suc ?n"]
    by (auto simp: pq_heap_def PriorityQueue_insertInternal_def s less_Suc_eq_le)
qed

text \<open>
  The invariant of a queue in memory: its array has the allocated size, which fits into the
  address space.
\<close>

definition pq_inv :: "'a PriorityQueue \<Rightarrow> bool" where
  "pq_inv q \<longleftrightarrow> pq_wf q \<and> 0 < pq_elem_size q \<and> pq_elem_size q \<le> address_space
     \<and> pq_allocated q * pq_elem_size q \<le> address_space"

lemma pq_inv_wf: "pq_inv q \<Longrightarrow> pq_wf q"
  by (simp add: pq_inv_def)

text \<open>The queue an insertion writes into: the old one, or one with the array enlarged.\<close>

definition pq_capacity :: "'a PriorityQueue \<Rightarrow> nat" where
  "pq_capacity q = (if pq_count q = pq_allocated q then pq_allocated q * 2 + 1 else pq_allocated q)"

definition pq_grown :: "'a heap_env \<Rightarrow> 'a PriorityQueue \<Rightarrow> 'a PriorityQueue" where
  "pq_grown H q = q\<lparr>pq_allocated := pq_capacity q,
     pq_data := pq_data q @ map (env_mem H) [length (pq_data q)..<pq_capacity q]\<rparr>"

lemma capacity_fits:
  assumes "pq_inv q"
  shows "pq_capacity q * pq_elem_size q \<le> 4 * address_space" "pq_capacity q < 2 ^ 64"
proof -
  show *: "pq_capacity q * pq_elem_size q \<le> 4 * address_space"
    using assms by (auto simp: pq_inv_def pq_capacity_def algebra_simps)
  have "pq_capacity q \<le> pq_capacity q * pq_elem_size q" using assms by (simp add: pq_inv_def)
  also have "\<dots> < 2 ^ 64" using * by (simp add: address_space_def)
  finally show "pq_capacity q < 2 ^ 64" .
qed

lemma insert_iff:
  assumes "pq_inv q"
  shows "PriorityQueue_insert H q x = Inr q' \<longleftrightarrow>
     q' = PriorityQueue_insertInternal (pq_grown H q) x \<and>
     (pq_count q = pq_allocated q \<longrightarrow> \<not> env_oom H \<and> pq_capacity q * pq_elem_size q \<le> address_space)"
proof (cases "pq_count q = pq_allocated q")
  case True
  note fits = capacity_fits[OF assms]
  have "length (pq_data q) = pq_allocated q" "0 < pq_elem_size q"
    using assms by (auto simp: pq_inv_def pq_wf_def)
  then show ?thesis
    using True fits
    by (simp add: PriorityQueue_insert_def pq_capacity_def pq_grown_def run_simps Erealloc_Inr_iff)
      (auto simp: Let_def)
next
  case False
  then show ?thesis
    using assms by (auto simp: PriorityQueue_insert_def pq_grown_def pq_capacity_def pq_inv_def pq_wf_def)
qed

lemma grown_same:
  assumes "pq_inv q"
  shows "pq_wf (pq_grown H q)" "pq_count (pq_grown H q) < pq_allocated (pq_grown H q)"
    and "pq_elems (pq_grown H q) = pq_elems q" "pq_heap (pq_grown H q) = pq_heap q"
    and "pq_cmp_func (pq_grown H q) = pq_cmp_func q" "pq_count (pq_grown H q) = pq_count q"
    and "pq_elem_size (pq_grown H q) = pq_elem_size q" "pq_allocated (pq_grown H q) = pq_capacity q"
proof -
  have nth: "i < pq_count q \<Longrightarrow> pq_data (pq_grown H q) ! i = pq_data q ! i" for i
    using assms by (auto simp: pq_grown_def pq_inv_def pq_wf_def nth_append)
  show "pq_heap (pq_grown H q) = pq_heap q"
    using nth parent_less_trans by (auto simp: pq_heap_def) (auto simp: pq_grown_def)
qed (use assms in \<open>auto simp: pq_grown_def pq_inv_def pq_wf_def pq_elems_def pq_capacity_def\<close>)

lemma insert_inv [wf_intros]:
  assumes "pq_inv q" "PriorityQueue_insert H q x = Inr q'"
  shows "pq_inv q'" "pq_elems q' = add_mset x (pq_elems q)" "pq_cmp_func q' = pq_cmp_func q"
proof -
  have q': "q' = PriorityQueue_insertInternal (pq_grown H q) x"
    and fit: "pq_count q = pq_allocated q \<longrightarrow> pq_capacity q * pq_elem_size q \<le> address_space"
    using assms by (auto simp: insert_iff)
  note g = grown_same[OF assms(1), of H] and i = insertInternal_elems[OF grown_same(1,2)[OF assms(1), of H]]
  show "pq_inv q'"
    using assms(1) fit i(1) by (auto simp: q' pq_inv_def g) (auto simp: pq_capacity_def)
  show "pq_elems q' = add_mset x (pq_elems q)" "pq_cmp_func q' = pq_cmp_func q"
    using i(2) by (auto simp: q' g)
qed

lemma insert_heap:
  assumes "pq_inv q" "PriorityQueue_insert H q x = Inr q'" "pq_heap q"
    and "keyed (pq_cmp_func q) key S" "insert x (set_mset (pq_elems q)) \<subseteq> S"
  shows "pq_heap q'"
proof -
  note g = grown_same[OF assms(1), of H]
  have "q' = PriorityQueue_insertInternal (pq_grown H q) x" using assms(1,2) by (simp add: insert_iff)
  then show ?thesis
    using insertInternal_heap[of "pq_grown H q" key S x] g(1,2) assms(3-5) by (simp add: g(3-5))
qed

lemma extract_inv [wf_intros]: "pq_inv q \<Longrightarrow> pq_inv (PriorityQueue_extract q)"
  by (auto simp: pq_inv_def extract_wf)

section \<open>The interface of a work queue\<close>

text \<open>
  What a client of the queue may rely on whatever the comparison function does: insertion
  adds one element, the top is an element of the queue, and removing it removes exactly
  that element. \<open>drains\<close> is the loop of a client that takes elements from the top as long
  as they are due.
\<close>

inductive drains :: "('q \<Rightarrow> 'a option) \<Rightarrow> ('q \<Rightarrow> 'q) \<Rightarrow> ('a \<Rightarrow> bool) \<Rightarrow> 'q \<Rightarrow> 'a list \<Rightarrow> 'q \<Rightarrow> bool"
  for front deq due where
  drains_stop: "(\<And>x. front q = Some x \<Longrightarrow> \<not> due x) \<Longrightarrow> drains front deq due q [] q"
| drains_take: "front q = Some x \<Longrightarrow> due x \<Longrightarrow> drains front deq due (deq q) xs q' \<Longrightarrow>
     drains front deq due q (x # xs) q'"

inductive_cases drains_NilE: "drains front deq due q [] q'"
inductive_cases drains_ConsE: "drains front deq due q (x # xs) q'"

locale work_queue =
  fixes enq :: "'q \<Rightarrow> 'a \<Rightarrow> 'q run"
    and deq :: "'q \<Rightarrow> 'q"
    and front :: "'q \<Rightarrow> 'a option"
    and elems :: "'q \<Rightarrow> 'a multiset"
    and inv :: "'q \<Rightarrow> bool"
  assumes enq_inv: "inv q \<Longrightarrow> enq q x = Inr q' \<Longrightarrow> inv q'"
    and enq_elems: "inv q \<Longrightarrow> enq q x = Inr q' \<Longrightarrow> elems q' = add_mset x (elems q)"
    and deq_inv: "inv q \<Longrightarrow> inv (deq q)"
    and top_None: "inv q \<Longrightarrow> front q = None \<longleftrightarrow> elems q = {#}"
    and deq_elems: "inv q \<Longrightarrow> front q = Some x \<Longrightarrow> add_mset x (elems (deq q)) = elems q"
begin

lemma top_in: "inv q \<Longrightarrow> front q = Some x \<Longrightarrow> x \<in># elems q"
  by (metis deq_elems union_single_eq_member)

lemma drains_conserves:
  "drains front deq due q xs q' \<Longrightarrow> inv q \<Longrightarrow> inv q' \<and> mset xs + elems q' = elems q"
proof (induction rule: drains.induct)
  case (drains_take q x xs q')
  then show ?case using deq_inv[of q] deq_elems[of q x] by auto
qed simp

lemma drains_due: "drains front deq due q xs q' \<Longrightarrow> x \<in> set xs \<Longrightarrow> due x"
  by (induction rule: drains.induct) auto

lemma drains_end: "drains front deq due q xs q' \<Longrightarrow> front q' = Some x \<Longrightarrow> \<not> due x"
  by (induction rule: drains.induct) auto

lemma drains_total: "inv q \<Longrightarrow> \<exists>xs q'. drains front deq due q xs q'"
proof (induction "size (elems q)" arbitrary: q rule: less_induct)
  case less
  show ?case
  proof (cases "\<exists>x. front q = Some x \<and> due x")
    case True
    then obtain x where x: "front q = Some x" "due x" by blast
    have "size (elems (deq q)) < size (elems q)"
      using deq_elems[OF less.prems x(1)] by (metis lessI size_add_mset)
    then show ?thesis
      using less.hyps[of "deq q"] deq_inv[OF less.prems] x by (blast intro: drains_take)
  next
    case False
    then show ?thesis by (blast intro: drains_stop)
  qed
qed

end

text \<open>A work queue whose top has the greatest key while a heap order holds.\<close>

locale ordered_queue = work_queue enq deq front elems inv
  for enq :: "'q \<Rightarrow> 'a \<Rightarrow> 'q run" and deq front elems inv +
  fixes key :: "'a \<Rightarrow> int" and ordered :: "'q \<Rightarrow> bool" and valid :: "'a \<Rightarrow> bool"
  assumes enq_ordered: "inv q \<Longrightarrow> ordered q \<Longrightarrow> valid x \<Longrightarrow> enq q x = Inr q' \<Longrightarrow> ordered q'"
    and top_greatest: "inv q \<Longrightarrow> ordered q \<Longrightarrow> front q = Some x \<Longrightarrow> y \<in># elems q \<Longrightarrow> key y \<le> key x"
    and next_greatest: "inv q \<Longrightarrow> ordered q \<Longrightarrow> front (deq q) = Some x \<Longrightarrow> y \<in># elems (deq q) \<Longrightarrow> key y \<le> key x"
begin

text \<open>When an ordered queue has no due element at its top, none of its elements is due.\<close>

lemma none_due:
  assumes "inv q" "ordered q" "\<And>x y. key x \<le> key y \<Longrightarrow> due x \<Longrightarrow> due y"
    and "\<And>x. front q = Some x \<Longrightarrow> \<not> due x" "y \<in># elems q"
  shows "\<not> due y"
  using assms top_None[OF assms(1)] top_greatest[OF assms(1,2)] by (cases "front q") auto

text \<open>The first two elements taken from an ordered queue come in the order of their keys.\<close>

lemma first_two_in_order:
  assumes "inv q" "ordered q" "front q = Some x" "front (deq q) = Some y" "z \<in># elems (deq q)"
  shows "key z \<le> key y \<and> key y \<le> key x"
proof
  show "key z \<le> key y" using assms by (auto intro: next_greatest)
  have "y \<in># add_mset x (elems (deq q))"
    using top_in[OF deq_inv[OF assms(1)] assms(4)] by simp
  then have "y \<in># elems q" by (simp only: deq_elems[OF assms(1,3)])
  then show "key y \<le> key x" using assms by (auto intro: top_greatest)
qed

end

text \<open>
  The queue of the program provides both interfaces: the second one for a comparison function
  that follows a key on a set of elements.
\<close>

lemma max_extract:
  assumes "pq_inv q" "PriorityQueue_max q = Some x"
  shows "add_mset x (pq_elems (PriorityQueue_extract q)) = pq_elems q"
  using assms extract_elems[OF pq_inv_wf[OF assms(1)]]
  by (auto simp: PriorityQueue_max_def PriorityQueue_count_def split: if_splits)

lemma max_None: "pq_inv q \<Longrightarrow> PriorityQueue_max q = None \<longleftrightarrow> pq_elems q = {#}"
  by (auto simp: PriorityQueue_max_def PriorityQueue_count_def pq_inv_def pq_wf_def pq_elems_def)

interpretation pq: work_queue "PriorityQueue_insert H" PriorityQueue_extract PriorityQueue_max pq_elems pq_inv
  for H :: "'a heap_env"
  by unfold_locales (auto simp: insert_inv extract_inv max_extract max_None)

definition pq_ordered :: "('a \<Rightarrow> 'a \<Rightarrow> int) \<Rightarrow> ('a \<Rightarrow> int) \<Rightarrow> 'a set \<Rightarrow> 'a PriorityQueue \<Rightarrow> bool" where
  "pq_ordered cmp key S q \<longleftrightarrow>
     keyed cmp key S \<and> pq_cmp_func q = cmp \<and> set_mset (pq_elems q) \<subseteq> S \<and> pq_heap q"

lemma max_Some: "PriorityQueue_max q = Some x \<longleftrightarrow> 0 < pq_count q \<and> x = pq_data q ! 0"
  by (auto simp: PriorityQueue_max_def PriorityQueue_count_def)

interpretation pqo: ordered_queue "PriorityQueue_insert H" PriorityQueue_extract PriorityQueue_max
    pq_elems pq_inv key "pq_ordered cmp key S" "\<lambda>x. x \<in> S"
  for H :: "'a heap_env" and cmp key S
proof (unfold_locales, goal_cases)
  case (1 q x q')
  then show ?case using insert_heap[of q H x q' key S] insert_inv[of q H x q'] by (auto simp: pq_ordered_def)
next
  case (2 q x y)
  then show ?case
    using heap_root_greatest[of q key S] pq_elems_nth[OF pq_inv_wf[OF 2(1)], of y]
    by (auto simp: pq_ordered_def max_Some pq_inv_def)
next
  case (3 q x y)
  then show ?case
    using extract_next_greatest[of q key S y] by (auto simp: pq_ordered_def max_Some pq_inv_def)
qed

section \<open>Properties\<close>

text \<open>
  C33: inserting into a queue whose array can be held in memory returns, keeps the
  representation invariant and the heap order, and adds exactly the given element.
\<close>

theorem pq_insert_correct:
  assumes "pq_inv q" and "pq_ordered cmp key S q" and "x \<in> S"
    and "\<not> env_oom H" and "(pq_allocated q * 2 + 1) * pq_elem_size q \<le> address_space"
  shows "\<exists>q'. PriorityQueue_insert H q x = Inr q' \<and> pq_inv q' \<and> pq_ordered cmp key S q'
            \<and> pq_elems q' = add_mset x (pq_elems q)"
proof -
  have ins: "PriorityQueue_insert H q x = Inr (PriorityQueue_insertInternal (pq_grown H q) x)"
    using assms by (simp add: insert_iff pq_capacity_def)
  from ins pq.enq_inv[OF assms(1) ins] pq.enq_elems[OF assms(1) ins] pqo.enq_ordered[OF assms(1-3) ins]
  show ?thesis by blast
qed

text \<open>A small queue of integers in a given memory, for evaluation.\<close>

abbreviation int_cmp :: "int \<Rightarrow> int \<Rightarrow> int" where
  "int_cmp \<equiv> \<lambda>x y. x - y"

definition int_env :: "int heap_env" where
  "int_env = \<lparr>env_oom = False, env_mem = (\<lambda>_. 0)\<rparr>"

definition int_queue :: "int list \<Rightarrow> int PriorityQueue" where
  "int_queue xs = \<lparr>pq_data = xs, pq_count = length xs, pq_allocated = length xs,
                   pq_elem_size = 4, pq_cmp_func = int_cmp\<rparr>"

lemma int_cmp_keyed: "keyed int_cmp id S"
  by (auto simp: keyed_def)

lemma pq_heap_code [code]:
  "pq_heap q \<longleftrightarrow> list_all (\<lambda>i. 0 \<le> pq_cmp_func q (pq_data q ! parent i) (pq_data q ! i)) [1..<pq_count q]"
  by (auto simp: pq_heap_def list_all_iff Suc_le_eq)

lemma int_queue_ordered: "pq_heap (int_queue xs) \<Longrightarrow> pq_ordered int_cmp id UNIV (int_queue xs)"
  using int_cmp_keyed by (simp add: pq_ordered_def int_queue_def)

lemma int_queue_inv: "length xs \<le> 1000 \<Longrightarrow> pq_inv (int_queue xs)"
  by (simp add: pq_inv_def pq_wf_def int_queue_def address_space_def)

theorem pq_insert_correct_witness:
  "\<exists>q'. PriorityQueue_insert int_env (int_queue [7, 6, 5]) 9 = Inr q' \<and> pq_inv q'
      \<and> pq_ordered int_cmp id UNIV q' \<and> pq_elems q' = {#9, 7, 6, 5#}"
proof -
  have o: "pq_ordered int_cmp id UNIV (int_queue [7, 6, 5])"
    by (rule int_queue_ordered) code_simp
  have i: "pq_inv (int_queue [7, 6, 5])"
    by (simp add: int_queue_inv)
  show ?thesis
    using pq_insert_correct[OF i o, of 9 int_env]
    by (simp add: int_queue_def int_env_def address_space_def pq_elems_def)
qed

text \<open>
  Extraction removes exactly the element at the root, keeps the representation invariant,
  and leaves every slot behind the queue as it was, whatever the comparison function does.
\<close>

theorem pq_extract_removes_root:
  assumes "pq_inv q" and "PriorityQueue_max q = Some x"
  shows "pq_inv (PriorityQueue_extract q)
     \<and> add_mset x (pq_elems (PriorityQueue_extract q)) = pq_elems q
     \<and> PriorityQueue_count (PriorityQueue_extract q) + 1 = PriorityQueue_count q
     \<and> drop (pq_count q) (pq_data (PriorityQueue_extract q)) = drop (pq_count q) (pq_data q)"
  using pq.deq_inv[OF assms(1)] pq.deq_elems[OF assms] extract_unused[of q] assms(2)
  by (auto simp: PriorityQueue_count_def max_Some)

theorem pq_extract_removes_root_witness:
  "pq_inv (int_queue [9, 7, 5]) \<and> PriorityQueue_max (int_queue [9, 7, 5]) = Some 9
   \<and> pq_elems (PriorityQueue_extract (int_queue [9, 7, 5])) = {#7, 5#}"
proof -
  have i: "pq_inv (int_queue [9, 7, 5])" and m: "PriorityQueue_max (int_queue [9, 7, 5]) = Some 9"
    by (simp add: int_queue_inv) (simp add: int_queue_def max_Some)
  show ?thesis
    using i m pq_extract_removes_root[OF i m] by (simp add: pq_elems_def int_queue_def)
qed

text \<open>
  Two elements taken in a row from a queue in heap order come in the order of their keys,
  and the second is a greatest one of all that remain.
\<close>

theorem pq_first_two_in_order:
  assumes "pq_inv q" and "pq_ordered cmp key S q"
    and "PriorityQueue_max q = Some x" and "PriorityQueue_max (PriorityQueue_extract q) = Some y"
  shows "key y \<le> key x \<and> (\<forall>z\<in>#pq_elems (PriorityQueue_extract q). key z \<le> key y)"
  using pqo.first_two_in_order[OF assms] pq.top_in[OF pq.deq_inv[OF assms(1)] assms(4)] by blast

theorem pq_first_two_in_order_witness:
  "PriorityQueue_max (int_queue [9, 7, 8]) = Some 9
   \<and> PriorityQueue_max (PriorityQueue_extract (int_queue [9, 7, 8])) = Some 8
   \<and> set_mset (pq_elems (PriorityQueue_extract (int_queue [9, 7, 8]))) \<subseteq> {..8}"
proof -
  have i: "pq_inv (int_queue [9, 7, 8])" by (simp add: int_queue_inv)
  have o: "pq_ordered int_cmp id UNIV (int_queue [9, 7, 8])" by (rule int_queue_ordered) code_simp
  have m: "PriorityQueue_max (int_queue [9, 7, 8]) = Some 9"
    "PriorityQueue_max (PriorityQueue_extract (int_queue [9, 7, 8])) = Some 8"
    by code_simp+
  show ?thesis using m pq_first_two_in_order[OF i o m] by auto
qed

text \<open>
  Extraction keeps the heap order when the element in the last slot is a minimal one (for
  example right after a job that is scheduled later than all others was inserted).
\<close>

theorem pq_extract_keeps_order:
  assumes "pq_inv q" and "pq_ordered cmp key S q"
    and "\<forall>y\<in>#pq_elems q. key (pq_data q ! (pq_count q - 1)) \<le> key y"
  shows "pq_ordered cmp key S (PriorityQueue_extract q)"
proof -
  have "set_mset (pq_elems (PriorityQueue_extract q)) \<subseteq> set_mset (pq_elems q)"
  proof (cases "PriorityQueue_max q")
    case None
    then show ?thesis
      by (simp add: PriorityQueue_max_def PriorityQueue_count_def PriorityQueue_extract_def split: if_splits)
  next
    case (Some x)
    then show ?thesis using max_extract[OF assms(1)] by (metis diff_subset_eq_self add_mset_remove_trivial set_mset_mono)
  qed
  moreover have "pq_heap (PriorityQueue_extract q)"
    using assms by (intro extract_heap[of q key S]) (auto simp: pq_ordered_def pq_inv_def)
  ultimately show ?thesis using assms(2) by (auto simp: pq_ordered_def)
qed

theorem pq_extract_keeps_order_witness:
  "pq_ordered int_cmp id UNIV (PriorityQueue_extract (int_queue [9, 7, 8, 5]))"
proof -
  have i: "pq_inv (int_queue [9, 7, 8, 5])" by (simp add: int_queue_inv)
  have o: "pq_ordered int_cmp id UNIV (int_queue [9, 7, 8, 5])" by (rule int_queue_ordered) code_simp
  show ?thesis
    using pq_extract_keeps_order[OF i o] by (simp add: int_queue_def pq_elems_def)
qed

fun pq_drain :: "nat \<Rightarrow> 'a PriorityQueue \<Rightarrow> 'a list" where
  "pq_drain 0 q = []"
| "pq_drain (Suc n) q =
     (case PriorityQueue_max q of None \<Rightarrow> [] | Some x \<Rightarrow> x # pq_drain n (PriorityQueue_extract q))"

definition pq_filled :: "int list \<Rightarrow> int PriorityQueue run" where
  "pq_filled xs = bindR (PriorityQueue_init int_env int_cmp 7 4) (\<lambda>q. foldR (PriorityQueue_insert int_env) q xs)"

lemma pq_filled_start:
  "pq_filled xs = foldR (PriorityQueue_insert int_env)
     \<lparr>pq_data = [0, 0, 0, 0, 0, 0, 0], pq_count = 0, pq_allocated = 7, pq_elem_size = 4, pq_cmp_func = int_cmp\<rparr> xs"
proof -
  have "powify 7 = 7" using powify_cases[of 7] powify_low[of 2 7 63] by simp
  then show ?thesis
    by (simp add: pq_filled_def PriorityQueue_init_def Emalloc_Inr address_space_def int_env_def upt_rec)
qed

text \<open>
  In general extraction does not keep the heap order, since \<open>PriorityQueue_heapify\<close> moves
  the left child up whenever it is greater than its sibling, even if it is smaller than
  the element it replaces. A queue filled by seven insertions gives its elements back
  in the order 10, 9, 8, 7, 2, 6, 1.
\<close>

theorem pq_extract_breaks_order:
  "\<exists>q. pq_filled [10, 9, 8, 2, 1, 7, 6] = Inr q \<and> pq_heap q \<and> \<not> pq_heap (PriorityQueue_extract q)
     \<and> pq_drain 7 q = [10, 9, 8, 7, 2, 6, 1]"
proof -
  have "case foldR (PriorityQueue_insert int_env) \<lparr>pq_data = [0, 0, 0, 0, 0, 0, 0], pq_count = 0,
          pq_allocated = 7, pq_elem_size = 4, pq_cmp_func = int_cmp\<rparr> [10, 9, 8, 2, 1, 7, 6] of
          Inl _ \<Rightarrow> False
        | Inr q \<Rightarrow> pq_heap q \<and> \<not> pq_heap (PriorityQueue_extract q) \<and> pq_drain 7 q = [10, 9, 8, 7, 2, 6, 1]"
    by code_simp
  then show ?thesis unfolding pq_filled_start by (auto split: sum.splits)
qed

text \<open>
  The capacity \<open>powify\<close> computes for a 64-bit request is at least the requested one; below
  \<open>2 ^ 31\<close> it is the least number of the form \<open>2 ^ n - 1\<close> that is not smaller than the
  request, and above it is the request itself.
\<close>

theorem powify_spec:
  assumes "val < 2 ^ 64"
  shows "if val = 0 then powify val = 1
         else if 2 ^ 31 \<le> val then powify val = val
         else \<exists>k. 2 ^ k \<le> val \<and> val < 2 ^ Suc k \<and> powify val = 2 ^ Suc k - 1"
proof (cases "val = 0 \<or> 2 ^ 31 \<le> val")
  case True
  then show ?thesis using powify_cases[OF assms] by (auto simp: powify_zero)
next
  case False
  then obtain k where k: "2 ^ k \<le> val" "val < 2 ^ Suc k" using ex_top_bit by blast
  have "k \<le> 30"
  proof (rule ccontr)
    assume "\<not> k \<le> 30"
    then have "(2::nat) ^ 31 \<le> 2 ^ k" by (intro power_increasing) auto
    with k(1) False show False by simp
  qed
  with k False show ?thesis
    using powify_cases[OF assms] powify_low[OF k, of 63] by auto
qed

theorem powify_spec_witness: "powify 1023 = 1023 \<and> (1023::nat) < 2 ^ 64"
proof -
  have "\<exists>k. 2 ^ k \<le> (1023::nat) \<and> (1023::nat) < 2 ^ Suc k \<and> powify 1023 = 2 ^ Suc k - 1"
    using powify_spec[of 1023] by simp
  then obtain k where k: "2 ^ k \<le> (1023::nat)" "(1023::nat) < 2 ^ Suc k" "powify 1023 = 2 ^ Suc k - 1"
    by blast
  have "k = 9"
  proof (rule ccontr)
    assume "k \<noteq> 9"
    then consider "Suc k \<le> 9" | "10 \<le> k" by linarith
    then show False
      using k(1,2) power_increasing[of "Suc k" 9 "2::nat"] power_increasing[of 10 k "2::nat"] by cases auto
  qed
  with k(3) show ?thesis by simp
qed

end
