(* ===== verification/Worker.thy ===== *)
theory Worker
  imports Prioqueue Arguments
begin

text \<open>
  The worker process of \<open>src/src/worker.c\<close> with the data of \<open>src/src/jobinfo.h\<close> and
  \<open>src/src/arpmessage.h\<close>: it reads requests from a pipe, answers each at once with a forged ARP reply,
  repeats the answer after 2, 5 and 60 seconds, and on request poisons the intruder's own
  address. The main loop is a step function on the state of the process; everything the
  operating system answers during one round is an argument of the step.
\<close>

section \<open>Packets\<close>

text \<open>
  Multi-byte fields hold the value the host reads; \<open>htons\<close> converts to it. The arrays for IP addresses are
  given as \<open>in_addr\<close>, as which the code accesses them.
\<close>

type_synonym u16 = "16 word"

definition htons :: "u16 \<Rightarrow> u16" where
  "htons w = push_bit 8 (take_bit 8 w) OR drop_bit 8 w"

record ether_arp =
  ar_hrd :: u16
  ar_pro :: u16
  ar_hln :: u8
  ar_pln :: u8
  ar_op :: u16
  arp_sha :: ether_addr
  arp_spa :: in_addr
  arp_tha :: ether_addr
  arp_tpa :: in_addr

record ArpMessage =
  ether_dhost :: ether_addr
  ether_shost :: ether_addr
  ether_type :: u16
  msg_data :: ether_arp
  msg_padding :: "u8 list"

record sockaddr_ll =
  sll_family :: u16
  sll_protocol :: u16
  sll_ifindex :: int
  sll_hatype :: u16
  sll_pkttype :: u8
  sll_halen :: u8
  sll_addr :: "u8 list"

record ScheduleInfo =
  schedule_time :: int
  job_message :: ArpMessage
  job_address :: sockaddr_ll

text \<open>The enumeration for the kind of a request; the pipe may deliver any value.\<close>

definition jobSRC :: u32 where "jobSRC = 0"
definition jobDST :: u32 where "jobDST = 1"

record RequestInfo =
  rq_request :: ether_arp
  rq_mac :: ether_addr
  rq_type :: u32
  rq_poison_f :: bool
  rq_poison_v :: ether_addr

text \<open>The sizes of the structures on the platform, in bytes.\<close>

definition sizeof_ArpMessage :: int where "sizeof_ArpMessage = 61"
definition sizeof_RequestInfo :: int where "sizeof_RequestInfo = 48"
definition sizeof_ScheduleInfo :: nat where "sizeof_ScheduleInfo = 96"

definition BCAST_MAC :: ether_addr where
  "BCAST_MAC = [255, 255, 255, 255, 255, 255]"

definition zero_arp :: ether_arp where
  "zero_arp = \<lparr>ar_hrd = 0, ar_pro = 0, ar_hln = 0, ar_pln = 0, ar_op = 0, arp_sha = replicate 6 0, arp_spa = 0,
     arp_tha = replicate 6 0, arp_tpa = 0\<rparr>"

definition zero_message :: ArpMessage where
  "zero_message = \<lparr>ether_dhost = replicate 6 0, ether_shost = replicate 6 0, ether_type = 0,
     msg_data = zero_arp, msg_padding = replicate 19 0\<rparr>"

definition zero_address :: sockaddr_ll where
  "zero_address = \<lparr>sll_family = 0, sll_protocol = 0, sll_ifindex = 0, sll_hatype = 0, sll_pkttype = 0, sll_halen = 0,
     sll_addr = replicate 8 0\<rparr>"

section \<open>The worker\<close>

record Worker =
  w_fd :: int
  w_do_poison :: bool
  w_sock :: int
  w_if_idx :: int
  w_llmac :: TaggedMac
  w_action_cmd :: "string option"

text \<open>
  \<open>Worker_fillPacket\<close>: first the two link-level addresses, then the packet. The arguments \<open>t\<close> and \<open>r\<close>
  are the values of \<open>time(0)\<close> and \<open>rand()\<close> in case a random MAC is drawn.
\<close>

definition fill_shost :: "int \<Rightarrow> int \<Rightarrow> Worker \<Rightarrow> RequestInfo \<Rightarrow> ether_addr run" where
  "fill_shost t r worker rq =
     (case tm_type (w_llmac worker) of
        mcSAME \<Rightarrow> Inr (rq_mac rq)
      | mcFIXED \<Rightarrow> Inr (tm_ether (w_llmac worker))
      | mcRANDOM \<Rightarrow> Inr (Util_setRandomMac t r)
      | mcLOCAL \<Rightarrow> Inl AssertFail)"

definition fill_hosts :: "int \<Rightarrow> int \<Rightarrow> Worker \<Rightarrow> RequestInfo \<Rightarrow> (ether_addr \<times> ether_addr) run" where
  "fill_hosts t r worker rq =
     (if rq_type rq = jobDST then Inr (rq_mac rq, BCAST_MAC)
      else if rq_type rq = jobSRC
      then bindR (fill_shost t r worker rq) (\<lambda>shost. Inr (shost, arp_sha (rq_request rq)))
      else Inl AssertFail)"

definition fill_padding :: "u8 list \<Rightarrow> u8 list" where
  "fill_padding p = p[0 := 0x66, 1 := 0x60, length p - 2 := 0x0B, length p - 1 := 0x5E]"

definition Worker_fillPacket :: "int \<Rightarrow> int \<Rightarrow> Worker \<Rightarrow> ScheduleInfo \<Rightarrow> RequestInfo \<Rightarrow> ScheduleInfo run" where
  "Worker_fillPacket t r worker job rq =
     bindR (fill_hosts t r worker rq) (\<lambda>(shost, dhost).
     let data = (msg_data zero_message)\<lparr>ar_hrd := htons 1, ar_pro := htons 0x0800, ar_hln := 6, ar_pln := 4, ar_op := htons 2,
                  arp_sha := rq_mac rq, arp_spa := arp_tpa (rq_request rq),
                  arp_tha := arp_sha (rq_request rq), arp_tpa := arp_spa (rq_request rq)\<rparr>;
         msg = zero_message\<lparr>msg_padding := fill_padding (msg_padding zero_message), msg_data := data,
                  ether_type := htons 0x0806, ether_shost := shost, ether_dhost := dhost\<rparr>;
         addr = zero_address\<lparr>sll_family := 17, sll_ifindex := w_if_idx worker, sll_halen := 6,
                  sll_addr := take 6 dhost @ drop 6 (sll_addr zero_address)\<rparr>
     in Inr (job\<lparr>job_message := msg, job_address := addr\<rparr>))"

definition Worker_poisonJob :: "ScheduleInfo \<Rightarrow> RequestInfo \<Rightarrow> ScheduleInfo \<times> bool" where
  "Worker_poisonJob job rq =
     (if rq_type rq = jobSRC then
        (let sha = (if rq_poison_f rq then rq_poison_v rq else rq_mac rq);
             msg = job_message job;
             d = msg_data msg
         in (job\<lparr>job_message := msg\<lparr>ether_dhost := BCAST_MAC,
               msg_data := d\<lparr>arp_sha := sha, arp_spa := arp_tpa d, arp_tha := BCAST_MAC, arp_tpa := 0\<rparr>\<rparr>\<rparr>, True))
      else (job, False))"

section \<open>State and effects\<close>

text \<open>
  The state of the process: the queue, the static error counters of \<open>Worker_executeJob\<close> and
  \<open>Worker_scheduleNewJob\<close>, the counter of \<open>Worker_run\<close>, and what the process has done so far: packets given to
  \<open>sendto\<close> with its answers, messages, started commands, and seconds slept.
\<close>

record worker_state =
  ws_queue :: "ScheduleInfo PriorityQueue"
  ws_exec_errors :: u32
  ws_read_errors :: u32
  ws_run_errors :: u32
  ws_sent :: "(ScheduleInfo \<times> int) list"
  ws_out :: writes
  ws_actions :: "string list list"
  ws_slept :: nat

text \<open>
  One round of the main loop as the operating system sees it: the clock readings in order, the answer of
  \<open>select\<close>, what is read from the pipe, the answers of \<open>sendto\<close> by the number of the call, the answer of
  \<open>fork\<close>, random numbers and memory.
\<close>

record worker_tick =
  wt_now :: int
  wt_select :: int
  wt_readable :: bool
  wt_cnt :: int
  wt_request :: RequestInfo
  wt_job_time :: int
  wt_due_time :: int
  wt_sendto :: "nat \<Rightarrow> int"
  wt_fork :: int
  wt_rand_time :: int
  wt_rand :: int
  wt_heap :: "ScheduleInfo heap_env"
  wt_uninit_job :: ScheduleInfo
  wt_fmt :: fmt_ops
  wt_logging :: bool
  wt_hms :: string
  wt_clock :: timeval

abbreviation wt_timestamp :: "worker_tick \<Rightarrow> int \<Rightarrow> writes run" where
  "wt_timestamp T fd \<equiv> writeMsgTimestamp (wt_fmt T) (wt_logging T) (wt_hms T) (wt_clock T) fd"

text \<open>An error counter: beyond \<open>MAX_ERRORS\<close> the process ends, before it sleeps for a second.\<close>

definition count_error :: "u32 \<Rightarrow> u32 run" where
  "count_error c = (if c + 1 > of_nat MAX_ERRORS then Inl (Exit 1) else Inr (c + 1))"

definition Worker_executeJob :: "worker_tick \<Rightarrow> worker_state \<Rightarrow> ScheduleInfo \<Rightarrow> worker_state run" where
  "Worker_executeJob T s job =
     (let ret = wt_sendto T (length (ws_sent s)); s = s\<lparr>ws_sent := ws_sent s @ [(job, ret)]\<rparr> in
      if ret \<noteq> sizeof_ArpMessage
      then bindR (count_error (ws_exec_errors s)) (\<lambda>c. Inr (s\<lparr>ws_exec_errors := c, ws_slept := ws_slept s + 1\<rparr>))
      else Inr (s\<lparr>ws_exec_errors := 0\<rparr>))"

text \<open>
  \<open>callAction\<close>: the command is started in a child process. Entry 0 of the array is the command, the
  terminating null pointer is left out.
\<close>

definition callAction :: "int \<Rightarrow> string option \<Rightarrow> string list \<Rightarrow> string list list" where
  "callAction pid cmd args =
     (case cmd of None \<Rightarrow> [] | Some c \<Rightarrow> if pid = - 1 then [] else [c # args])"

text \<open>Addresses as text, from the bytes of a packet.\<close>

definition arpinet_ntoa :: "in_addr \<Rightarrow> string" where
  [simp]: "arpinet_ntoa ptr = inet_ntoa ptr"

definition arpether_ntoa :: "ether_addr \<Rightarrow> string" where
  [simp]: "arpether_ntoa ptr = ether_ntoa ptr"

definition job_args :: "RequestInfo \<Rightarrow> string list" where
  "job_args rq =
     [if rq_type rq = jobSRC then ''0'' else if rq_type rq = jobDST then ''1'' else ''-1'',
      strdupa (arpinet_ntoa (arp_spa (rq_request rq))), strdupa (arpether_ntoa (arp_sha (rq_request rq))),
      strdupa (arpinet_ntoa (arp_tpa (rq_request rq))), strdupa (arpether_ntoa (arp_tha (rq_request rq))), strdupa (arpether_ntoa (rq_mac rq))]"

definition Worker_printJob :: "worker_tick \<Rightarrow> Worker \<Rightarrow> worker_state \<Rightarrow> RequestInfo \<Rightarrow> worker_state run" where
  "Worker_printJob T worker s rq =
     (let desc = job_args rq in
      bindR (wt_timestamp T 1) (\<lambda>w.
      let w = w @ Vwrite 1 '': '' @ Vwrite 1 (desc ! 1) @ Vwrite 1 ''/'' @ Vwrite 1 (desc ! 2)
                @ Vwrite 1 (if rq_type rq = jobSRC then '' >- '' else if rq_type rq = jobDST then '' -> '' else '' ?? '')
                @ Vwrite 1 (desc ! 3) @ Vwrite 1 ''/'' @ Vwrite 1 (desc ! 4)
                @ Vwrite 1 '' ['' @ Vwrite 1 (desc ! 5) @ Vwrite 1 ('']'' @ [NL])
      in Inr (s\<lparr>ws_out := ws_out s @ w, ws_actions := ws_actions s @ callAction (wt_fork T) (w_action_cmd worker) desc\<rparr>)))"

definition insert_job :: "worker_tick \<Rightarrow> worker_state \<Rightarrow> ScheduleInfo \<Rightarrow> int \<Rightarrow> worker_state run" where
  "insert_job T s job at =
     bindR (PriorityQueue_insert (wt_heap T) (ws_queue s) (job\<lparr>schedule_time := at\<rparr>)) (\<lambda>q. Inr (s\<lparr>ws_queue := q\<rparr>))"

definition warn_overload :: "worker_tick \<Rightarrow> worker_state \<Rightarrow> worker_state run" where
  "warn_overload T s =
     (if PriorityQueue_count (ws_queue s) \<ge> MAX_REQUESTS then
        bindR (wt_timestamp T 2) (\<lambda>w.
        Inr (s\<lparr>ws_out := ws_out s @ w @ Vwrite 2 '': Too much requests scheduled (''
                  @ writeUInt (wt_fmt T) 2 (PriorityQueue_count (ws_queue s)) @ Vwrite 2 ('') sleeping a while...'' @ [NL]),
               ws_slept := ws_slept s + 1\<rparr>))
      else Inr s)"

definition schedule_repeats :: "worker_tick \<Rightarrow> Worker \<Rightarrow> worker_state \<Rightarrow> ScheduleInfo \<Rightarrow> RequestInfo \<Rightarrow> int \<Rightarrow> worker_state run" where
  "schedule_repeats T worker s job rq now =
     bindR (insert_job T s job (now + 2)) (\<lambda>s.
     bindR (insert_job T s job (now + 5)) (\<lambda>s.
     bindR (insert_job T s job (now + 60)) (\<lambda>s.
     if w_do_poison worker then
       (case Worker_poisonJob job rq of (job, poisoned) \<Rightarrow>
          if poisoned
          then bindR (insert_job T s job (now + 5)) (\<lambda>s. insert_job T s job (now + 60))
          else Inr s)
     else Inr s)))"

definition Worker_scheduleNewJob :: "worker_tick \<Rightarrow> Worker \<Rightarrow> worker_state \<Rightarrow> int \<Rightarrow> worker_state run" where
  "Worker_scheduleNewJob T worker s now =
     (if wt_cnt T \<noteq> sizeof_RequestInfo
      then bindR (count_error (ws_read_errors s)) (\<lambda>c. Inr (s\<lparr>ws_read_errors := c, ws_slept := ws_slept s + 1\<rparr>))
      else let request = wt_request T in
        bindR (Worker_fillPacket (wt_rand_time T) (wt_rand T) worker (wt_uninit_job T) request) (\<lambda>job.
        bindR (Worker_executeJob T s job) (\<lambda>s.
        bindR (Worker_printJob T worker s request) (\<lambda>s.
        bindR (warn_overload T s) (\<lambda>s.
        bindR (schedule_repeats T worker s job request now) (\<lambda>s.
        Inr (s\<lparr>ws_read_errors := 0\<rparr>)))))))"

definition Worker_jobCompare :: "ScheduleInfo \<Rightarrow> ScheduleInfo \<Rightarrow> int" where
  "Worker_jobCompare lhs rhs = to_int32 (- (schedule_time lhs - schedule_time rhs))"

section \<open>The main loop\<close>

text \<open>The inner loop: jobs are sent from the top of the queue as long as they are due.\<close>

function worker_drain :: "worker_tick \<Rightarrow> int \<Rightarrow> worker_state \<Rightarrow> worker_state run" where
  "worker_drain T now s =
     (case PriorityQueue_max (ws_queue s) of
        None \<Rightarrow> Inr s
      | Some job \<Rightarrow>
          if now < schedule_time job then Inr s
          else bindR (Worker_executeJob T s job) (\<lambda>s'.
               worker_drain T now (s'\<lparr>ws_queue := PriorityQueue_extract (ws_queue s)\<rparr>)))"
  by pat_completeness auto
termination
  by (relation "measure (\<lambda>(_, _, s). pq_count (ws_queue s))")
    (auto simp: PriorityQueue_max_def PriorityQueue_count_def split: if_splits)

declare worker_drain.simps [simp del]

text \<open>The argument of \<open>select\<close>: no timeout when the queue is empty, else the time to the next job.\<close>

definition select_timeout :: "worker_state \<Rightarrow> int \<Rightarrow> int option" where
  "select_timeout s now =
     (case PriorityQueue_max (ws_queue s) of
        None \<Rightarrow> None
      | Some job \<Rightarrow> Some (if schedule_time job > now then schedule_time job - now else 0))"

definition worker_step :: "Worker \<Rightarrow> worker_state \<Rightarrow> worker_tick \<Rightarrow> worker_state run" where
  "worker_step worker s T =
     (if wt_select T = - 1
      then bindR (count_error (ws_run_errors s)) (\<lambda>c. Inr (s\<lparr>ws_run_errors := c, ws_slept := ws_slept s + 1\<rparr>))
      else bindR (if wt_readable T then Worker_scheduleNewJob T worker s (wt_job_time T) else Inr s) (\<lambda>s.
           bindR (worker_drain T (wt_due_time T) s) (\<lambda>s. Inr (s\<lparr>ws_run_errors := 0\<rparr>))))"

text \<open>The process from its start, for a number of rounds of its endless loop.\<close>

definition Worker_run :: "ScheduleInfo heap_env \<Rightarrow> Worker \<Rightarrow> worker_tick list \<Rightarrow> worker_state run" where
  "Worker_run H worker Ts =
     bindR (PriorityQueue_init H Worker_jobCompare 1023 sizeof_ScheduleInfo) (\<lambda>q.
     foldR (worker_step worker)
       \<lparr>ws_queue = q, ws_exec_errors = 0, ws_read_errors = 0, ws_run_errors = 0, ws_sent = [], ws_out = [],
        ws_actions = [], ws_slept = 0\<rparr> Ts)"

text \<open>A run is continued by one round.\<close>

lemma Worker_run_snoc: "Worker_run H w Ts = Inr s \<Longrightarrow> worker_step w s T = Inr s' \<Longrightarrow> Worker_run H w (Ts @ [T]) = Inr s'"
  by (auto simp: Worker_run_def foldR_append elim!: bindR_InrE)

section \<open>Facts\<close>

lemma executeJob_spec:
  "Worker_executeJob T s job = Inr s' \<Longrightarrow>
   ws_queue s' = ws_queue s \<and> ws_sent s' = ws_sent s @ [(job, wt_sendto T (length (ws_sent s)))]"
  by (auto simp: Worker_executeJob_def Let_def run_simps split: if_splits)

lemma printJob_spec:
  "Worker_printJob T w s rq = Inr s' \<Longrightarrow> ws_queue s' = ws_queue s \<and> ws_sent s' = ws_sent s"
  by (auto simp: Worker_printJob_def Let_def run_simps)

lemma warn_overload_spec: "warn_overload T s = Inr s' \<Longrightarrow> ws_queue s' = ws_queue s \<and> ws_sent s' = ws_sent s"
  by (auto simp: warn_overload_def run_simps split: if_splits)

lemma insert_job_spec:
  assumes "insert_job T s job at = Inr s'" "pq_inv (ws_queue s)"
  shows "pq_inv (ws_queue s') \<and> pq_elems (ws_queue s') = add_mset (job\<lparr>schedule_time := at\<rparr>) (pq_elems (ws_queue s))
     \<and> ws_sent s' = ws_sent s"
  using assms pq.enq_inv[OF assms(2)] pq.enq_elems[OF assms(2)] by (auto simp: insert_job_def run_simps)

text \<open>The repetitions a request leads to.\<close>

definition repeats_of :: "Worker \<Rightarrow> ScheduleInfo \<Rightarrow> RequestInfo \<Rightarrow> int \<Rightarrow> ScheduleInfo multiset" where
  "repeats_of worker job rq now =
     {#job\<lparr>schedule_time := now + 2\<rparr>, job\<lparr>schedule_time := now + 5\<rparr>, job\<lparr>schedule_time := now + 60\<rparr>#}
     + (if w_do_poison worker \<and> rq_type rq = jobSRC
        then {#(fst (Worker_poisonJob job rq))\<lparr>schedule_time := now + 5\<rparr>, (fst (Worker_poisonJob job rq))\<lparr>schedule_time := now + 60\<rparr>#}
        else {#})"

lemma schedule_repeats_spec:
  assumes "schedule_repeats T w s job rq now = Inr s'" "pq_inv (ws_queue s)"
  shows "pq_inv (ws_queue s') \<and> pq_elems (ws_queue s') = repeats_of w job rq now + pq_elems (ws_queue s) \<and> ws_sent s' = ws_sent s"
proof -
  obtain s1 s2 s3 where i: "insert_job T s job (now + 2) = Inr s1" "insert_job T s1 job (now + 5) = Inr s2"
    "insert_job T s2 job (now + 60) = Inr s3"
    and r: "(if w_do_poison w then (case Worker_poisonJob job rq of (job, poisoned) \<Rightarrow>
          if poisoned then bindR (insert_job T s3 job (now + 5)) (\<lambda>s. insert_job T s job (now + 60)) else Inr s3) else Inr s3) = Inr s'"
    using assms(1) unfolding schedule_repeats_def by (elim bindR_InrE)
  note s1 = insert_job_spec[OF i(1) assms(2)]
  note s2 = insert_job_spec[OF i(2) conjunct1[OF s1]]
  note s3 = insert_job_spec[OF i(3) conjunct1[OF s2]]
  show ?thesis
  proof (cases "w_do_poison w \<and> rq_type rq = jobSRC")
    case True
    then obtain pj where pj: "Worker_poisonJob job rq = (pj, True)" by (simp add: Worker_poisonJob_def Let_def)
    with r True have "bindR (insert_job T s3 pj (now + 5)) (\<lambda>s. insert_job T s pj (now + 60)) = Inr s'" by simp
    then obtain s4 where j: "insert_job T s3 pj (now + 5) = Inr s4" "insert_job T s4 pj (now + 60) = Inr s'" by (elim bindR_InrE)
    note s4 = insert_job_spec[OF j(1) conjunct1[OF s3]]
    from insert_job_spec[OF j(2) conjunct1[OF s4]] s1 s2 s3 s4 True show ?thesis by (simp add: repeats_of_def pj)
  next
    case False
    then have "s' = s3" using r by (auto simp: Worker_poisonJob_def split: if_splits)
    with s1 s2 s3 False show ?thesis by (auto simp: repeats_of_def)
  qed
qed

lemma drain_drains:
  assumes "worker_drain T now s = Inr s'"
  shows "\<exists>js. drains PriorityQueue_max PriorityQueue_extract (\<lambda>j. schedule_time j \<le> now) (ws_queue s) js (ws_queue s')
      \<and> map fst (ws_sent s') = map fst (ws_sent s) @ js"
  using assms
proof (induction T now s rule: worker_drain.induct)
  case (1 T now s)
  show ?case
  proof (cases "\<exists>j. PriorityQueue_max (ws_queue s) = Some j \<and> schedule_time j \<le> now")
    case False
    then have "s' = s" using "1.prems" by (subst (asm) worker_drain.simps) (auto split: option.splits if_splits)
    with False show ?thesis by (intro exI[of _ "[]"]) (auto intro: drains_stop)
  next
    case True
    then obtain j where j: "PriorityQueue_max (ws_queue s) = Some j" "schedule_time j \<le> now" by blast
    then obtain s1 where s1: "Worker_executeJob T s j = Inr s1"
      "worker_drain T now (s1\<lparr>ws_queue := PriorityQueue_extract (ws_queue s)\<rparr>) = Inr s'"
      using "1.prems" by (subst (asm) worker_drain.simps) (auto simp: run_simps)
    obtain js where js: "drains PriorityQueue_max PriorityQueue_extract (\<lambda>j. schedule_time j \<le> now) (PriorityQueue_extract (ws_queue s)) js (ws_queue s')"
      "map fst (ws_sent s') = map fst (ws_sent s1) @ js"
      using "1.IH"[OF j(1) _ s1(2)] j(2) by auto
    have "drains PriorityQueue_max PriorityQueue_extract (\<lambda>j. schedule_time j \<le> now) (ws_queue s) (j # js) (ws_queue s')"
      using j js(1) by (auto intro: drains.intros)
    then show ?thesis using js(2) executeJob_spec[OF s1(1)] by (intro exI[of _ "j # js"]) simp
  qed
qed

lemma drain_spec:
  assumes "worker_drain T now s = Inr s'" "pq_inv (ws_queue s)"
  shows "\<exists>js. pq_inv (ws_queue s') \<and> map fst (ws_sent s') = map fst (ws_sent s) @ js
      \<and> mset js + pq_elems (ws_queue s') = pq_elems (ws_queue s)
      \<and> (\<forall>j\<in>set js. schedule_time j \<le> now) \<and> (\<forall>j. PriorityQueue_max (ws_queue s') = Some j \<longrightarrow> now < schedule_time j)"
proof -
  obtain js where d: "drains PriorityQueue_max PriorityQueue_extract (\<lambda>j. schedule_time j \<le> now) (ws_queue s) js (ws_queue s')"
    "map fst (ws_sent s') = map fst (ws_sent s) @ js" using drain_drains[OF assms(1)] by blast
  show ?thesis
    using pq.drains_conserves[OF d(1) assms(2)] pq.drains_due[OF d(1)] pq.drains_end[OF d(1)] d(2)
    by (intro exI[of _ js]) (auto simp: not_le)
qed

lemma scheduleNewJob_spec:
  assumes "Worker_scheduleNewJob T w s now = Inr s'" "pq_inv (ws_queue s)"
  shows "pq_inv (ws_queue s') \<and>
    (if wt_cnt T = sizeof_RequestInfo
     then \<exists>job. Worker_fillPacket (wt_rand_time T) (wt_rand T) w (wt_uninit_job T) (wt_request T) = Inr job
         \<and> map fst (ws_sent s') = map fst (ws_sent s) @ [job]
         \<and> pq_elems (ws_queue s') = repeats_of w job (wt_request T) now + pq_elems (ws_queue s)
     else ws_queue s' = ws_queue s \<and> ws_sent s' = ws_sent s)"
  using assms
  by (auto simp: Worker_scheduleNewJob_def run_simps Let_def split: if_splits
      dest!: executeJob_spec printJob_spec warn_overload_spec schedule_repeats_spec)

section \<open>Wire format\<close>

text \<open>The bytes of the packed structure \<open>ArpMessage\<close> in memory, which \<open>sendto\<close> transmits.\<close>

definition bytes16 :: "u16 \<Rightarrow> u8 list" where
  "bytes16 w = [ucast w, ucast (drop_bit 8 w)]"

definition bytes32 :: "u32 \<Rightarrow> u8 list" where
  "bytes32 w = [ucast w, ucast (drop_bit 8 w), ucast (drop_bit 16 w), ucast (drop_bit 24 w)]"

definition arp_bytes :: "ether_arp \<Rightarrow> u8 list" where
  "arp_bytes d = bytes16 (ar_hrd d) @ bytes16 (ar_pro d) @ [ar_hln d, ar_pln d] @ bytes16 (ar_op d)
     @ arp_sha d @ bytes32 (arp_spa d) @ arp_tha d @ bytes32 (arp_tpa d)"

definition message_bytes :: "ArpMessage \<Rightarrow> u8 list" where
  "message_bytes m = ether_dhost m @ ether_shost m @ bytes16 (ether_type m) @ arp_bytes (msg_data m) @ msg_padding m"

text \<open>A forged reply: Ethernet type ARP, hardware Ethernet, protocol IP, operation reply.\<close>

definition reply_bytes :: "ether_addr \<Rightarrow> ether_addr \<Rightarrow> ether_addr \<Rightarrow> in_addr \<Rightarrow> ether_addr \<Rightarrow> in_addr \<Rightarrow> u8 list" where
  "reply_bytes dhost shost sha spa tha tpa =
     dhost @ shost @ [0x08, 0x06] @ [0x00, 0x01, 0x08, 0x00, 6, 4, 0x00, 0x02] @ sha @ bytes32 spa @ tha @ bytes32 tpa
     @ [0x66, 0x60, 0, 0, 0, 0, 0, 0, 0, 0, 0, 0, 0, 0, 0, 0, 0, 0x0B, 0x5E]"

lemma bytes16_htons:
  "bytes16 (htons 1) = [0, 1]" "bytes16 (htons 2) = [0, 2]" "bytes16 (htons 0x0800) = [8, 0]" "bytes16 (htons 0x0806) = [8, 6]"
  by code_simp+

lemma fill_padding_zero:
  "fill_padding (replicate 19 0) = [0x66, 0x60, 0, 0, 0, 0, 0, 0, 0, 0, 0, 0, 0, 0, 0, 0, 0, 0x0B, 0x5E]"
  by code_simp

text \<open>The source address on the link level: the configured one for requests from an intruder.\<close>

definition link_source :: "int \<Rightarrow> int \<Rightarrow> Worker \<Rightarrow> RequestInfo \<Rightarrow> ether_addr" where
  "link_source t r w rq =
     (if rq_type rq = jobDST then rq_mac rq
      else case tm_type (w_llmac w) of mcFIXED \<Rightarrow> tm_ether (w_llmac w) | mcRANDOM \<Rightarrow> Util_setRandomMac t r | _ \<Rightarrow> rq_mac rq)"

definition link_dest :: "RequestInfo \<Rightarrow> ether_addr" where
  "link_dest rq = (if rq_type rq = jobDST then BCAST_MAC else arp_sha (rq_request rq))"

definition known_type :: "RequestInfo \<Rightarrow> bool" where
  "known_type rq \<longleftrightarrow> rq_type rq = jobSRC \<or> rq_type rq = jobDST"

lemma fill_hosts_ok:
  "known_type rq \<Longrightarrow> tm_type (w_llmac w) \<noteq> mcLOCAL \<Longrightarrow> fill_hosts t r w rq = Inr (link_source t r w rq, link_dest rq)"
  by (auto simp: known_type_def fill_hosts_def fill_shost_def link_source_def link_dest_def jobSRC_def jobDST_def split: mac_type.splits)

lemma wf_link_dest: "wf_mac (arp_sha (rq_request rq)) \<Longrightarrow> length (link_dest rq) = 6"
  by (simp add: link_dest_def BCAST_MAC_def wf_mac_def)

lemma fillPacket_bytes:
  assumes "known_type rq" "tm_type (w_llmac w) \<noteq> mcLOCAL" "wf_mac (arp_sha (rq_request rq))"
  shows "\<exists>j. Worker_fillPacket t r w job rq = Inr j \<and> schedule_time j = schedule_time job
     \<and> message_bytes (job_message j) = reply_bytes (link_dest rq) (link_source t r w rq) (rq_mac rq) (arp_tpa (rq_request rq))
           (arp_sha (rq_request rq)) (arp_spa (rq_request rq))
     \<and> sll_ifindex (job_address j) = w_if_idx w \<and> take 6 (sll_addr (job_address j)) = link_dest rq"
  using fill_hosts_ok[OF assms(1,2)] assms(3) wf_link_dest[of rq]
  by (auto simp: Worker_fillPacket_def Let_def message_bytes_def arp_bytes_def reply_bytes_def zero_message_def zero_arp_def
      zero_address_def bytes16_htons fill_padding_zero)

lemma fill_bytes:
  assumes "Worker_fillPacket t r w u rq = Inr job" "known_type rq" "tm_type (w_llmac w) \<noteq> mcLOCAL"
  shows "message_bytes (job_message job) = reply_bytes (link_dest rq) (link_source t r w rq) (rq_mac rq) (arp_tpa (rq_request rq))
             (arp_sha (rq_request rq)) (arp_spa (rq_request rq))"
  using assms(1) fill_hosts_ok[OF assms(2,3), of t r]
  by (auto simp: Worker_fillPacket_def Let_def message_bytes_def arp_bytes_def reply_bytes_def zero_message_def zero_arp_def
      bytes16_htons fill_padding_zero)

lemma poison_bytes:
  assumes "Worker_fillPacket t r w u rq = Inr job" "rq_type rq = jobSRC" "tm_type (w_llmac w) \<noteq> mcLOCAL"
  shows "message_bytes (job_message (fst (Worker_poisonJob job rq))) =
         reply_bytes BCAST_MAC (link_source t r w rq) (if rq_poison_f rq then rq_poison_v rq else rq_mac rq) (arp_spa (rq_request rq)) BCAST_MAC 0"
  using fill_hosts_ok[of rq w t r] assms
  by (auto simp: Worker_fillPacket_def Let_def message_bytes_def arp_bytes_def reply_bytes_def zero_message_def zero_arp_def
      known_type_def bytes16_htons fill_padding_zero Worker_poisonJob_def)

text \<open>Every packet of the process has the constant fields of an ARP reply.\<close>

definition is_reply :: "ScheduleInfo \<Rightarrow> bool" where
  "is_reply j \<longleftrightarrow> (let m = job_message j; d = msg_data m in
     bytes16 (ether_type m) = [8, 6] \<and> bytes16 (ar_hrd d) = [0, 1] \<and> bytes16 (ar_pro d) = [8, 0]
   \<and> ar_hln d = 6 \<and> ar_pln d = 4 \<and> bytes16 (ar_op d) = [0, 2])"

lemma fillPacket_reply: "Worker_fillPacket t r w job rq = Inr j \<Longrightarrow> is_reply j"
  by (auto simp: Worker_fillPacket_def Let_def is_reply_def bytes16_htons run_simps)

lemma poison_reply: "is_reply j \<Longrightarrow> is_reply (fst (Worker_poisonJob j rq))"
  by (auto simp: Worker_poisonJob_def is_reply_def Let_def)

lemma is_reply_time [simp]: "is_reply (j\<lparr>schedule_time := t\<rparr>) = is_reply j"
  by (simp add: is_reply_def)

lemma repeats_reply: "is_reply job \<Longrightarrow> j \<in># repeats_of w job rq now \<Longrightarrow> is_reply j"
  by (auto simp: repeats_of_def poison_reply split: if_splits)

definition worker_inv :: "worker_state \<Rightarrow> bool" where
  "worker_inv s \<longleftrightarrow> pq_inv (ws_queue s) \<and> (\<forall>j\<in>#pq_elems (ws_queue s). is_reply j) \<and> (\<forall>j\<in>set (map fst (ws_sent s)). is_reply j)"

text \<open>What one round does: an answer to a new request, repetitions, and the jobs that are due.\<close>

definition round_effect :: "Worker \<Rightarrow> worker_tick \<Rightarrow> worker_state \<Rightarrow> worker_state \<Rightarrow> ScheduleInfo list \<Rightarrow> ScheduleInfo list \<Rightarrow> ScheduleInfo multiset \<Rightarrow> bool" where
  "round_effect w T s s' answer due new \<longleftrightarrow>
     map fst (ws_sent s') = map fst (ws_sent s) @ answer @ due
   \<and> mset due + pq_elems (ws_queue s') = new + pq_elems (ws_queue s)
   \<and> (\<forall>j\<in>set due. schedule_time j \<le> wt_due_time T)
   \<and> (if wt_select T \<noteq> - 1 \<and> wt_readable T \<and> wt_cnt T = sizeof_RequestInfo
      then \<exists>job. Worker_fillPacket (wt_rand_time T) (wt_rand T) w (wt_uninit_job T) (wt_request T) = Inr job
             \<and> answer = [job] \<and> new = repeats_of w job (wt_request T) (wt_job_time T)
      else answer = [] \<and> new = {#})"

lemma step_effect:
  assumes "worker_step w s T = Inr s'" "pq_inv (ws_queue s)"
  shows "pq_inv (ws_queue s') \<and> (\<exists>answer due new. round_effect w T s s' answer due new)"
proof (cases "wt_select T = - 1")
  case True
  with assms show ?thesis by (auto simp: worker_step_def round_effect_def run_simps intro!: exI[of _ "[]"])
next
  case False
  obtain s1 s2 where s1: "(if wt_readable T then Worker_scheduleNewJob T w s (wt_job_time T) else Inr s) = Inr s1"
    and s2: "worker_drain T (wt_due_time T) s1 = Inr s2" "s' = s2\<lparr>ws_run_errors := 0\<rparr>"
    using assms(1) False by (auto simp: worker_step_def elim!: bindR_InrE)
  obtain answer new where n: "pq_inv (ws_queue s1)" "map fst (ws_sent s1) = map fst (ws_sent s) @ answer"
    "pq_elems (ws_queue s1) = new + pq_elems (ws_queue s)"
    "if wt_select T \<noteq> - 1 \<and> wt_readable T \<and> wt_cnt T = sizeof_RequestInfo
      then \<exists>job. Worker_fillPacket (wt_rand_time T) (wt_rand T) w (wt_uninit_job T) (wt_request T) = Inr job
             \<and> answer = [job] \<and> new = repeats_of w job (wt_request T) (wt_job_time T)
      else answer = [] \<and> new = {#}"
  proof (cases "wt_readable T")
    case True
    with scheduleNewJob_spec[OF _ assms(2), of T w "wt_job_time T" s1] s1 False show ?thesis
      by (cases "wt_cnt T = sizeof_RequestInfo") (auto intro: that)
  next
    case False
    with s1 assms(2) show ?thesis by (auto intro!: that[of "[]" "{#}"])
  qed
  obtain due where "pq_inv (ws_queue s2)" "map fst (ws_sent s2) = map fst (ws_sent s1) @ due"
    "mset due + pq_elems (ws_queue s2) = pq_elems (ws_queue s1)" "\<forall>j\<in>set due. schedule_time j \<le> wt_due_time T"
    using drain_spec[OF s2(1) n(1)] by blast
  with n s2(2) show ?thesis unfolding round_effect_def by (intro conjI exI[of _ answer] exI[of _ due] exI[of _ new]) auto
qed

lemma step_inv:
  assumes "worker_step w s T = Inr s'" "worker_inv s"
  shows "worker_inv s'"
proof -
  have q: "pq_inv (ws_queue s)" using assms(2) by (simp add: worker_inv_def)
  obtain answer due new where e: "pq_inv (ws_queue s')" "round_effect w T s s' answer due new"
    using step_effect[OF assms(1) q] by blast
  have a: "\<forall>j\<in>set answer. is_reply j" "\<forall>j\<in>#new. is_reply j"
    using e(2) unfolding round_effect_def by (auto split: if_splits dest: fillPacket_reply intro: repeats_reply)
  have "\<forall>j\<in>#new + pq_elems (ws_queue s). is_reply j" using a(2) assms(2) by (auto simp: worker_inv_def)
  moreover have eq: "mset due + pq_elems (ws_queue s') = new + pq_elems (ws_queue s)" using e(2) by (simp add: round_effect_def)
  ultimately have "\<forall>j\<in>#mset due + pq_elems (ws_queue s'). is_reply j" by simp
  then show ?thesis using e a(1) assms(2) by (auto simp: worker_inv_def round_effect_def)
qed

lemma powify_1023: "powify 1023 = 1023"
  using powify_cases[of 1023] powify_low[of 9 1023 63] by simp

lemma queue_init:
  assumes "PriorityQueue_init H Worker_jobCompare 1023 sizeof_ScheduleInfo = Inr q"
  shows "pq_inv q \<and> pq_elems q = {#} \<and> pq_allocated q = 1023"
proof -
  have b: "alloc_bytes 1023 96 div 96 = 1023" using alloc_bytes_exact[of 96 1023] by (simp add: address_space_def)
  from assms show ?thesis
    by (auto simp: PriorityQueue_init_def sizeof_ScheduleInfo_def powify_1023 Let_def Emalloc_def run_simps b
        pq_inv_def pq_wf_def pq_elems_def address_space_def)
qed

section \<open>Returning\<close>

definition room :: "nat \<Rightarrow> 'a PriorityQueue \<Rightarrow> bool" where
  "room n q \<longleftrightarrow> 2 ^ n * (pq_allocated q + 1) * pq_elem_size q \<le> address_space"

lemma insert_room:
  assumes "pq_inv q" "room (Suc n) q" "\<not> env_oom H"
  shows "\<exists>q'. PriorityQueue_insert H q x = Inr q' \<and> pq_inv q' \<and> room n q'"
proof -
  let ?q = "PriorityQueue_insertInternal (pq_grown H q) x"
  have c: "pq_capacity q + 1 \<le> 2 * (pq_allocated q + 1)" by (simp add: pq_capacity_def)
  have "(pq_capacity q + 1) * 2 ^ n \<le> 2 * (pq_allocated q + 1) * 2 ^ n" by (rule mult_le_mono1[OF c])
  then have r: "2 ^ n * (pq_capacity q + 1) * pq_elem_size q \<le> address_space"
    using mult_le_mono1[of "(pq_capacity q + 1) * 2 ^ n" "2 * (pq_allocated q + 1) * 2 ^ n" "pq_elem_size q"] assms(2)
    by (simp add: room_def algebra_simps)
  have "1 * pq_capacity q \<le> 2 ^ n * (pq_capacity q + 1)" by (rule mult_le_mono) simp_all
  then have "pq_capacity q * pq_elem_size q \<le> 2 ^ n * (pq_capacity q + 1) * pq_elem_size q" by simp
  with r have "pq_capacity q * pq_elem_size q \<le> address_space" by linarith
  then have i: "PriorityQueue_insert H q x = Inr ?q" using insert_iff[OF assms(1)] assms(3) by blast
  with insert_inv(1)[OF assms(1) i] r show ?thesis by (simp add: room_def pq_grown_def)
qed

definition job_room :: "nat \<Rightarrow> worker_state \<Rightarrow> bool" where
  "job_room n s \<longleftrightarrow> pq_inv (ws_queue s) \<and> room n (ws_queue s)"

lemma insert_job_room:
  "job_room (Suc n) s \<Longrightarrow> \<not> env_oom (wt_heap T) \<Longrightarrow> specR {} (insert_job T s job at) (job_room n)"
  using insert_room[of "ws_queue s" n "wt_heap T" "job\<lparr>schedule_time := at\<rparr>"] by (auto simp: insert_job_def job_room_def)

lemma insert_job_then:
  assumes "job_room (Suc n) s" "\<not> env_oom (wt_heap T)" "\<And>s'. job_room n s' \<Longrightarrow> specR {} (f s') Q"
  shows "specR {} (bindR (insert_job T s job at) f) Q"
  unfolding specR_simps by (rule specR_conseq[OF insert_job_room[OF assms(1,2)]]) (auto intro: assms(3))

lemma schedule_repeats_room:
  assumes "job_room 5 s" "\<not> env_oom (wt_heap T)"
  shows "specR {} (schedule_repeats T w s job rq now) (\<lambda>_. True)"
proof -
  have r: "job_room (Suc (Suc (Suc (Suc (Suc 0))))) s" using assms(1) by (simp add: eval_nat_numeral)
  have poison: "specR {} (if w_do_poison w then
       (case Worker_poisonJob job rq of (job, poisoned) \<Rightarrow>
          if poisoned then bindR (insert_job T s' job (now + 5)) (\<lambda>s. insert_job T s job (now + 60)) else Inr s')
     else Inr s') (\<lambda>_. True)" if "job_room (Suc (Suc 0)) s'" for s'
  proof -
    have "specR {} (bindR (insert_job T s' j (now + 5)) (\<lambda>s. insert_job T s j (now + 60))) (\<lambda>_. True)" for j
      by (rule insert_job_then[OF that assms(2)]) (auto intro: specR_conseq[OF insert_job_room[OF _ assms(2)]])
    then show ?thesis by (cases "Worker_poisonJob job rq") simp
  qed
  show ?thesis
    unfolding schedule_repeats_def
    by (rule insert_job_then[OF r assms(2)], rule insert_job_then[OF _ assms(2)], assumption,
        rule insert_job_then[OF _ assms(2)], assumption, rule poison)
qed

definition tick_ok :: "worker_tick \<Rightarrow> bool" where
  "tick_ok T \<longleftrightarrow> wt_select T \<noteq> - 1 \<and> (\<forall>n. wt_sendto T n = sizeof_ArpMessage) \<and> \<not> env_oom (wt_heap T) \<and> 0 \<le> tv_usec (wt_clock T)"

lemma executeJob_ok: "tick_ok T \<Longrightarrow> specR {} (Worker_executeJob T s job) (\<lambda>s'. ws_queue s' = ws_queue s)"
  by (simp add: tick_ok_def Worker_executeJob_def Let_def)

lemma drain_returns: "tick_ok T \<Longrightarrow> specR {} (worker_drain T now s) (\<lambda>_. True)"
proof (induction T now s rule: worker_drain.induct)
  case (1 T now s)
  show ?case
    by (subst worker_drain.simps)
      (auto split: option.splits intro!: specR_conseq[OF executeJob_ok[OF "1.prems"]] "1.IH" "1.prems")
qed

lemma timestamp_ok: "tick_ok T \<Longrightarrow> specR S (wt_timestamp T fd) (\<lambda>_. True)"
  by (simp add: tick_ok_def writeMsgTimestamp_ok)

lemma printJob_ok: "tick_ok T \<Longrightarrow> specR {} (Worker_printJob T w s rq) (\<lambda>s'. ws_queue s' = ws_queue s)"
  by (auto simp: Worker_printJob_def Let_def intro: specR_conseq[OF timestamp_ok])

lemma warn_overload_ok: "tick_ok T \<Longrightarrow> specR {} (warn_overload T s) (\<lambda>s'. ws_queue s' = ws_queue s)"
  by (auto simp: warn_overload_def intro: specR_conseq[OF timestamp_ok])

lemma scheduleNewJob_returns:
  assumes "tick_ok T" "job_room 5 s" "wt_cnt T = sizeof_RequestInfo"
    and "Worker_fillPacket (wt_rand_time T) (wt_rand T) w (wt_uninit_job T) (wt_request T) = Inr job"
  shows "specR {} (Worker_scheduleNewJob T w s now) (\<lambda>_. True)"
proof -
  have oom: "\<not> env_oom (wt_heap T)" using assms(1) by (simp add: tick_ok_def)
  have rep: "specR {} (schedule_repeats T w s' job (wt_request T) now) (\<lambda>_. True)" if "ws_queue s' = ws_queue s" for s'
    using schedule_repeats_room[OF _ oom, of s'] that assms(2) by (simp add: job_room_def)
  show ?thesis
    using assms(3,4) unfolding Worker_scheduleNewJob_def Let_def
    by (auto intro!: specR_conseq[OF executeJob_ok[OF assms(1)]] specR_conseq[OF printJob_ok[OF assms(1)]]
        specR_conseq[OF warn_overload_ok[OF assms(1)]] specR_conseq[OF rep])
qed

lemma step_returns:
  assumes "tick_ok T" and "pq_inv (ws_queue s)" and "room 5 (ws_queue s)"
    and "wt_cnt T = sizeof_RequestInfo" and "known_type (wt_request T)" and "tm_type (w_llmac w) \<noteq> mcLOCAL"
  shows "\<exists>s'. worker_step w s T = Inr s'"
proof -
  have r: "job_room 5 s" using assms(2,3) by (simp add: job_room_def)
  obtain job where "Worker_fillPacket (wt_rand_time T) (wt_rand T) w (wt_uninit_job T) (wt_request T) = Inr job"
    using fill_hosts_ok[OF assms(5,6)] by (auto simp: Worker_fillPacket_def Let_def)
  note new = scheduleNewJob_returns[OF assms(1) r assms(4) this, of "wt_job_time T"]
  have "specR {} (worker_step w s T) (\<lambda>_. True)"
    using new assms(1) unfolding worker_step_def
    by (auto simp: tick_ok_def intro!: specR_conseq[OF drain_returns[OF assms(1)]] specR_conseq[OF new])
  then show ?thesis using specR_total by blast
qed

section \<open>Properties\<close>

text \<open>
  The answer to a request, byte by byte as it is sent: an Ethernet frame of type ARP with a reply
  that binds the requested address to the MAC chosen for it, directed at the requesting host. It
  is broadcast for requests that concern an intruder, and sent to the intruder itself otherwise.
\<close>

theorem reply_on_the_wire:
  assumes "known_type rq" and "tm_type (w_llmac w) \<noteq> mcLOCAL" and "wf_mac (arp_sha (rq_request rq))"
  shows "\<exists>j. Worker_fillPacket t r w job rq = Inr j
     \<and> message_bytes (job_message j) = reply_bytes (link_dest rq) (link_source t r w rq) (rq_mac rq) (arp_tpa (rq_request rq))
           (arp_sha (rq_request rq)) (arp_spa (rq_request rq))
     \<and> sll_ifindex (job_address j) = w_if_idx w \<and> take 6 (sll_addr (job_address j)) = link_dest rq"
  using fillPacket_bytes[OF assms] by blast

definition example_worker :: Worker where
  "example_worker = \<lparr>w_fd = 3, w_do_poison = True, w_sock = 4, w_if_idx = 2,
     w_llmac = \<lparr>tm_type = mcFIXED, tm_ether = [2, 0, 0, 0, 0, 1]\<rparr>, w_action_cmd = None\<rparr>"

definition example_request :: "u32 \<Rightarrow> RequestInfo" where
  "example_request ty = \<lparr>rq_request = zero_arp\<lparr>arp_sha := [2, 0, 0, 0, 0, 9], arp_spa := 0x0900000A, arp_tpa := 0x0100000A\<rparr>,
     rq_mac = [1, 2, 3, 4, 5, 6], rq_type = ty, rq_poison_f = False, rq_poison_v = replicate 6 0\<rparr>"

definition zero_job :: ScheduleInfo where
  "zero_job = \<lparr>schedule_time = 0, job_message = zero_message, job_address = zero_address\<rparr>"

theorem reply_on_the_wire_witness:
  "\<exists>j. Worker_fillPacket 0 0 example_worker zero_job (example_request jobSRC) = Inr j
     \<and> message_bytes (job_message j) = reply_bytes [2, 0, 0, 0, 0, 9] [2, 0, 0, 0, 0, 1] [1, 2, 3, 4, 5, 6] 0x0100000A [2, 0, 0, 0, 0, 9] 0x0900000A"
proof -
  have k: "known_type (example_request jobSRC)" "tm_type (w_llmac example_worker) \<noteq> mcLOCAL"
    "wf_mac (arp_sha (rq_request (example_request jobSRC)))" by code_simp+
  have l: "link_dest (example_request jobSRC) = [2, 0, 0, 0, 0, 9]" "link_source 0 0 example_worker (example_request jobSRC) = [2, 0, 0, 0, 0, 1]"
    by code_simp+
  show ?thesis using reply_on_the_wire[OF k, of 0 0 zero_job] unfolding l by (simp add: example_request_def) blast
qed

text \<open>
  The poison packet, derived from the answer to an intruder's request: a broadcast reply that
  binds the intruder's own address to the MAC given by the blacklist entry, or to the
  answered one. Requests of the other kind are not poisoned.
\<close>

theorem poison_on_the_wire:
  assumes "rq_type rq = jobSRC" and "tm_type (w_llmac w) \<noteq> mcLOCAL"
    and "Worker_fillPacket t r w job rq = Inr j"
  shows "snd (Worker_poisonJob j rq)
     \<and> message_bytes (job_message (fst (Worker_poisonJob j rq))) =
         reply_bytes BCAST_MAC (link_source t r w rq) (if rq_poison_f rq then rq_poison_v rq else rq_mac rq)
           (arp_spa (rq_request rq)) BCAST_MAC 0"
  using poison_bytes[OF assms(3,1,2)] assms(1) by (simp add: Worker_poisonJob_def Let_def)

theorem poison_on_the_wire_witness:
  "\<exists>j. Worker_fillPacket 0 0 example_worker zero_job (example_request jobSRC) = Inr j
     \<and> message_bytes (job_message (fst (Worker_poisonJob j (example_request jobSRC))))
       = reply_bytes BCAST_MAC [2, 0, 0, 0, 0, 1] [1, 2, 3, 4, 5, 6] 0x0900000A BCAST_MAC 0"
proof -
  have k: "known_type (example_request jobSRC)" "tm_type (w_llmac example_worker) \<noteq> mcLOCAL"
    "wf_mac (arp_sha (rq_request (example_request jobSRC)))" by code_simp+
  obtain j where j: "Worker_fillPacket 0 0 example_worker zero_job (example_request jobSRC) = Inr j"
    using fillPacket_bytes[OF k] by blast
  have l: "link_source 0 0 example_worker (example_request jobSRC) = [2, 0, 0, 0, 0, 1]" by code_simp
  show ?thesis
    using poison_on_the_wire[OF _ k(2) j] j unfolding l by (simp add: example_request_def)
qed

text \<open>
  C7: no job is lost, doubled or sent early. In one round of the main loop the process sends at most one
  answer, adds the repetitions of it to the queue, and then sends jobs whose time has come: exactly
  those that leave the queue.
\<close>

theorem round_conserves_jobs:
  assumes "worker_step w s T = Inr s'" and "pq_inv (ws_queue s)"
  shows "\<exists>answer due new. map fst (ws_sent s') = map fst (ws_sent s) @ answer @ due
     \<and> mset due + pq_elems (ws_queue s') = new + pq_elems (ws_queue s)
     \<and> (\<forall>j\<in>set due. schedule_time j \<le> wt_due_time T)
     \<and> (if wt_select T \<noteq> - 1 \<and> wt_readable T \<and> wt_cnt T = sizeof_RequestInfo
        then \<exists>job. Worker_fillPacket (wt_rand_time T) (wt_rand T) w (wt_uninit_job T) (wt_request T) = Inr job
               \<and> answer = [job] \<and> new = repeats_of w job (wt_request T) (wt_job_time T)
        else answer = [] \<and> new = {#})"
  using step_effect[OF assms] unfolding round_effect_def by blast

text \<open>
  A round of the main loop returns: with memory for five more jobs, a working socket and a request
  of a known kind, the process neither stops nor loops forever.
\<close>

theorem round_returns:
  assumes "tick_ok T" and "pq_inv (ws_queue s)" and "room 5 (ws_queue s)"
    and "wt_cnt T = sizeof_RequestInfo" and "known_type (wt_request T)" and "tm_type (w_llmac w) \<noteq> mcLOCAL"
  shows "\<exists>s'. worker_step w s T = Inr s'"
  using step_returns[OF assms] .

text \<open>
  Whatever happens, all packets the worker ever sends or has queued are ARP replies, and the queue stays
  consistent.
\<close>

theorem run_sends_only_replies:
  assumes "Worker_run H w Ts = Inr s"
  shows "pq_inv (ws_queue s) \<and> (\<forall>j\<in>set (map fst (ws_sent s)). is_reply j) \<and> (\<forall>j\<in>#pq_elems (ws_queue s). is_reply j)"
proof -
  obtain q where q: "PriorityQueue_init H Worker_jobCompare 1023 sizeof_ScheduleInfo = Inr q"
    "foldR (worker_step w) \<lparr>ws_queue = q, ws_exec_errors = 0, ws_read_errors = 0, ws_run_errors = 0, ws_sent = [], ws_out = [],
        ws_actions = [], ws_slept = 0\<rparr> Ts = Inr s"
    using assms unfolding Worker_run_def by (elim bindR_InrE)
  from queue_init[OF q(1)] have "worker_inv \<lparr>ws_queue = q, ws_exec_errors = 0, ws_read_errors = 0, ws_run_errors = 0, ws_sent = [], ws_out = [],
        ws_actions = [], ws_slept = 0\<rparr>" by (simp add: worker_inv_def)
  then have "worker_inv s"
    by (rule foldR_inv[where P = worker_inv and f = "worker_step w", OF _ _ q(2), rotated]) (blast intro: step_inv)
  then show ?thesis by (simp add: worker_inv_def)
qed

text \<open>A round at time \<open>t\<close>, with or without a request, and a worker with an empty queue of 15 slots.\<close>

definition example_tick :: "int \<Rightarrow> bool \<Rightarrow> worker_tick" where
  "example_tick t readable = \<lparr>wt_now = t, wt_select = 1, wt_readable = readable, wt_cnt = 48, wt_request = example_request jobDST,
     wt_job_time = t, wt_due_time = t, wt_sendto = (\<lambda>_. 61), wt_fork = 1, wt_rand_time = 0, wt_rand = 0,
     wt_heap = \<lparr>env_oom = False, env_mem = (\<lambda>_. zero_job)\<rparr>, wt_uninit_job = zero_job, wt_fmt = dec_ops,
     wt_logging = False, wt_hms = [], wt_clock = \<lparr>tv_sec = 0, tv_usec = 0\<rparr>\<rparr>"

definition example_state :: worker_state where
  "example_state = \<lparr>ws_queue = \<lparr>pq_data = replicate 15 zero_job, pq_count = 0, pq_allocated = 15, pq_elem_size = 96,
       pq_cmp_func = Worker_jobCompare\<rparr>,
     ws_exec_errors = 0, ws_read_errors = 0, ws_run_errors = 0, ws_sent = [], ws_out = [], ws_actions = [], ws_slept = 0\<rparr>"

lemma example_state_ok: "pq_inv (ws_queue example_state)" "room 5 (ws_queue example_state)"
  by (simp_all add: example_state_def pq_inv_def pq_wf_def room_def address_space_def)

lemma example_tick_ok: "tick_ok (example_tick t b)"
  by (simp add: tick_ok_def example_tick_def sizeof_ArpMessage_def)

theorem round_returns_witness: "\<exists>s'. worker_step example_worker example_state (example_tick 0 True) = Inr s'"
  by (rule round_returns[OF example_tick_ok example_state_ok])
    (simp_all add: example_tick_def sizeof_RequestInfo_def known_type_def example_request_def example_worker_def)

theorem round_conserves_jobs_witness:
  "\<exists>s' answer due new. worker_step example_worker example_state (example_tick 0 True) = Inr s'
     \<and> map fst (ws_sent s') = answer @ due \<and> mset due + pq_elems (ws_queue s') = new"
proof -
  have "case worker_step example_worker example_state (example_tick 0 True) of Inl _ \<Rightarrow> False | Inr _ \<Rightarrow> True" by code_simp
  then obtain s' where s': "worker_step example_worker example_state (example_tick 0 True) = Inr s'" by (auto split: sum.splits)
  have e: "ws_sent example_state = []" "pq_elems (ws_queue example_state) = {#}" by (simp_all add: example_state_def pq_elems_def)
  from round_conserves_jobs[OF s' example_state_ok(1)] s' show ?thesis unfolding e by auto
qed

theorem run_sends_only_replies_witness:
  "\<exists>s. Worker_run (wt_heap (example_tick 0 True)) example_worker [] = Inr s \<and> pq_inv (ws_queue s)"
proof -
  have "specR {} (Worker_run (wt_heap (example_tick 0 True)) example_worker []) (\<lambda>_. True)"
    by (simp add: Worker_run_def PriorityQueue_init_def powify_1023 sizeof_ScheduleInfo_def Let_def
        Emalloc_Inr address_space_def example_tick_def)
  then obtain s where s: "Worker_run (wt_heap (example_tick 0 True)) example_worker [] = Inr s" using specR_total by blast
  with run_sends_only_replies[OF s] show ?thesis by blast
qed

end
