(* ===== verification/System_Calls.thy ===== *)
theory System_Calls
  imports Worker
begin

text \<open>
  The wrappers of \<open>src/src/wrappers.h\<close> around system calls. A program that issues system calls is a function on the
  list of the calls issued so far; what the operating system answers to a call after a history
  of calls is a parameter. Every wrapper issues its call and ends the process when the call failed.
\<close>

section \<open>System calls\<close>

datatype open_flag = O_RDONLY | O_WRONLY | O_CREAT | O_APPEND | O_NONBLOCK | O_TRUNC

datatype sighandler = SIG_IGN | HandlerSigHup

datatype syscall =
    Sys_open string "open_flag list" nat
  | Sys_ioctl int int
  | Sys_chroot string
  | Sys_chdir string
  | Sys_setuid u32
  | Sys_setgid u32
  | Sys_setgroups "u32 list"
  | Sys_close int
  | Sys_dup2 int int
  | Sys_setsid
  | Sys_write int string
  | Sys_socket int int int
  | Sys_fork
  | Sys_bind int sockaddr_ll
  | Sys_pipe
  | Sys_fcntl int int int
  | Sys_signal int sighandler

record passwd =
  pw_uid :: u32
  pw_gid :: u32
  pw_dir :: string

text \<open>
  The operating system and the user database: the result of a call (\<open>-1\<close> is a failure), the two descriptors of a
  new pipe, index and hardware address of an interface, and the users and groups by name or number.
  \<open>os_argv_tail\<close> is the memory behind the interface name on the command line.
\<close>

record os_env =
  os_answer :: "syscall list \<Rightarrow> syscall \<Rightarrow> int"
  os_pipe :: "int \<times> int"
  os_ifindex :: "string \<Rightarrow> int"
  os_hwaddr :: "string \<Rightarrow> u16 \<times> u8 list"
  os_getpwnam :: "string \<Rightarrow> passwd option"
  os_getpwuid :: "u32 \<Rightarrow> passwd option"
  os_getgrnam :: "string \<Rightarrow> u32 option"
  os_argv_tail :: string

type_synonym 'a sys = "syscall list \<Rightarrow> 'a run \<times> syscall list"

definition returnS :: "'a \<Rightarrow> 'a sys" where
  "returnS x tr = (Inr x, tr)"

definition stopS :: "stop \<Rightarrow> 'a sys" where
  "stopS s tr = (Inl s, tr)"

definition bindS :: "'a sys \<Rightarrow> ('a \<Rightarrow> 'b sys) \<Rightarrow> 'b sys" where
  "bindS m f tr = (case m tr of (Inl s, tr') \<Rightarrow> (Inl s, tr') | (Inr x, tr') \<Rightarrow> f x tr')"

definition liftS :: "'a run \<Rightarrow> 'a sys" where
  "liftS r tr = (r, tr)"

definition callS :: "os_env \<Rightarrow> syscall \<Rightarrow> int sys" where
  "callS os c tr = (Inr (os_answer os tr c), tr @ [c])"

text \<open>A call whose failure ends the process.\<close>

definition checked :: "os_env \<Rightarrow> syscall \<Rightarrow> int sys" where
  "checked os c = bindS (callS os c) (\<lambda>res. bindS (liftS (FatalErrnoError (res = - 1) 1)) (\<lambda>_. returnS res))"

definition checkedU :: "os_env \<Rightarrow> syscall \<Rightarrow> unit sys" where
  "checkedU os c = bindS (checked os c) (\<lambda>_. returnS ())"

section \<open>Wrappers\<close>

definition Eopen :: "os_env \<Rightarrow> string \<Rightarrow> open_flag list \<Rightarrow> nat \<Rightarrow> int sys" where
  "Eopen os fname flags mode = checked os (Sys_open fname flags mode)"

definition Egetgrnam :: "os_env \<Rightarrow> string \<Rightarrow> u32 sys" where
  "Egetgrnam os name = (case os_getgrnam os name of None \<Rightarrow> stopS (Exit 1) | Some res \<Rightarrow> returnS res)"

definition Egetpwnam :: "os_env \<Rightarrow> string \<Rightarrow> passwd sys" where
  "Egetpwnam os name = (case os_getpwnam os name of None \<Rightarrow> stopS (Exit 1) | Some res \<Rightarrow> returnS res)"

definition Egetpwuid :: "os_env \<Rightarrow> u32 \<Rightarrow> passwd sys" where
  "Egetpwuid os uid = (case os_getpwuid os uid of None \<Rightarrow> stopS (Exit 1) | Some res \<Rightarrow> returnS res)"

definition Eioctl :: "os_env \<Rightarrow> int \<Rightarrow> int \<Rightarrow> unit sys" where
  "Eioctl os fd request = checkedU os (Sys_ioctl fd request)"

definition Echroot :: "os_env \<Rightarrow> string \<Rightarrow> unit sys" where
  "Echroot os path = checkedU os (Sys_chroot path)"

definition Echdir :: "os_env \<Rightarrow> string \<Rightarrow> unit sys" where
  "Echdir os path = checkedU os (Sys_chdir path)"

definition Esetuid :: "os_env \<Rightarrow> u32 \<Rightarrow> unit sys" where
  "Esetuid os uid = checkedU os (Sys_setuid uid)"

definition Esetgid :: "os_env \<Rightarrow> u32 \<Rightarrow> unit sys" where
  "Esetgid os gid = checkedU os (Sys_setgid gid)"

definition Esetgroups :: "os_env \<Rightarrow> u32 list \<Rightarrow> unit sys" where
  "Esetgroups os gids = checkedU os (Sys_setgroups gids)"

definition Eclose :: "os_env \<Rightarrow> int \<Rightarrow> unit sys" where
  "Eclose os s = checkedU os (Sys_close s)"

definition Edup2 :: "os_env \<Rightarrow> int \<Rightarrow> int \<Rightarrow> int sys" where
  "Edup2 os oldfd newfd = checked os (Sys_dup2 oldfd newfd)"

definition Esetsid :: "os_env \<Rightarrow> int sys" where
  "Esetsid os = checked os Sys_setsid"

definition Ewrite :: "os_env \<Rightarrow> int \<Rightarrow> string \<Rightarrow> int sys" where
  "Ewrite os fd buf = checked os (Sys_write fd buf)"

definition Esocket :: "os_env \<Rightarrow> int \<Rightarrow> int \<Rightarrow> int \<Rightarrow> int sys" where
  "Esocket os domain type protocol = checked os (Sys_socket domain type protocol)"

definition Efork :: "os_env \<Rightarrow> int sys" where
  "Efork os = checked os Sys_fork"

definition Ebind :: "os_env \<Rightarrow> int \<Rightarrow> sockaddr_ll \<Rightarrow> int sys" where
  "Ebind os sock addr = checked os (Sys_bind sock addr)"

definition Epipe :: "os_env \<Rightarrow> (int \<times> int) sys" where
  "Epipe os = bindS (checked os Sys_pipe) (\<lambda>_. returnS (os_pipe os))"

definition Efcntl_l :: "os_env \<Rightarrow> int \<Rightarrow> int \<Rightarrow> int \<Rightarrow> int sys" where
  "Efcntl_l os fd cmd arg = checked os (Sys_fcntl fd cmd arg)"

definition Esignal :: "os_env \<Rightarrow> int \<Rightarrow> sighandler \<Rightarrow> int sys" where
  "Esignal os signum handler = checked os (Sys_signal signum handler)"

text \<open>\<open>F_SETFD\<close> is 2 and \<open>FD_CLOEXEC\<close> is 1.\<close>

definition SETCLOEXEC :: "os_env \<Rightarrow> int \<Rightarrow> int sys" where
  "SETCLOEXEC os fd = Efcntl_l os fd 2 1"

text \<open>The writes of a message, whose result the program ignores.\<close>

fun emitS :: "os_env \<Rightarrow> writes \<Rightarrow> unit sys" where
  "emitS os [] = returnS ()"
| "emitS os ((fd, buf) # ws) = bindS (callS os (Sys_write fd buf)) (\<lambda>_. emitS os ws)"

text \<open>A program whose output are such messages.\<close>

definition outS :: "os_env \<Rightarrow> 'a out \<Rightarrow> 'a sys" where
  "outS os m = bindS (emitS os (fst m)) (\<lambda>_. liftS (snd m))"

lemmas wrapper_defs = Eopen_def Eioctl_def Echroot_def Echdir_def Esetuid_def Esetgid_def Esetgroups_def
  Eclose_def Edup2_def Esetsid_def Ewrite_def Esocket_def Efork_def Ebind_def Epipe_def Efcntl_l_def Esignal_def SETCLOEXEC_def

section \<open>Reasoning\<close>

text \<open>Which result and which calls a program has; one rule per combinator.\<close>

lemma returnS_eq [simp]: "returnS x tr = (Inr x, tr)" and stopS_eq [simp]: "stopS s tr = (Inl s, tr)"
  and liftS_eq [simp]: "liftS r tr = (r, tr)"
  by (simp_all add: returnS_def stopS_def liftS_def)

lemma bindS_InrE:
  assumes "bindS m f tr = (Inr y, tr'')"
  obtains x tr' where "m tr = (Inr x, tr')" "f x tr' = (Inr y, tr'')"
  using assms by (auto simp: bindS_def split: prod.splits sum.splits)

lemma bindS_InlE:
  assumes "bindS m f tr = (Inl s, tr'')"
  obtains "m tr = (Inl s, tr'')" | x tr' where "m tr = (Inr x, tr')" "f x tr' = (Inl s, tr'')"
  using assms by (auto simp: bindS_def split: prod.splits sum.splits)

lemma callS_eq [simp]: "callS os c tr = (Inr (os_answer os tr c), tr @ [c])"
  by (simp add: callS_def)

lemma checked_eq: "checked os c tr = (if os_answer os tr c = - 1 then Inl (Exit 1) else Inr (os_answer os tr c), tr @ [c])"
  by (simp add: checked_def bindS_def)

lemma checkedU_eq: "checkedU os c tr = (if os_answer os tr c = - 1 then Inl (Exit 1) else Inr (), tr @ [c])"
  by (simp add: checkedU_def bindS_def checked_eq)

lemma emitS_eq [simp]: "emitS os ws tr = (Inr (), tr @ map (\<lambda>(fd, buf). Sys_write fd buf) ws)"
  by (induction ws arbitrary: tr) (auto simp: bindS_def)

text \<open>All calls of a list succeed when they are issued after a history.\<close>

fun succeed :: "os_env \<Rightarrow> syscall list \<Rightarrow> syscall list \<Rightarrow> bool" where
  "succeed os tr [] = True"
| "succeed os tr (c # cs) \<longleftrightarrow> os_answer os tr c \<noteq> - 1 \<and> succeed os (tr @ [c]) cs"

lemma succeed_append [simp]: "succeed os tr (xs @ ys) \<longleftrightarrow> succeed os tr xs \<and> succeed os (tr @ xs) ys"
  by (induction xs arbitrary: tr) auto

text \<open>A program whose result is independent of the history and that issues no calls of its own when it returns.\<close>

text \<open>
  The triple for programs with checked calls: whenever the program returns, it has issued some calls, all of which
  succeeded, and its result and its calls satisfy \<open>Q\<close>.
\<close>

definition returnsS :: "os_env \<Rightarrow> 'a sys \<Rightarrow> ('a \<Rightarrow> syscall list \<Rightarrow> bool) \<Rightarrow> bool" where
  "returnsS os m Q \<longleftrightarrow> (\<forall>tr x tr'. m tr = (Inr x, tr') \<longrightarrow> (\<exists>new. tr' = tr @ new \<and> succeed os tr new \<and> Q x new))"

lemma returnsS_return: "Q x [] \<Longrightarrow> returnsS os (returnS x) Q"
  by (simp add: returnsS_def)

lemma returnsS_stop: "returnsS os (stopS s) Q"
  by (simp add: returnsS_def)

lemma returnsS_lift: "(\<And>x. r = Inr x \<Longrightarrow> Q x []) \<Longrightarrow> returnsS os (liftS r) Q"
  by (auto simp: returnsS_def)

lemma returnsS_checked: "(\<And>x. x \<noteq> - 1 \<Longrightarrow> Q x [c]) \<Longrightarrow> returnsS os (checked os c) Q"
  by (auto simp: returnsS_def checked_eq split: if_splits)

lemma returnsS_checkedU: "Q () [c] \<Longrightarrow> returnsS os (checkedU os c) Q"
  by (auto simp: returnsS_def checkedU_eq split: if_splits)

lemma returnsS_bind:
  assumes "returnsS os m P" "\<And>x new. P x new \<Longrightarrow> returnsS os (f x) (\<lambda>y new'. Q y (new @ new'))"
  shows "returnsS os (bindS m f) Q"
  unfolding returnsS_def
proof (intro allI impI)
  fix tr y tr'' assume "bindS m f tr = (Inr y, tr'')"
  then obtain x tr' where x: "m tr = (Inr x, tr')" "f x tr' = (Inr y, tr'')" by (elim bindS_InrE)
  then obtain n1 where n1: "tr' = tr @ n1" "succeed os tr n1" "P x n1" using assms(1) unfolding returnsS_def by blast
  then obtain n2 where "tr'' = tr' @ n2" "succeed os tr' n2" "Q y (n1 @ n2)" using assms(2)[OF n1(3)] x(2) unfolding returnsS_def by blast
  with n1 show "\<exists>new. tr'' = tr @ new \<and> succeed os tr new \<and> Q y new" by (intro exI[of _ "n1 @ n2"]) simp
qed

lemma returnsS_conseq: "returnsS os m P \<Longrightarrow> (\<And>x new. P x new \<Longrightarrow> Q x new) \<Longrightarrow> returnsS os m Q"
  unfolding returnsS_def by blast

lemma returnsS_if: "(b \<Longrightarrow> returnsS os m Q) \<Longrightarrow> (\<not> b \<Longrightarrow> returnsS os m' Q) \<Longrightarrow> returnsS os (if b then m else m') Q"
  by simp

text \<open>The same triples chained from the left: the calls so far are an argument of \<open>Q\<close>.\<close>

lemma returnsS_checked_bind:
  "(\<And>x. x \<noteq> - 1 \<Longrightarrow> returnsS os (f x) (\<lambda>y new. Q y (c # new))) \<Longrightarrow> returnsS os (bindS (checked os c) f) Q"
  by (rule returnsS_bind[where P = "\<lambda>x new. x \<noteq> - 1 \<and> new = [c]"]) (auto intro: returnsS_checked)

lemma returnsS_checkedU_bind:
  "returnsS os (f ()) (\<lambda>y new. Q y (c # new)) \<Longrightarrow> returnsS os (bindS (checkedU os c) f) Q"
  by (rule returnsS_bind[where P = "\<lambda>x new. new = [c]"]) (auto intro: returnsS_checkedU)

text \<open>A program that issues no calls when it returns, and whose result does not depend on the calls before.\<close>

definition quietS :: "'a sys \<Rightarrow> bool" where
  "quietS m \<longleftrightarrow> (\<forall>tr x tr'. m tr = (Inr x, tr') \<longrightarrow> (\<forall>tr2. m tr2 = (Inr x, tr2)))"

lemma quietS_simps [simp]: "quietS (returnS x)" "quietS (stopS s)" "quietS (bindS m (\<lambda>_. stopS s))"
  by (auto simp: quietS_def elim!: bindS_InrE)

lemma quietS_bind:
  assumes "quietS m" "\<And>x. quietS (f x)"
  shows "quietS (bindS m f)"
  unfolding quietS_def
proof (intro allI impI)
  fix tr y tr'' tr2 assume "bindS m f tr = (Inr y, tr'')"
  then obtain x tr' where x: "m tr = (Inr x, tr')" "f x tr' = (Inr y, tr'')" by (elim bindS_InrE)
  have "m tr2 = (Inr x, tr2)" using assms(1) x(1) unfolding quietS_def by blast
  moreover have "f x tr2 = (Inr y, tr2)" using assms(2) x(2) unfolding quietS_def by blast
  ultimately show "bindS m f tr2 = (Inr y, tr2)" by (simp add: bindS_def)
qed

lemma quietS_same: "quietS m \<Longrightarrow> m tr = (Inr x, tr') \<Longrightarrow> tr' = tr"
  unfolding quietS_def by (metis prod.inject)

lemma quietS_returns: "quietS m \<Longrightarrow> returnsS os m (\<lambda>x new. new = [] \<and> m [] = (Inr x, []))"
  unfolding returnsS_def using quietS_same by (metis append_Nil2 quietS_def succeed.simps(1))

text \<open>The reason for which a program stops, and all calls it has issued then, satisfy \<open>P\<close>.\<close>

definition stopsS :: "(stop \<Rightarrow> syscall list \<Rightarrow> bool) \<Rightarrow> 'a sys \<Rightarrow> bool" where
  "stopsS P m \<longleftrightarrow> (\<forall>tr s tr'. m tr = (Inl s, tr') \<longrightarrow> P s tr')"

lemma stopsS_simps [simp]:
  "stopsS P (returnS x)" "stopsS P (liftS (Inr x))" "stopsS P (callS os c)" "stopsS P (emitS os ws)" "stopsS P (stopS s) \<longleftrightarrow> (\<forall>tr. P s tr)"
  by (auto simp: stopsS_def)

lemma stopsS_checked:
  assumes "\<And>tr. P (Exit 1) tr"
  shows "stopsS P (checked os c)" "stopsS P (checkedU os c)"
  using assms by (auto simp: stopsS_def checked_eq checkedU_eq split: if_splits)

lemma stopsS_bind: "stopsS P m \<Longrightarrow> (\<And>x. stopsS P (f x)) \<Longrightarrow> stopsS P (bindS m f)"
  unfolding stopsS_def by (blast elim: bindS_InlE)

end
