(* ===== verification/Antidos.thy ===== *)
theory Antidos
  imports Vector Parameters
begin

text \<open>
  The request counters of \<open>src/src/antidos.c\<close>: a vector of records sorted by address, each with
  the time of the last request and a counter that decays with the time between requests.
  The value of \<open>time(0)\<close> is an argument \<open>t\<close>. The operations are related to a finite map
  from addresses to (time, counter) pairs, and a step relation collects the states that
  a run with a clock that never goes back can reach.
\<close>

section \<open>Data and operations\<close>

record Data =
  d_ip :: in_addr
  d_access_time :: int
  d_counter :: u32

record AntiDOS =
  dos_min_time :: int
  dos_data :: "Data list"

type_synonym dos_vector = "(Data, in_addr) vector_ops"

definition Data_searchCompare :: "in_addr \<Rightarrow> Data \<Rightarrow> int" where
  "Data_searchCompare lhs rhs = (if lhs < d_ip rhs then - 1 else if lhs > d_ip rhs then 1 else 0)"

definition Data_sortCompare :: "Data \<Rightarrow> Data \<Rightarrow> int" where
  "Data_sortCompare lhs rhs = Data_searchCompare (d_ip lhs) rhs"

definition AntiDOS_init :: "dos_vector \<Rightarrow> AntiDOS" where
  "AntiDOS_init V = \<lparr>dos_min_time = 0, dos_data = Vector_init V\<rparr>"

text \<open>
  The counter is an \<open>unsigned int\<close>; the product with the time difference and its quotient
  are computed in \<open>time_t\<close>, and the difference is reduced to 32 bits.
\<close>

definition register_known :: "AntiDOS \<Rightarrow> int \<Rightarrow> nat \<Rightarrow> AntiDOS \<times> u32" where
  "register_known dos t i =
     (let data = dos_data dos ! i;
          delta = t - d_access_time data;
          c = d_counter data;
          (counter, min_time) =
            (if delta > ANTIDOS_TIME_BASE then (1, 0)
             else if c \<le> ANTIDOS_COUNT_MAX
               then (of_int (uint c - c_div (uint c * delta) ANTIDOS_TIME_BASE) + 1, dos_min_time dos)
             else if delta > 1 then (ANTIDOS_COUNT_MAX, dos_min_time dos)
             else (c, dos_min_time dos))
      in (dos\<lparr>dos_min_time := min_time,
              dos_data := (dos_data dos)[i := data\<lparr>d_access_time := t, d_counter := counter\<rparr>]\<rparr>,
          counter))"

definition AntiDOS_registerIP :: "dos_vector \<Rightarrow> int \<Rightarrow> AntiDOS \<Rightarrow> in_addr \<Rightarrow> AntiDOS \<times> u32" where
  "AntiDOS_registerIP V t dos ip =
     (case Vector_search V (dos_data dos) ip Data_searchCompare of
        None \<Rightarrow>
          (case Vector_insert V (dos_data dos) ip Data_searchCompare of (xs, i) \<Rightarrow>
             (dos\<lparr>dos_data := xs[i := \<lparr>d_ip = ip, d_access_time = t, d_counter = 1\<rparr>]\<rparr>, 1))
      | Some i \<Rightarrow> register_known dos t i)"

definition NO_IP :: in_addr where
  "NO_IP = 0xFFFFFFFF"

fun update_mark :: "int \<Rightarrow> Data list \<Rightarrow> int \<Rightarrow> Data list \<times> bool \<times> int" where
  "update_mark t [] min_time = ([], False, min_time)"
| "update_mark t (i # is) min_time =
     (if t - d_access_time i > ANTIDOS_TIME_BASE
      then (case update_mark t is min_time of (xs, changed, m) \<Rightarrow> (i\<lparr>d_ip := NO_IP\<rparr> # xs, True, m))
      else (case update_mark t is (min min_time (d_access_time i)) of (xs, changed, m) \<Rightarrow> (i # xs, changed, m)))"

fun pop_marked :: "dos_vector \<Rightarrow> nat \<Rightarrow> Data list \<Rightarrow> Data list" where
  "pop_marked V 0 xs = xs"
| "pop_marked V (Suc i) xs =
     (if d_ip (xs ! i) \<noteq> NO_IP then xs else pop_marked V i (Vector_popback V xs))"

definition AntiDOS_update :: "dos_vector \<Rightarrow> int \<Rightarrow> AntiDOS \<Rightarrow> AntiDOS" where
  "AntiDOS_update V t dos =
     (if t - dos_min_time dos > ANTIDOS_TIME_BASE then
        (case update_mark t (dos_data dos) t of (xs, was_changed, m) \<Rightarrow>
           let dos = dos\<lparr>dos_min_time := m, dos_data := xs\<rparr> in
           if was_changed then
             (let ys = Vector_sort V xs Data_sortCompare in
              dos\<lparr>dos_data := Vector_resize V (pop_marked V (length ys) ys)\<rparr>)
           else dos)
      else dos)"

definition AntiDOS_isOversized :: "AntiDOS \<Rightarrow> bool" where
  "AntiDOS_isOversized dos \<longleftrightarrow> length (dos_data dos) \<ge> ANTIDOS_ENTRIES_MAX"

section \<open>Specification\<close>

text \<open>The vector is sorted by address without duplicates.\<close>

definition dos_sorted :: "Data list \<Rightarrow> bool" where
  "dos_sorted xs \<longleftrightarrow> sorted_wrt (\<lambda>x y. d_ip x < d_ip y) xs"

definition dos_abs :: "AntiDOS \<Rightarrow> in_addr \<rightharpoonup> int \<times> u32" where
  "dos_abs dos = map_of (map (\<lambda>d. (d_ip d, (d_access_time d, d_counter d))) (dos_data dos))"

text \<open>The counter of a request at time \<open>t\<close>, given what is known of the address.\<close>

fun next_counter :: "(int \<times> u32) option \<Rightarrow> int \<Rightarrow> u32" where
  "next_counter None t = 1"
| "next_counter (Some (t0, c)) t =
     (if t - t0 > 10 then 1
      else if c \<le> 1000 then of_int (uint c - c_div (uint c * (t - t0)) 10) + 1
      else if t - t0 > 1 then 1000 else c)"

definition fresh :: "int \<Rightarrow> Data \<Rightarrow> bool" where
  "fresh t d \<longleftrightarrow> t - d_access_time d \<le> 10"

lemma search_order_sorted: "dos_sorted xs \<Longrightarrow> search_order Data_searchCompare ip xs"
  unfolding dos_sorted_def search_order_def
  by (erule sorted_wrt_mono_rel[rotated]) (auto simp: Data_searchCompare_def)

lemma Data_searchCompare_0: "Data_searchCompare ip d = 0 \<longleftrightarrow> d_ip d = ip"
  by (auto simp: Data_searchCompare_def)

lemma Data_sortCompare_le: "Data_sortCompare x y \<le> 0 \<longleftrightarrow> d_ip x \<le> d_ip y"
  by (auto simp: Data_sortCompare_def Data_searchCompare_def)

lemma cmp_order_Data: "cmp_order Data_sortCompare S"
  by (auto simp: cmp_order_def Data_sortCompare_le) (auto simp: Data_sortCompare_def Data_searchCompare_def split: if_splits)

lemma dos_sorted_distinct: "dos_sorted xs \<Longrightarrow> distinct (map d_ip xs)"
  by (induction xs) (auto simp: dos_sorted_def)

lemma map_of_insert_middle:
  "k \<notin> fst ` set as \<Longrightarrow> map_of (as @ (k, v) # bs) = (map_of (as @ bs))(k \<mapsto> v)"
  by (induction as) auto

lemma map_of_update_nth:
  "distinct (map fst xs) \<Longrightarrow> i < length xs \<Longrightarrow> map_of (xs[i := (fst (xs ! i), v)]) = (map_of xs)(fst (xs ! i) \<mapsto> v)"
proof (induction xs arbitrary: i)
  case (Cons x xs)
  show ?case
  proof (cases i)
    case (Suc j)
    then have "fst (xs ! j) \<in> fst ` set xs" using Cons.prems(2) by simp
    then have "fst (xs ! j) \<noteq> fst x" using Cons.prems(1) by (metis distinct.simps(2) list.simps(9) set_map)
    with Suc Cons show ?thesis by (auto simp: fun_upd_twist)
  qed (simp add: fun_eq_iff)
qed simp

lemma dos_abs_None: "dos_abs dos ip = None \<longleftrightarrow> ip \<notin> d_ip ` set (dos_data dos)"
  by (auto simp: dos_abs_def map_of_eq_None_iff image_iff)

lemma dos_abs_nth:
  "dos_sorted (dos_data dos) \<Longrightarrow> i < length (dos_data dos) \<Longrightarrow>
   dos_abs dos (d_ip (dos_data dos ! i)) = Some (d_access_time (dos_data dos ! i), d_counter (dos_data dos ! i))"
  unfolding dos_abs_def
  by (rule map_of_is_SomeI) (auto simp: comp_def dos_sorted_distinct)

section \<open>Registration\<close>

lemma dos_sorted_update:
  "dos_sorted xs \<Longrightarrow> d_ip x = d_ip (xs ! i) \<Longrightarrow> dos_sorted (xs[i := x])"
  by (cases "i < length xs") (auto simp: dos_sorted_def sorted_wrt_iff_nth_less nth_list_update)

lemma register_known_abs:
  assumes "dos_sorted (dos_data dos)" "i < length (dos_data dos)" "register_known dos t i = (dos', c)"
  shows "dos_sorted (dos_data dos')"
    "dos_abs dos' = (dos_abs dos)(d_ip (dos_data dos ! i) \<mapsto> (t, c))"
    "c = next_counter (dos_abs dos (d_ip (dos_data dos ! i))) t"
    "dos_data dos' = (dos_data dos)[i := (dos_data dos ! i)\<lparr>d_access_time := t, d_counter := c\<rparr>]"
    "dos_min_time dos' = dos_min_time dos \<or> dos_min_time dos' = 0"
proof -
  show d: "dos_data dos' = (dos_data dos)[i := (dos_data dos ! i)\<lparr>d_access_time := t, d_counter := c\<rparr>]"
    and "dos_min_time dos' = dos_min_time dos \<or> dos_min_time dos' = 0"
    using assms(3) by (auto simp: register_known_def Let_def split: if_splits)
  show "c = next_counter (dos_abs dos (d_ip (dos_data dos ! i))) t"
    using assms(3) by (auto simp: dos_abs_nth[OF assms(1,2)] register_known_def Let_def parameter_defs split: if_splits)
  show "dos_sorted (dos_data dos')" unfolding d by (rule dos_sorted_update[OF assms(1)]) simp
  let ?kv = "\<lambda>d. (d_ip d, (d_access_time d, d_counter d))"
  show "dos_abs dos' = (dos_abs dos)(d_ip (dos_data dos ! i) \<mapsto> (t, c))"
    using map_of_update_nth[of "map ?kv (dos_data dos)" i "(t, c)"] assms(2) dos_sorted_distinct[OF assms(1)]
    by (simp add: dos_abs_def d map_update comp_def)
qed

lemma sorted_insert_middle:
  assumes "dos_sorted (as @ bs)" "d \<notin> d_ip ` set (as @ bs)" "d_ip x = d"
    "\<forall>a\<in>set as. 0 \<le> Data_searchCompare d a" "\<forall>b\<in>set bs. Data_searchCompare d b \<le> 0"
  shows "dos_sorted (as @ x # bs)"
proof -
  have "d_ip a < d" if "a \<in> set as" for a
    using assms(2,4) that by (force simp: Data_searchCompare_def split: if_splits)
  moreover have "d < d_ip b" if "b \<in> set bs" for b
    using assms(2,5) that by (force simp: Data_searchCompare_def split: if_splits)
  ultimately show ?thesis using assms(1,3) by (simp add: dos_sorted_def sorted_wrt_append)
qed

lemma register_abs:
  assumes "vector_lib V" "dos_sorted (dos_data dos)" "AntiDOS_registerIP V t dos ip = (dos', c)"
  shows "dos_sorted (dos_data dos') \<and> dos_abs dos' = (dos_abs dos)(ip \<mapsto> (t, c))
     \<and> c = next_counter (dos_abs dos ip) t \<and> dos_min_time dos' \<in> {dos_min_time dos, 0}"
proof (cases "Vector_search V (dos_data dos) ip Data_searchCompare")
  case None
  note so = search_order_sorted[OF assms(2), of ip]
  have new: "ip \<notin> d_ip ` set (dos_data dos)"
    using vector_lib.search_missing[OF assms(1) so None] by (auto simp: Data_searchCompare_0)
  obtain ys i where ins: "Vector_insert V (dos_data dos) ip Data_searchCompare = (ys, i)" by fastforce
  let ?x = "\<lparr>d_ip = ip, d_access_time = t, d_counter = 1\<rparr>"
  from vector_lib.insert_element[OF assms(1) so ins, of ?x] obtain as bs where
    ab: "dos_data dos = as @ bs" "ys[i := ?x] = as @ ?x # bs"
      "\<forall>a\<in>set as. 0 \<le> Data_searchCompare ip a" "\<forall>b\<in>set bs. Data_searchCompare ip b \<le> 0" by blast
  have d: "dos' = dos\<lparr>dos_data := as @ ?x # bs\<rparr>" "c = 1"
    using assms(3) None ins ab(2) by (auto simp: AntiDOS_registerIP_def)
  have "dos_sorted (as @ ?x # bs)"
    using assms(2) new ab by (intro sorted_insert_middle[of as bs ip]) auto
  moreover have "dos_abs dos' = (dos_abs dos)(ip \<mapsto> (t, c))"
    using new ab(1) d map_of_insert_middle[of ip "map (\<lambda>d. (d_ip d, d_access_time d, d_counter d)) as"]
    by (simp add: dos_abs_def image_Un image_image)
  moreover have "dos_abs dos ip = None" using new by (simp add: dos_abs_None)
  ultimately show ?thesis using d by simp
next
  case (Some i)
  from vector_lib.search_found[OF assms(1) search_order_sorted[OF assms(2)] Some]
  have i: "i < length (dos_data dos)" "d_ip (dos_data dos ! i) = ip" by (auto simp: Data_searchCompare_0)
  have "register_known dos t i = (dos', c)" using assms(3) Some by (simp add: AntiDOS_registerIP_def)
  from register_known_abs[OF assms(2) i(1) this] i(2) show ?thesis by auto
qed

section \<open>Expiry\<close>

lemma update_mark_result:
  "update_mark t xs m =
     (map (\<lambda>d. if fresh t d then d else d\<lparr>d_ip := NO_IP\<rparr>) xs,
      \<exists>d\<in>set xs. \<not> fresh t d,
      fold (\<lambda>d m. if fresh t d then min m (d_access_time d) else m) xs m)"
  by (induction t xs m rule: update_mark.induct) (auto simp: fresh_def ANTIDOS_TIME_BASE_def)

lemma NO_IP_greatest: "NO_IP \<le> w \<Longrightarrow> w = NO_IP"
  using uint_lt2p[of w] by (auto simp: NO_IP_def word_le_def word_uint_eq_iff)

lemma filter_marked:
  "filter (\<lambda>d. d_ip d \<noteq> NO_IP) (map (\<lambda>d. if fresh t d then d else d\<lparr>d_ip := NO_IP\<rparr>) xs)
   = filter (\<lambda>d. fresh t d \<and> d_ip d \<noteq> NO_IP) xs"
  by (induction xs) auto

lemma pop_marked_sorted:
  assumes "vector_lib V" "sorted_wrt (\<lambda>x y. Data_sortCompare x y \<le> 0) xs"
  shows "pop_marked V (length xs) xs = filter (\<lambda>d. d_ip d \<noteq> NO_IP) xs"
  using assms(2)
proof (induction xs rule: rev_induct)
  case (snoc x xs)
  have le: "d_ip y \<le> d_ip x" if "y \<in> set xs" for y
    using snoc.prems that by (simp add: sorted_wrt_append Data_sortCompare_le)
  have top: "d_ip x = NO_IP \<or> d_ip y \<noteq> NO_IP" if "y \<in> set xs" for y
    using le[OF that] NO_IP_greatest[of "d_ip x"] by auto
  have "filter (\<lambda>d. d_ip d \<noteq> NO_IP) xs = xs" if "d_ip x \<noteq> NO_IP" using top that by (simp add: filter_id_conv)
  then show ?case
    using snoc vector_lib.popback[OF assms(1)] by (auto simp: sorted_wrt_append)
qed simp

lemma sorted_strict_unique:
  assumes "sorted_wrt (\<lambda>x y. d_ip x \<le> d_ip y) xs" "dos_sorted ys" "mset xs = mset ys"
  shows "xs = ys"
proof -
  have so: "sorted (map d_ip xs)" using assms(1) by (simp add: sorted_wrt_map)
  have "sorted_wrt (\<lambda>x y. d_ip x \<le> d_ip y) ys"
    using assms(2) unfolding dos_sorted_def by (rule sorted_wrt_mono_rel[rotated]) simp
  then have so': "sorted (map d_ip ys)" by (simp add: sorted_wrt_map)
  have d: "distinct (map d_ip ys)" by (rule dos_sorted_distinct[OF assms(2)])
  have se: "set xs = set ys" by (rule mset_eq_setD[OF assms(3)])
  have "mset (map d_ip xs) = mset (map d_ip ys)" using assms(3) by simp
  then have d': "distinct (map d_ip xs)" using d mset_eq_imp_distinct_iff by blast
  have "inj_on d_ip (set xs \<union> set ys)" using d se by (simp add: distinct_map)
  then show ?thesis by (rule map_sorted_distinct_set_unique[OF _ so d' so' d se])
qed

lemma update_data:
  assumes "vector_lib V" "dos_sorted (dos_data dos)" "10 < t - dos_min_time dos"
  shows "dos_data (AntiDOS_update V t dos) =
     (if \<exists>d\<in>set (dos_data dos). \<not> fresh t d
      then filter (\<lambda>d. fresh t d \<and> d_ip d \<noteq> NO_IP) (dos_data dos) else dos_data dos)"
proof (cases "\<exists>d\<in>set (dos_data dos). \<not> fresh t d")
  case True
  define xs where "xs = map (\<lambda>d. if fresh t d then d else d\<lparr>d_ip := NO_IP\<rparr>) (dos_data dos)"
  define ys where "ys = Vector_sort V xs Data_sortCompare"
  have s: "mset ys = mset xs" "sorted_wrt (\<lambda>x y. Data_sortCompare x y \<le> 0) ys"
    unfolding ys_def using vector_lib.sort[OF assms(1) cmp_order_Data] by auto
  have "dos_data (AntiDOS_update V t dos) = pop_marked V (length ys) ys"
    using True assms(3) by (simp add: AntiDOS_update_def ANTIDOS_TIME_BASE_def update_mark_result
        vector_lib.resize[OF assms(1)] xs_def ys_def Let_def)
  also have "\<dots> = filter (\<lambda>d. d_ip d \<noteq> NO_IP) ys" by (rule pop_marked_sorted[OF assms(1) s(2)])
  also have "\<dots> = filter (\<lambda>d. fresh t d \<and> d_ip d \<noteq> NO_IP) (dos_data dos)"
  proof (rule sorted_strict_unique)
    show "sorted_wrt (\<lambda>x y. d_ip x \<le> d_ip y) (filter (\<lambda>d. d_ip d \<noteq> NO_IP) ys)"
      using s(2) by (intro sorted_wrt_filter) (simp add: Data_sortCompare_le)
    show "dos_sorted (filter (\<lambda>d. fresh t d \<and> d_ip d \<noteq> NO_IP) (dos_data dos))"
      using assms(2) unfolding dos_sorted_def by (rule sorted_wrt_filter)
    have "mset (filter (\<lambda>d. d_ip d \<noteq> NO_IP) ys) = mset (filter (\<lambda>d. d_ip d \<noteq> NO_IP) xs)"
      using s(1) by (simp only: mset_filter)
    also have "filter (\<lambda>d. d_ip d \<noteq> NO_IP) xs = filter (\<lambda>d. fresh t d \<and> d_ip d \<noteq> NO_IP) (dos_data dos)"
      unfolding xs_def by (rule filter_marked)
    finally show "mset (filter (\<lambda>d. d_ip d \<noteq> NO_IP) ys) = mset (filter (\<lambda>d. fresh t d \<and> d_ip d \<noteq> NO_IP) (dos_data dos))" .
  qed
  finally show ?thesis using True by simp
next
  case False
  then have "map (\<lambda>d. if fresh t d then d else d\<lparr>d_ip := NO_IP\<rparr>) (dos_data dos) = dos_data dos"
    by (intro map_idI) auto
  with False show ?thesis
    using assms(3) by (simp add: AntiDOS_update_def ANTIDOS_TIME_BASE_def update_mark_result)
qed

lemma update_min_time:
  assumes "10 < t - dos_min_time dos"
  shows "dos_min_time (AntiDOS_update V t dos)
     = fold (\<lambda>d m. if fresh t d then min m (d_access_time d) else m) (dos_data dos) t"
  using assms by (simp add: AntiDOS_update_def ANTIDOS_TIME_BASE_def update_mark_result Let_def)

lemma update_skipped: "t - dos_min_time dos \<le> 10 \<Longrightarrow> AntiDOS_update V t dos = dos"
  by (simp add: AntiDOS_update_def ANTIDOS_TIME_BASE_def)

lemma fold_min_le:
  fixes m :: int
  shows "fold (\<lambda>d m. if P d then min m (f d) else m) xs m \<le> m"
    "d \<in> set xs \<Longrightarrow> P d \<Longrightarrow> fold (\<lambda>d m. if P d then min m (f d) else m) xs m \<le> f d"
proof -
  show le: "fold (\<lambda>d m. if P d then min m (f d) else m) xs m \<le> m" for xs m
  proof (induction xs arbitrary: m)
    case (Cons x xs)
    then show ?case using order.trans[OF Cons[of "min m (f x)"], of m] by simp
  qed simp
  show "d \<in> set xs \<Longrightarrow> P d \<Longrightarrow> fold (\<lambda>d m. if P d then min m (f d) else m) xs m \<le> f d"
  proof (induction xs arbitrary: m)
    case (Cons x xs)
    then show ?case using order.trans[OF le[of xs "min m (f x)"], of "f x"] by auto
  qed simp
qed

lemma fold_min_ge:
  fixes m :: int
  shows "b \<le> m \<Longrightarrow> \<forall>d\<in>set xs. b \<le> f d \<Longrightarrow> b \<le> fold (\<lambda>d m. if P d then min m (f d) else m) xs m"
  by (induction xs arbitrary: m) auto

section \<open>Runs\<close>

text \<open>The states after some calls, the last of them at time \<open>t\<close>, with a clock that never goes back.\<close>

inductive dos_run :: "dos_vector \<Rightarrow> int \<Rightarrow> AntiDOS \<Rightarrow> bool" for V where
  run_init: "0 \<le> t \<Longrightarrow> dos_run V t (AntiDOS_init V)"
| run_register: "dos_run V t dos \<Longrightarrow> t \<le> t' \<Longrightarrow> dos_run V t' (fst (AntiDOS_registerIP V t' dos ip))"
| run_update: "dos_run V t dos \<Longrightarrow> t \<le> t' \<Longrightarrow> dos_run V t' (AntiDOS_update V t' dos)"

definition entry_ok :: "int \<Rightarrow> int \<Rightarrow> int \<times> u32 \<Rightarrow> bool" where
  "entry_ok m t e \<longleftrightarrow> m \<le> fst e \<and> fst e \<le> t \<and> 1 \<le> uint (snd e) \<and> uint (snd e) \<le> 1001"

definition dos_inv :: "int \<Rightarrow> AntiDOS \<Rightarrow> bool" where
  "dos_inv t dos \<longleftrightarrow> dos_sorted (dos_data dos) \<and> 0 \<le> dos_min_time dos \<and> dos_min_time dos \<le> t
     \<and> (\<forall>ip e. dos_abs dos ip = Some e \<longrightarrow> entry_ok (dos_min_time dos) t e)"

lemma dos_abs_Some:
  "dos_sorted (dos_data dos) \<Longrightarrow>
   dos_abs dos ip = Some (a, c) \<longleftrightarrow> (\<exists>d\<in>set (dos_data dos). d_ip d = ip \<and> d_access_time d = a \<and> d_counter d = c)"
  unfolding dos_abs_def
  by (subst map_of_eq_Some_iff) (auto simp: comp_def dos_sorted_distinct image_iff)

lemma dos_abs_fresh:
  assumes "dos_sorted (dos_data dos)" "d \<in> set (dos_data dos)"
  shows "dos_abs dos (d_ip d) = Some (d_access_time d, d_counter d)"
  using assms by (auto simp: dos_abs_Some)

lemma counter_decay:
  fixes n d :: int
  assumes "1 \<le> n" "n \<le> 1000" "0 \<le> d" "d \<le> 10"
  shows "0 \<le> n - n * d div 10" "n - n * d div 10 \<le> 1000"
proof -
  have "n * d div 10 \<le> n * 10 div 10" using assms by (intro zdiv_mono1 mult_left_mono) auto
  moreover have "0 \<le> n * d div 10" using assms by (simp add: pos_imp_zdiv_nonneg_iff)
  ultimately show "0 \<le> n - n * d div 10" "n - n * d div 10 \<le> 1000" using assms by auto
qed

lemma uint_small: "0 \<le> v \<Longrightarrow> v < 2 ^ 32 \<Longrightarrow> uint (of_int v :: u32) = v"
  by (simp add: unsigned_of_int take_bit_int_eq_self)

lemma next_counter_bounds:
  assumes "\<And>e. known = Some e \<Longrightarrow> fst e \<le> t \<and> 1 \<le> uint (snd e) \<and> uint (snd e) \<le> 1001"
  shows "1 \<le> uint (next_counter known t) \<and> uint (next_counter known t) \<le> 1001"
proof (cases known)
  case (Some e)
  obtain t0 c where e: "e = (t0, c)" by fastforce
  define n where "n = uint c"
  have n: "1 \<le> n" "n \<le> 1001" "t0 \<le> t" using assms[OF Some] by (auto simp: n_def e)
  show ?thesis
  proof (cases "t - t0 \<le> 10 \<and> c \<le> 1000")
    case True
    then have "n \<le> 1000" by (simp add: word_le_def n_def)
    moreover have d: "c_div (n * (t - t0)) 10 = n * (t - t0) div 10" using n by (intro c_div_nonneg) auto
    ultimately have v: "0 \<le> n - c_div (n * (t - t0)) 10" "n - c_div (n * (t - t0)) 10 \<le> 1000"
      using counter_decay[of n "t - t0"] n True by auto
    have "next_counter known t = of_int (n - c_div (n * (t - t0)) 10 + 1)"
      using True by (simp add: Some e n_def)
    with v show ?thesis using uint_small[of "n - c_div (n * (t - t0)) 10 + 1"] by simp
  next
    case False
    then show ?thesis using n by (auto simp: Some e n_def)
  qed
qed simp

lemma dos_inv_register:
  assumes "vector_lib V" "dos_inv t dos" "t \<le> t'" "AntiDOS_registerIP V t' dos ip = (dos', c)"
  shows "dos_inv t' dos'"
proof -
  have so: "dos_sorted (dos_data dos)" using assms(2) by (simp add: dos_inv_def)
  note r = register_abs[OF assms(1) so assms(4)]
  have old: "entry_ok (dos_min_time dos') t' e" if "dos_abs dos ip' = Some e" for ip' e
  proof -
    have "entry_ok (dos_min_time dos) t e" "0 \<le> dos_min_time dos" using assms(2) that unfolding dos_inv_def by blast+
    then show ?thesis using r assms(3) by (auto simp: entry_ok_def)
  qed
  have "1 \<le> uint c \<and> uint c \<le> 1001"
    using next_counter_bounds[of "dos_abs dos ip" t'] r old by (auto simp: entry_ok_def)
  then have new: "entry_ok (dos_min_time dos') t' (t', c)"
    using assms(2,3) r by (auto simp: entry_ok_def dos_inv_def)
  have "0 \<le> dos_min_time dos' \<and> dos_min_time dos' \<le> t'" using r assms(2,3) by (auto simp: dos_inv_def)
  then show ?thesis using r old new by (auto simp: dos_inv_def)
qed

lemma dos_inv_update:
  assumes "vector_lib V" "dos_inv t dos" "t \<le> t'"
  shows "dos_inv t' (AntiDOS_update V t' dos)"
proof (cases "10 < t' - dos_min_time dos")
  case True
  have so: "dos_sorted (dos_data dos)" using assms(2) by (simp add: dos_inv_def)
  let ?dos = "AntiDOS_update V t' dos"
  note d = update_data[OF assms(1) so True] and m = update_min_time[OF True, of V]
  have so': "dos_sorted (dos_data ?dos)"
    unfolding d using so by (auto simp: dos_sorted_def sorted_wrt_filter)
  have old: "dos_min_time dos \<le> d_access_time x \<and> d_access_time x \<le> t' \<and> 1 \<le> uint (d_counter x) \<and> uint (d_counter x) \<le> 1001"
    if "x \<in> set (dos_data dos)" for x
    using assms(2,3) dos_abs_fresh[OF so that] by (fastforce simp: dos_inv_def entry_ok_def)
  have low: "0 \<le> dos_min_time ?dos" "dos_min_time ?dos \<le> t'"
  proof -
    have "0 \<le> t'" "\<forall>x\<in>set (dos_data dos). 0 \<le> d_access_time x"
      using assms(2,3) old by (fastforce simp: dos_inv_def)+
    then show "0 \<le> dos_min_time ?dos" unfolding m by (rule fold_min_ge)
    show "dos_min_time ?dos \<le> t'" unfolding m by (rule fold_min_le(1))
  qed
  have "entry_ok (dos_min_time ?dos) t' e" if E: "dos_abs ?dos ip = Some e" for ip e
  proof -
    obtain x where x: "x \<in> set (dos_data ?dos)" "e = (d_access_time x, d_counter x)"
      using E dos_abs_Some[OF so', of ip "fst e" "snd e"] by (metis prod.collapse)
    then have "x \<in> set (dos_data dos)" "fresh t' x" unfolding d by (auto split: if_splits)
    then show ?thesis
      unfolding x(2) entry_ok_def m using old[of x] fold_min_le(2)[of x "dos_data dos" "fresh t'" d_access_time t'] by simp
  qed
  then show ?thesis using so' low by (auto simp: dos_inv_def)
next
  case False
  have "entry_ok m t e \<Longrightarrow> entry_ok m t' e" for m e using assms(3) by (auto simp: entry_ok_def)
  then show ?thesis using assms(2,3) False by (auto simp: update_skipped dos_inv_def)
qed

lemma dos_inv_init: "vector_lib V \<Longrightarrow> 0 \<le> t \<Longrightarrow> dos_inv t (AntiDOS_init V)"
  by (simp add: dos_inv_def AntiDOS_init_def vector_lib.init dos_sorted_def dos_abs_def)

lemma dos_run_inv:
  assumes "vector_lib V" "dos_run V t dos"
  shows "dos_inv t dos"
  using assms(2)
proof induction
  case (run_register t dos t' ip)
  then show ?case by (metis dos_inv_register[OF assms(1)] prod.collapse)
qed (simp_all add: dos_inv_init dos_inv_update assms(1))

lemma dos_inv_fresh:
  assumes "dos_inv t dos" "t - dos_min_time dos \<le> 10" "d \<in> set (dos_data dos)"
  shows "fresh t d"
  using assms dos_abs_fresh[of dos d] by (fastforce simp: dos_inv_def entry_ok_def fresh_def)

section \<open>The contract of the counters\<close>

text \<open>
  What the main process relies on: a table of counters by sender, in which every request of a second raises the counter of its sender by
  one as long as it is at most 80, and which keeps the counters of this second when it expires old ones. The
  last argument tells the senders that an expiry may forget.
\<close>

definition answers_within :: "(int \<times> u32) option \<Rightarrow> int \<Rightarrow> nat \<Rightarrow> nat \<Rightarrow> bool" where
  "answers_within e t base answers \<longleftrightarrow> answers \<le> base
     \<or> (\<exists>n. e = Some (t, n) \<and> answers \<le> base + unat n \<and> answers \<le> base + 80)"

lemma answers_within_limit: "answers_within e t base answers \<Longrightarrow> answers \<le> base + 80"
  by (auto simp: answers_within_def)

locale request_counter =
  fixes register :: "int \<Rightarrow> 'c \<Rightarrow> 'k \<Rightarrow> 'c \<times> u32"
    and expire :: "int \<Rightarrow> 'c \<Rightarrow> 'c"
    and counter :: "'c \<Rightarrow> 'k \<rightharpoonup> int \<times> u32"
    and inv :: "int \<Rightarrow> 'c \<Rightarrow> bool"
    and forgets :: "'k \<Rightarrow> bool"
  assumes register_inv: "inv t c \<Longrightarrow> register t c k = (c', n) \<Longrightarrow> inv t c' \<and> 1 \<le> unat n"
    and register_counter: "inv t c \<Longrightarrow> register t c k = (c', n) \<Longrightarrow> counter c' = (counter c)(k \<mapsto> (t, n))"
    and register_counts: "inv t c \<Longrightarrow> register t c k = (c', n) \<Longrightarrow> counter c k = Some (t, m) \<Longrightarrow>
        unat m \<le> unat n \<and> (unat n \<le> 80 \<longrightarrow> unat n = unat m + 1)"
    and expire_inv: "inv t c \<Longrightarrow> inv t (expire t c)"
    and expire_counter: "inv t c \<Longrightarrow> \<not> forgets k \<Longrightarrow> counter c k = Some (t, n) \<Longrightarrow> counter (expire t c) k = Some (t, n)"
begin

text \<open>A request is counted, and answered at most once and only up to a counter of 80.\<close>

lemma within_register:
  assumes "inv t c" "register t c k' = (c', n)" "answers_within (counter c k) t base answers"
    "answers' = answers \<or> answers' = answers + 1 \<and> k = k' \<and> unat n \<le> 80"
  shows "answers_within (counter c' k) t base answers'"
proof (cases "k = k'")
  case True
  have one: "1 \<le> unat n" using register_inv[OF assms(1,2)] by blast
  have e: "counter c' k = Some (t, n)" using register_counter[OF assms(1,2)] True by simp
  have "answers \<le> base \<or> (\<exists>m. counter c k = Some (t, m) \<and> answers \<le> base + unat m \<and> answers \<le> base + 80)"
    using assms(3) by (simp add: answers_within_def)
  then have "answers' \<le> base + unat n \<and> answers' \<le> base + 80 \<or> answers' \<le> base"
    using one assms(4) register_counts[OF assms(1,2)] True by fastforce
  then show ?thesis using e by (auto simp: answers_within_def)
next
  case False
  then show ?thesis using assms(3,4) register_counter[OF assms(1,2)] by simp
qed

lemma within_expire:
  assumes "inv t c" "\<not> forgets k" "answers_within (counter c k) t base answers"
  shows "answers_within (counter (expire t c) k) t base answers"
  using assms(3) expire_counter[OF assms(1,2)] by (auto simp: answers_within_def)

end

lemma next_counter_same:
  assumes "1 \<le> uint c" "uint c \<le> 1001"
  shows "unat (next_counter (Some (t, c)) t) = (if unat c \<le> 1000 then unat c + 1 else unat c)"
proof -
  have "unat c \<le> 1000 \<Longrightarrow> unat (c + 1) = unat c + 1" by (subst unat_add_lem[THEN iffD1]) auto
  then show ?thesis by (simp add: c_div_def word_le_nat_alt)
qed

lemma register_second:
  assumes "vector_lib V" "dos_inv t dos" "AntiDOS_registerIP V t dos ip = (dos', c)"
  shows "dos_inv t dos'" "dos_abs dos' = (dos_abs dos)(ip \<mapsto> (t, c))" "1 \<le> unat c"
    "dos_abs dos ip = Some (t, c0) \<Longrightarrow> unat c0 \<le> unat c \<and> (unat c \<le> 80 \<longrightarrow> unat c = unat c0 + 1)"
proof -
  show i: "dos_inv t dos'" by (rule dos_inv_register[OF assms(1,2) _ assms(3)]) simp
  have so: "dos_sorted (dos_data dos)" using assms(2) by (simp add: dos_inv_def)
  note r = register_abs[OF assms(1) so assms(3)]
  then show d: "dos_abs dos' = (dos_abs dos)(ip \<mapsto> (t, c))" by simp
  have "entry_ok (dos_min_time dos') t (t, c)" using i d unfolding dos_inv_def by (metis fun_upd_same)
  then have "1 \<le> int (unat c)" by (simp add: entry_ok_def)
  then show "1 \<le> unat c" by linarith
  show "unat c0 \<le> unat c \<and> (unat c \<le> 80 \<longrightarrow> unat c = unat c0 + 1)" if "dos_abs dos ip = Some (t, c0)"
  proof -
    have "entry_ok (dos_min_time dos) t (t, c0)" using that assms(2) by (simp add: dos_inv_def)
    then have "unat c = (if unat c0 \<le> 1000 then unat c0 + 1 else unat c0)"
      using r that next_counter_same[of c0 t] by (simp add: entry_ok_def)
    then show ?thesis by (auto split: if_splits)
  qed
qed

lemma update_abs_recent:
  assumes "vector_lib V" "dos_inv t dos" "ip \<noteq> NO_IP" "dos_abs dos ip = Some (t, c)"
  shows "dos_abs (AntiDOS_update V t dos) ip = Some (t, c)"
proof (cases "10 < t - dos_min_time dos")
  case True
  have so: "dos_sorted (dos_data dos)" using assms(2) by (simp add: dos_inv_def)
  have so': "dos_sorted (dos_data (AntiDOS_update V t dos))" using dos_inv_update[OF assms(1,2) order.refl] by (simp add: dos_inv_def)
  obtain d where d: "d \<in> set (dos_data dos)" "d_ip d = ip" "d_access_time d = t" "d_counter d = c"
    using assms(4) dos_abs_Some[OF so] by blast
  then have "d \<in> set (dos_data (AntiDOS_update V t dos))"
    using assms(3) unfolding update_data[OF assms(1) so True] by (simp add: fresh_def)
  then show ?thesis using d dos_abs_Some[OF so'] by blast
qed (use assms(4) in \<open>simp add: update_skipped\<close>)

text \<open>
  The counters of the code keep this contract over every vector library that keeps its own.
\<close>

locale dos_vector_lib = vector_lib V for V :: dos_vector
begin

lemma dos_lib: "vector_lib V"
  by (rule vector_lib_axioms)

end

sublocale dos_vector_lib \<subseteq> counter: request_counter "AntiDOS_registerIP V" "AntiDOS_update V" dos_abs dos_inv "\<lambda>ip. ip = NO_IP"
proof (unfold_locales, goal_cases)
  case (1 t c k c' n)
  then show ?case using register_second(1,3)[OF dos_lib] by blast
next
  case (2 t c k c' n)
  then show ?case by (rule register_second(2)[OF dos_lib])
next
  case (3 t c k c' n m)
  then show ?case by (rule register_second(4)[OF dos_lib])
next
  case (4 t c)
  then show ?case by (simp add: dos_inv_update[OF dos_lib])
next
  case (5 t c k n)
  then show ?case by (simp add: update_abs_recent[OF dos_lib])
qed

context dos_vector_lib
begin

lemma counter_contract: "request_counter (AntiDOS_registerIP V) (AntiDOS_update V) dos_abs dos_inv (\<lambda>ip. ip = NO_IP)"
  by (rule counter.request_counter_axioms)

end

interpretation ldos: dos_vector_lib "list_vector junk" for junk :: Data
  by (rule dos_vector_lib.intro) (rule list_vector_lib)

lemma dos_counter:
  "vector_lib V \<Longrightarrow> request_counter (AntiDOS_registerIP V) (AntiDOS_update V) dos_abs dos_inv (\<lambda>ip. ip = NO_IP)"
  by (rule dos_vector_lib.counter_contract[OF dos_vector_lib.intro])

section \<open>Properties\<close>

text \<open>
  C34: registering a request refines an update of a finite map: whatever the vector library does
  beyond its contract, the address is afterwards known with the time and the counter that
  the decay rule gives, and nothing else changes.
\<close>

theorem register_refines_map:
  assumes "vector_lib V" and "dos_sorted (dos_data dos)"
  shows "case AntiDOS_registerIP V t dos ip of (dos', c) \<Rightarrow>
     dos_sorted (dos_data dos') \<and> c = next_counter (dos_abs dos ip) t
     \<and> dos_abs dos' = (dos_abs dos)(ip \<mapsto> (t, c))"
  using register_abs[OF assms] by (simp split: prod.split)

definition dos_null :: Data where
  "dos_null = \<lparr>d_ip = 0, d_access_time = 0, d_counter = 0\<rparr>"

definition example_dos :: AntiDOS where
  "example_dos = \<lparr>dos_min_time = 0, dos_data = [\<lparr>d_ip = 7, d_access_time = 100, d_counter = 40\<rparr>]\<rparr>"

theorem register_refines_map_witness:
  "case AntiDOS_registerIP (list_vector dos_null) 105 example_dos 7 of (dos', c) \<Rightarrow>
     c = 21 \<and> dos_abs dos' = (dos_abs example_dos)(7 \<mapsto> (105, 21))"
proof -
  have c: "snd (AntiDOS_registerIP (list_vector dos_null) 105 example_dos 7) = 21" by code_simp
  have "dos_sorted (dos_data example_dos)" by (simp add: dos_sorted_def example_dos_def)
  from register_refines_map[OF list_vector_lib[of dos_null] this, where t = 105 and ip = 7] c show ?thesis
    by (auto split: prod.splits)
qed

text \<open>
  C35: after an expiry pass at time \<open>t'\<close> in a run, every remaining entry had a request within
  the last ten seconds, and every entry that had one is still there unless it is the
  broadcast address, which the pass uses as its mark.
\<close>

theorem update_keeps_exactly_fresh:
  assumes "vector_lib V" and "dos_run V t dos" and "t \<le> t'"
  shows "(\<forall>d\<in>set (dos_data (AntiDOS_update V t' dos)). d \<in> set (dos_data dos) \<and> t' - d_access_time d \<le> 10)
       \<and> (\<forall>d\<in>set (dos_data dos). t' - d_access_time d \<le> 10 \<and> d_ip d \<noteq> NO_IP
            \<longrightarrow> d \<in> set (dos_data (AntiDOS_update V t' dos)))"
proof -
  have i: "dos_inv t dos" by (rule dos_run_inv[OF assms(1,2)])
  then have so: "dos_sorted (dos_data dos)" by (simp add: dos_inv_def)
  show ?thesis
  proof (cases "10 < t' - dos_min_time dos")
    case True
    show ?thesis unfolding update_data[OF assms(1) so True] by (auto simp: fresh_def)
  next
    case False
    have "dos_inv t' dos" using dos_inv_update[OF assms(1) i assms(3)] False by (simp add: update_skipped)
    then have "fresh t' d" if "d \<in> set (dos_data dos)" for d
      using that False by (intro dos_inv_fresh) auto
    with False show ?thesis by (simp add: update_skipped fresh_def)
  qed
qed

lemma run_one_request: "dos_run V 100 (fst (AntiDOS_registerIP V 100 (AntiDOS_init V) 7))"
  by (rule run_register[OF run_init[of 100]]) auto

theorem update_keeps_exactly_fresh_witness:
  "dos_data (fst (AntiDOS_registerIP (list_vector dos_null) 100 (AntiDOS_init (list_vector dos_null)) 7)) \<noteq> []
   \<and> dos_data (AntiDOS_update (list_vector dos_null) 111
       (fst (AntiDOS_registerIP (list_vector dos_null) 100 (AntiDOS_init (list_vector dos_null)) 7))) = []"
proof -
  let ?dos = "fst (AntiDOS_registerIP (list_vector dos_null) 100 (AntiDOS_init (list_vector dos_null)) 7)"
  have d: "dos_data ?dos = [\<lparr>d_ip = 7, d_access_time = 100, d_counter = 1\<rparr>]" by code_simp
  have "\<forall>d\<in>set (dos_data (AntiDOS_update (list_vector dos_null) 111 ?dos)). d \<in> set (dos_data ?dos) \<and> 111 - d_access_time d \<le> 10"
    using update_keeps_exactly_fresh[OF list_vector_lib[of dos_null] run_one_request, where t' = 111] by simp
  then have "set (dos_data (AntiDOS_update (list_vector dos_null) 111 ?dos)) = {}"
    unfolding d by (intro equals0I) fastforce
  then show ?thesis unfolding d by simp
qed

text \<open>
  While the clock does not go back, every counter stays between 1 and 1001, so that the
  unsigned arithmetic of the decay never wraps around.
\<close>

theorem counter_bounds:
  assumes "vector_lib V" and "dos_run V t dos" and "d \<in> set (dos_data dos)"
  shows "1 \<le> uint (d_counter d) \<and> uint (d_counter d) \<le> 1001 \<and> 0 \<le> d_access_time d \<and> d_access_time d \<le> t"
proof -
  have i: "dos_inv t dos" by (rule dos_run_inv[OF assms(1,2)])
  then have "dos_abs dos (d_ip d) = Some (d_access_time d, d_counter d)"
    by (intro dos_abs_fresh assms(3)) (simp add: dos_inv_def)
  with i show ?thesis by (fastforce simp: dos_inv_def entry_ok_def)
qed

theorem counter_bounds_witness:
  "1 \<le> uint (d_counter \<lparr>d_ip = 7, d_access_time = 100, d_counter = 1\<rparr>)
   \<and> \<lparr>d_ip = 7, d_access_time = 100, d_counter = 1\<rparr>
      \<in> set (dos_data (fst (AntiDOS_registerIP (list_vector dos_null) 100 (AntiDOS_init (list_vector dos_null)) 7)))"
proof -
  have d: "\<lparr>d_ip = 7, d_access_time = 100, d_counter = 1\<rparr>
      \<in> set (dos_data (fst (AntiDOS_registerIP (list_vector dos_null) 100 (AntiDOS_init (list_vector dos_null)) 7)))"
    by code_simp
  then show ?thesis using counter_bounds[OF list_vector_lib run_one_request d] by blast
qed

fun burst :: "dos_vector \<Rightarrow> int \<Rightarrow> in_addr \<Rightarrow> nat \<Rightarrow> AntiDOS \<Rightarrow> AntiDOS \<times> u32" where
  "burst V t ip 0 dos = (dos, 0)"
| "burst V t ip (Suc n) dos = AntiDOS_registerIP V t (fst (burst V t ip n dos)) ip"

text \<open>
  The counter of an unknown address counts the requests of a burst within one second, up to
  its maximum of 1001.
\<close>

theorem burst_counts_requests:
  assumes "vector_lib V" and "dos_sorted (dos_data dos)" and "dos_abs dos ip = None" and "0 < n"
  shows "snd (burst V t ip n dos) = of_nat (min n 1001)"
proof -
  have "case burst V t ip n dos of (dos', c) \<Rightarrow>
      dos_sorted (dos_data dos') \<and> c = of_nat (min n 1001)
      \<and> dos_abs dos' ip = (if n = 0 then None else Some (t, of_nat (min n 1001)))"
  proof (induction n)
    case 0
    then show ?case using assms(2,3) by simp
  next
    case (Suc n)
    let ?d = "fst (burst V t ip n dos)"
    have IH: "dos_sorted (dos_data ?d)" "dos_abs ?d ip = (if n = 0 then None else Some (t, of_nat (min n 1001)))"
      using Suc by (auto split: prod.splits)
    have step: "next_counter (dos_abs ?d ip) t = of_nat (min (Suc n) 1001)"
    proof (cases "n = 0 \<or> 1000 < n")
      case True
      then have "n = 0 \<or> min n 1001 = 1001 \<and> min (Suc n) 1001 = 1001" by auto
      then show ?thesis unfolding IH(2) by (auto simp: word_le_nat_alt)
    next
      case False
      then have "unat (of_nat n :: u32) = n" by (simp add: unsigned_of_nat take_bit_nat_eq_self)
      then have "uint (of_nat n :: u32) = int n" by (metis uint_nat)
      moreover have "(of_nat n :: u32) \<le> 1000"
        using False \<open>unat (of_nat n) = n\<close> by (simp add: word_le_nat_alt)
      ultimately show ?thesis unfolding IH(2) using False by (simp add: min_def c_div_def)
    qed
    show ?case
      using register_abs[OF assms(1) IH(1), of t ip] step by (auto split: prod.splits)
  qed
  then show ?thesis by (simp split: prod.splits)
qed

theorem burst_counts_requests_witness:
  "snd (burst (list_vector dos_null) 100 7 81 (AntiDOS_init (list_vector dos_null))) = 81"
  using burst_counts_requests[OF list_vector_lib[of dos_null], where dos = "AntiDOS_init (list_vector dos_null)"
      and ip = 7 and n = 81 and t = 100]
  by (simp add: AntiDOS_init_def list_vector_def dos_sorted_def dos_abs_def)

end
