(* ===== verification/Blacklist.thy ===== *)
theory Blacklist
  imports Parser_Locality
begin

text \<open>
  Loading the blacklist in \<open>src/src/blacklist.c\<close>: the file is read in blocks into a buffer of 512 bytes, cut
  into lines, and each line is expanded; the resulting lists are sorted and freed of
  duplicates. Around it, \<open>BlackList_softUpdate\<close> decides when to read and what to do about errors.
\<close>

section \<open>The file\<close>

text \<open>
  An open file: the bytes not yet read, how many bytes the next calls of \<open>read\<close> return (in case the
  kernel returns fewer than requested), and whether a read error follows the data. A
  regular file has no cuts.
\<close>

record infile =
  in_data :: string
  in_cuts :: "nat list"
  in_fail :: bool

datatype read_result = ReadError | ReadData string

definition sys_read :: "nat \<Rightarrow> infile \<Rightarrow> read_result \<times> infile" where
  "sys_read n f =
     (if in_data f = [] then (if in_fail f then ReadError else ReadData [], f)
      else (let avail = min n (length (in_data f));
                k = (case in_cuts f of [] \<Rightarrow> avail | c # _ \<Rightarrow> min avail (max 1 c))
            in (ReadData (take k (in_data f)), f\<lparr>in_data := drop k (in_data f), in_cuts := tl (in_cuts f)\<rparr>)))"

text \<open>\<open>memchr\<close>: the offset of the first byte equal to \<open>c\<close> among the \<open>n\<close> bytes at \<open>i\<close>.\<close>

fun find_offset :: "char \<Rightarrow> string \<Rightarrow> nat option" where
  "find_offset c [] = None"
| "find_offset c (x # xs) = (if x = c then Some 0 else map_option Suc (find_offset c xs))"

definition memchrR :: "string \<Rightarrow> nat \<Rightarrow> char \<Rightarrow> nat \<Rightarrow> nat option run" where
  "memchrR buf i c n = bindR (sliceR buf i n) (\<lambda>s. Inr (find_offset c s))"

section \<open>Reading\<close>

definition BUFFER_SIZE :: nat where
  "BUFFER_SIZE = 512"

text \<open>
  The inner loop: the complete lines between \<open>line_start\<close> and \<open>end_ptr\<close> are expanded, an incomplete one is
  moved to the front of the buffer. The result holds the new value of \<open>read_ptr\<close> and whether
  the function goes on.
\<close>

function update_lines ::
  "parse_env \<Rightarrow> BlackList \<Rightarrow> string \<Rightarrow> nat \<Rightarrow> nat \<Rightarrow> nat \<Rightarrow> (BlackList \<times> string \<times> nat \<times> nat \<times> bool \<times> writes) run" where
  "update_lines E lst buffer line_start end_ptr line_nr =
     (if line_start < end_ptr then
        bindR (memchrR buffer line_start NL (end_ptr - line_start)) (\<lambda>pos.
        case pos of
          None \<Rightarrow>
            (if line_start = 0
             then Inr (lst, buffer, 0, line_nr, False, writeUInt (pe_fmt E) 2 line_nr @ Vwrite 2 ('': line too long'' @ [NL]))
             else bindR (sliceR buffer line_start (end_ptr - line_start)) (\<lambda>rest.
                  bindR (memcpyR buffer 0 rest) (\<lambda>buffer.
                  Inr (lst, buffer, end_ptr - line_start, line_nr, True, []))))
        | Some n \<Rightarrow>
            bindR (pokeR buffer (line_start + n) NUL) (\<lambda>buffer.
            bindR (BlackList_expandLine E line_nr lst (drop line_start buffer) n) (\<lambda>(lst, line, _, w).
            bindR (update_lines E lst (take line_start buffer @ line) (line_start + n + 1) end_ptr (line_nr + 1))
              (\<lambda>(lst, buffer, read_ptr, line_nr, ok, w'). Inr (lst, buffer, read_ptr, line_nr, ok, w @ w')))))
      else Inr (lst, buffer, 0, line_nr, True, []))"
  by pat_completeness auto
termination by (relation "measure (\<lambda>(_, _, _, line_start, end_ptr, _). end_ptr - line_start)") auto

declare update_lines.simps [simp del]

lemma sys_read_consumes:
  "sys_read n f = (ReadData d, f') \<Longrightarrow> d \<noteq> [] \<Longrightarrow> length (in_data f') < length (in_data f)"
  by (auto simp: sys_read_def Let_def split: if_splits list.splits)

function read_loop :: "parse_env \<Rightarrow> BlackList \<Rightarrow> string \<Rightarrow> nat \<Rightarrow> infile \<Rightarrow> nat \<Rightarrow> (BlackList \<times> bool \<times> writes) run" where
  "read_loop E lst buffer read_ptr f line_nr =
     (case sys_read (BUFFER_SIZE - read_ptr) f of
        (ReadError, _) \<Rightarrow> Inr (lst, False, [])
      | (ReadData d, f') \<Rightarrow>
          (if d = [] then Inr (lst, True, [])
           else bindR (memcpyR buffer read_ptr d) (\<lambda>buffer.
                bindR (update_lines E lst buffer 0 (read_ptr + length d) line_nr) (\<lambda>(lst, buffer, read_ptr, line_nr, ok, w).
                if \<not> ok then Inr (lst, False, w)
                else bindR (read_loop E lst buffer read_ptr f' line_nr) (\<lambda>(lst, ok, w'). Inr (lst, ok, w @ w'))))))"
  by pat_completeness auto
termination
  by (relation "measure (\<lambda>(_, _, _, _, f, _). length (in_data f))") (auto dest: sys_read_consumes[OF sym])

declare read_loop.simps [simp del]

definition sort_lists :: "parse_env \<Rightarrow> BlackList \<Rightarrow> BlackList" where
  "sort_lists E lst =
     (let ips = Vector_sort (pe_ip_vec E) (bl_ip_list lst) IPData_sortCompare;
          nets = Vector_sort (pe_net_vec E) (bl_net_list lst)
                   (if pe_testsuite E then NetData_sortCompare_testsuite else NetData_sortCompare) in
      if pe_testsuite E then lst\<lparr>bl_ip_list := ips, bl_net_list := nets\<rparr>
      else lst\<lparr>bl_ip_list := Vector_unique (pe_ip_vec E) ips IPData_uniqueCompare,
               bl_net_list := Vector_unique (pe_net_vec E) nets NetData_uniqueCompare\<rparr>)"

definition BlackList_updateInternal :: "parse_env \<Rightarrow> BlackList \<Rightarrow> infile \<Rightarrow> (BlackList \<times> bool \<times> writes) run" where
  "BlackList_updateInternal E lst f =
     bindR (read_loop E (lst\<lparr>bl_ip_list := Vector_clear (pe_ip_vec E) (bl_ip_list lst),
                             bl_net_list := Vector_clear (pe_net_vec E) (bl_net_list lst)\<rparr>)
              (map (pe_stack E) [0..<BUFFER_SIZE]) 0 f 1) (\<lambda>(lst, ok, w).
     if \<not> ok then Inr (lst, False, w) else Inr (sort_lists E lst, True, w))"

section \<open>Updates\<close>

text \<open>
  What the operating system answers during one call: the modification time of the file unless
  \<open>stat\<close> fails, the file unless \<open>open\<close> fails, and the clock. \<open>perror\<close> messages are left out of the
  writes.
\<close>

record update_env =
  ue_parse :: parse_env
  ue_logging :: bool
  ue_hms :: string
  ue_clock :: timeval
  ue_stat :: "int option"
  ue_open :: "infile option"

text \<open>The list together with the static variable \<open>error_count\<close>, an \<open>unsigned int\<close>.\<close>

record bl_state =
  bs_list :: BlackList
  bs_error_count :: u32

text \<open>The first half of the function: whether the file gets opened, with its modification time.\<close>

definition softUpdate_open :: "update_env \<Rightarrow> bl_state \<Rightarrow> (u32 \<times> (infile \<times> int) option \<times> writes) run" where
  "softUpdate_open U s =
     (case ue_stat U of
        None \<Rightarrow> Inr (bs_error_count s + 1, None, [])
      | Some mtime \<Rightarrow>
          if bl_last_mtime (bs_list s) \<noteq> mtime then
            bindR (writeMsgTimestamp (pe_fmt (ue_parse U)) (ue_logging U) (ue_hms U) (ue_clock U) 1) (\<lambda>w.
            let w = w @ Vwrite 1 ('': (Re)reading blacklist.'' @ [NL]) in
            case ue_open U of
              None \<Rightarrow> Inr (bs_error_count s + 1, None, w)
            | Some f \<Rightarrow> Inr (bs_error_count s, Some (f, mtime), w))
          else Inr (bs_error_count s, None, []))"

text \<open>The second half: reading the opened file.\<close>

definition softUpdate_read :: "update_env \<Rightarrow> BlackList \<Rightarrow> u32 \<Rightarrow> infile \<Rightarrow> int \<Rightarrow> (bl_state \<times> writes) run" where
  "softUpdate_read U lst error_count f mtime =
     bindR (BlackList_updateInternal (ue_parse U) lst f) (\<lambda>(lst, ok, w).
     if \<not> ok
     then Inr (\<lparr>bs_list = lst\<lparr>bl_last_mtime := 0\<rparr>, bs_error_count = error_count + 1\<rparr>,
               w @ Vwrite 2 (''Failed to read blacklist'' @ [NL]))
     else Inr (\<lparr>bs_list = lst\<lparr>bl_last_mtime := mtime\<rparr>, bs_error_count = 0\<rparr>, w))"

text \<open>The number in the result is the time slept, in seconds.\<close>

definition BlackList_softUpdate :: "update_env \<Rightarrow> bl_state \<Rightarrow> (bl_state \<times> nat \<times> writes) run" where
  "BlackList_softUpdate U s =
     bindR (softUpdate_open U s) (\<lambda>(error_count, fd, w).
     bindR (case fd of
              None \<Rightarrow> Inr (s\<lparr>bs_error_count := error_count\<rparr>, [])
            | Some (f, mtime) \<Rightarrow> softUpdate_read U (bs_list s) error_count f mtime) (\<lambda>(s, w').
     if bs_error_count s > 0 then
       (if bs_error_count s > of_nat MAX_ERRORS then Inl (Exit 1)
        else Inr (s, 1 + unat (bs_error_count s) div 2, w @ w'))
     else Inr (s, 0, w @ w')))"

definition BlackList_update :: "update_env \<Rightarrow> bl_state \<Rightarrow> (bl_state \<times> nat \<times> writes) run" where
  "BlackList_update U s = BlackList_softUpdate U (s\<lparr>bs_list := (bs_list s)\<lparr>bl_last_mtime := 0\<rparr>\<rparr>)"

definition BlackList_init :: "update_env \<Rightarrow> u32 \<Rightarrow> Arguments \<Rightarrow> (bl_state \<times> nat \<times> writes) run" where
  "BlackList_init U error_count args =
     BlackList_update U
       \<lparr>bs_list = \<lparr>bl_ip_list = Vector_init (pe_ip_vec (ue_parse U)), bl_net_list = Vector_init (pe_net_vec (ue_parse U)),
                   bl_last_mtime = 0, bl_args = args\<rparr>,
        bs_error_count = error_count\<rparr>"

section \<open>Safety of the loader\<close>

lemma find_offset_Some: "find_offset c s = Some n \<Longrightarrow> n < length s \<and> s ! n = c \<and> c \<notin> set (take n s)"
  by (induction s arbitrary: n) (auto split: if_splits)

lemma find_offset_None: "find_offset c s = None \<longleftrightarrow> c \<notin> set s"
  by (induction s) auto

lemma memchrR_ok: "i + n \<le> length buf \<Longrightarrow> memchrR buf i c n = Inr (find_offset c (take n (drop i buf)))"
  by (simp add: memchrR_def sliceR_def)

lemma memchrR_Some:
  assumes "i + n \<le> length buf" "find_offset c (take n (drop i buf)) = Some k"
  shows "k < n" "i + k < length buf" "buf ! (i + k) = c"
  using find_offset_Some[OF assms(2)] assms(1) by auto

lemma length_line_upd: "line_upd e b b' \<Longrightarrow> length b' = length b"
  by (simp add: line_upd_def)

definition lines_post :: "nat \<Rightarrow> nat \<Rightarrow> BlackList \<Rightarrow> BlackList \<times> string \<times> nat \<times> nat \<times> bool \<times> writes \<Rightarrow> bool" where
  "lines_post N end_ptr lst =
     (\<lambda>(lst', buffer, read_ptr, nr, ok, w). length buffer = N \<and> grows lst lst' \<and> (read_ptr = 0 \<or> read_ptr < end_ptr))"

lemma update_lines_spec:
  assumes "env_ok E" "default_ok (bl_args lst)" "end_ptr \<le> length buffer"
  shows "specR {SignedOverflow} (update_lines E lst buffer line_start end_ptr nr) (lines_post (length buffer) end_ptr lst)"
  using assms
proof (induction E lst buffer line_start end_ptr nr rule: update_lines.induct)
  case (1 E lst buffer line_start end_ptr nr)
  let ?n = "end_ptr - line_start"
  show ?case
  proof (cases "line_start < end_ptr")
    case True
    then have b: "line_start + ?n \<le> length buffer" using "1.prems"(3) by simp
    show ?thesis
    proof (cases "find_offset NL (take ?n (drop line_start buffer))")
      case None
      then show ?thesis
        using b True by (subst update_lines.simps) (auto simp: memchrR_ok sliceR_def memcpyR_def lines_post_def)
    next
      case (Some n)
      note m = memchrR_Some[OF b Some]
      let ?b = "buffer[line_start + n := NUL]"
      have lb: "line_buf (drop line_start ?b) n" using m by (simp add: line_buf_def)
      have step: "specR {SignedOverflow}
          (update_lines E l (take line_start buffer @ line) (Suc (line_start + n)) end_ptr (Suc nr)) (lines_post (length buffer) end_ptr lst)"
        if "line_post n lst (drop line_start ?b) (l, line, ok, w)" for l line ok w
      proof -
        have g: "grows lst l" "length line = length buffer - line_start"
          using that by (auto simp: line_post_def dest: length_line_upd)
        then have len: "length (take line_start buffer @ line) = length buffer" using True "1.prems"(3) by simp
        have "specR {SignedOverflow} (update_lines E l (take line_start buffer @ line) (Suc (line_start + n)) end_ptr (Suc nr))
            (lines_post (length buffer) end_ptr l)"
          using "1.IH"[OF True "1.prems"(1), where x = n and xa = ?b and xb = l and xc = line] "1.prems" len grows_args[OF g(1)]
          by simp
        then show ?thesis by (rule specR_conseq) (auto simp: lines_post_def intro: grows_trans[OF g(1)])
      qed
      have "specR {SignedOverflow} (BlackList_expandLine E nr lst (drop line_start ?b) n) (line_post n lst (drop line_start ?b))"
        by (rule expandLine_spec[OF "1.prems"(1,2) lb])
      then have "specR {SignedOverflow} (BlackList_expandLine E nr lst (drop line_start ?b) n)
         (\<lambda>(l, line, ok, w). specR {SignedOverflow}
             (update_lines E l (take line_start buffer @ line) (Suc (line_start + n)) end_ptr (Suc nr)) (lines_post (length buffer) end_ptr lst))"
        by (rule specR_conseq) (auto intro: step)
      then show ?thesis
        using True b Some m(2)
        by (subst update_lines.simps)
          (auto simp: memchrR_ok lines_post_def case_prod_unfold elim!: specR_conseq)
    qed
  qed (subst update_lines.simps, simp add: lines_post_def)
qed

lemma sys_read_length: "sys_read n f = (ReadData d, f') \<Longrightarrow> length d \<le> n"
  by (auto simp: sys_read_def Let_def split: if_splits list.splits)

lemma read_loop_spec:
  assumes "env_ok E" "default_ok (bl_args lst)" "length buffer = BUFFER_SIZE" "read_ptr \<le> BUFFER_SIZE"
  shows "specR {SignedOverflow} (read_loop E lst buffer read_ptr f nr) (\<lambda>(lst', ok, w). grows lst lst')"
  using assms
proof (induction E lst buffer read_ptr f nr rule: read_loop.induct)
  case (1 E lst buffer read_ptr f nr)
  obtain r f' where r: "sys_read (BUFFER_SIZE - read_ptr) f = (r, f')" by (cases "sys_read (BUFFER_SIZE - read_ptr) f")
  show ?case
  proof (cases "r = ReadError \<or> r = ReadData []")
    case True
    with r show ?thesis by (subst read_loop.simps) auto
  next
    case False
    then obtain d where d: "r = ReadData d" "d \<noteq> []" by (cases r) auto
    then have fits: "read_ptr + length d \<le> length buffer" using sys_read_length r "1.prems"(3,4) by fastforce
    let ?b = "take read_ptr buffer @ d @ drop (read_ptr + length d) buffer"
    have b: "memcpyR buffer read_ptr d = Inr ?b" using fits by (simp add: memcpyR_def)
    have lb: "length ?b = BUFFER_SIZE" using fits "1.prems"(3) by simp
    have next_read: "specR {SignedOverflow} (read_loop E l b rp f' nr') (\<lambda>(lst', ok, w). grows lst lst')"
      if "lines_post BUFFER_SIZE (read_ptr + length d) lst (l, b, rp, nr', True, w)" for l b rp nr' w
    proof -
      have p: "length b = BUFFER_SIZE" "grows lst l" "rp \<le> BUFFER_SIZE"
        using that fits "1.prems"(3) by (auto simp: lines_post_def)
      have "specR {SignedOverflow} (read_loop E l b rp f' nr') (\<lambda>(lst', ok, w). grows l lst')"
        by (rule "1.IH"[OF r[symmetric] d]) (use p "1.prems" grows_args[OF p(2)] in simp_all)
      then show ?thesis by (rule specR_conseq) (auto intro: grows_trans[OF p(2)])
    qed
    have "specR {SignedOverflow} (update_lines E lst ?b 0 (read_ptr + length d) nr) (lines_post BUFFER_SIZE (read_ptr + length d) lst)"
      using update_lines_spec[OF "1.prems"(1,2), of "read_ptr + length d" ?b 0 nr] lb fits by simp
    then have "specR {SignedOverflow} (update_lines E lst ?b 0 (read_ptr + length d) nr)
       (\<lambda>(l, b, rp, nr', ok, w). (ok \<longrightarrow> specR {SignedOverflow} (read_loop E l b rp f' nr') (\<lambda>(lst', ok, w). grows lst lst')) \<and> grows lst l)"
      by (rule specR_conseq) (auto intro: next_read simp: lines_post_def)
    then show ?thesis
      using r d b by (subst read_loop.simps) (auto simp: case_prod_unfold elim!: specR_conseq)
  qed
qed

lemma sorted_wrt_subseq: "subseq xs ys \<Longrightarrow> sorted_wrt R ys \<Longrightarrow> sorted_wrt R xs"
  by (induction xs ys rule: list_emb.induct) (auto dest: list_emb_set)

lemma sort_unique_sorted:
  assumes "vector_lib V" "cmp_order cmp (set xs)"
  shows "sorted_wrt (\<lambda>x y. cmp x y \<le> 0) (Vector_unique V (Vector_sort V xs cmp) ucmp)"
    "set (Vector_unique V (Vector_sort V xs cmp) ucmp) \<subseteq> set xs"
proof -
  show "set (Vector_unique V (Vector_sort V xs cmp) ucmp) \<subseteq> set xs"
    using vector_lib.set_unique[OF assms(1)] vector_lib.set_sort[OF assms] by blast
  have "subseq (Vector_unique V (Vector_sort V xs cmp) ucmp) (Vector_sort V xs cmp)"
    using vector_lib.unique[OF assms(1)] by blast
  moreover have "sorted_wrt (\<lambda>x y. cmp x y \<le> 0) (Vector_sort V xs cmp)" using vector_lib.sort[OF assms] by blast
  ultimately show "sorted_wrt (\<lambda>x y. cmp x y \<le> 0) (Vector_unique V (Vector_sort V xs cmp) ucmp)"
    by (rule sorted_wrt_subseq)
qed

lemma net_order: "\<forall>d\<in>set ds. net_wf d \<Longrightarrow> cmp_order NetData_sortCompare (set ds)"
  by (rule cmp_order_NetData) (auto simp: net_wf_def base_wf_def)

lemma sort_lists_ok:
  assumes "env_ok E" "bl_wf lst"
  shows "bl_wf (sort_lists E lst) \<and> bl_sorted (sort_lists E lst)"
proof -
  have v: "vector_lib (pe_ip_vec E)" "vector_lib (pe_net_vec E)" using assms(1) by (auto simp: env_ok_def)
  have n: "cmp_order NetData_sortCompare (set (bl_net_list lst))" using net_order assms(2) by (auto simp: bl_wf_def)
  note i = sort_unique_sorted[OF v(1) cmp_order_IPData, of "bl_ip_list lst" IPData_uniqueCompare]
  note k = sort_unique_sorted[OF v(2) n, of NetData_uniqueCompare]
  have "\<not> pe_testsuite E" using assms(1) by (simp add: env_ok_def)
  then show ?thesis using i k assms(2) by (auto simp: bl_sorted_def bl_wf_def sort_lists_def)
qed

lemma updateInternal_spec:
  assumes "env_ok E" "default_ok (bl_args lst)"
  shows "specR {SignedOverflow} (BlackList_updateInternal E lst f)
     (\<lambda>(lst', ok, w). bl_wf lst' \<and> bl_args lst' = bl_args lst \<and> (ok \<longrightarrow> bl_sorted lst'))"
proof -
  let ?l = "lst\<lparr>bl_ip_list := [], bl_net_list := []\<rparr>"
  have c: "Vector_clear (pe_ip_vec E) xs = []" "Vector_clear (pe_net_vec E) ys = []" for xs ys
    using assms(1) vector_lib.clear by (auto simp: env_ok_def)
  have e: "grows ?l l \<Longrightarrow> bl_wf l \<and> bl_args l = bl_args lst" for l
    using grows_wf[of ?l l] grows_args[of ?l l] by (simp add: bl_wf_def)
  have "specR {SignedOverflow} (read_loop E ?l (map (pe_stack E) [0..<BUFFER_SIZE]) 0 f 1) (\<lambda>(lst', ok, w). grows ?l lst')"
    by (rule read_loop_spec) (use assms in simp_all)
  then show ?thesis
    unfolding BlackList_updateInternal_def c specR_simps
  proof (rule specR_conseq, simp)
    fix x :: "BlackList \<times> bool \<times> writes" assume x: "case x of (lst', ok, w) \<Rightarrow> grows ?l lst'"
    obtain l ok w where [simp]: "x = (l, ok, w)" by (cases x)
    have "bl_wf l" "bl_args l = bl_args lst" using e[of l] x by auto
    moreover have "bl_args (sort_lists E l) = bl_args l" by (simp add: sort_lists_def Let_def)
    ultimately show "specR {SignedOverflow} ((\<lambda>(lst, ok, w). if \<not> ok then Inr (lst, False, w) else Inr (sort_lists E lst, True, w)) x)
        (\<lambda>(lst', ok, w). bl_wf lst' \<and> bl_args lst' = bl_args lst \<and> (ok \<longrightarrow> bl_sorted lst'))"
      using sort_lists_ok[OF assms(1)] by simp
  qed
qed

section \<open>Reading line by line\<close>

text \<open>The reference: every line on its own, numbered from \<open>nr\<close> on.\<close>

fun load_lines :: "parse_env \<Rightarrow> nat \<Rightarrow> BlackList \<Rightarrow> string list \<Rightarrow> (BlackList \<times> writes) run" where
  "load_lines E nr lst [] = Inr (lst, [])"
| "load_lines E nr lst (l # ls) =
     bindR (BlackList_expandLine E nr lst (l @ [NUL]) (length l)) (\<lambda>(lst, _, _, w).
     bindR (load_lines E (Suc nr) lst ls) (\<lambda>(lst, w'). Inr (lst, w @ w')))"

definition file_text :: "string list \<Rightarrow> string" where
  "file_text ls = concat (map (\<lambda>l. l @ [NL]) ls)"

lemma file_text_simps [simp]:
  "file_text [] = []" "file_text (l # ls) = l @ NL # file_text ls" "file_text (xs @ ys) = file_text xs @ file_text ys"
  by (simp_all add: file_text_def)

lemma load_lines_append:
  "load_lines E nr lst (xs @ ys) = Inr (l2, w) \<Longrightarrow>
   \<exists>l1 w1 w2. load_lines E nr lst xs = Inr (l1, w1) \<and> load_lines E (nr + length xs) l1 ys = Inr (l2, w2) \<and> w = w1 @ w2"
proof (induction xs arbitrary: nr lst w)
  case (Cons x xs)
  then show ?case by (fastforce elim!: bindR_InrE)
qed simp

lemma file_text_split:
  assumes "xs @ ys = file_text ls" "\<forall>l\<in>set ls. NL \<notin> set l"
  shows "\<exists>as bs p. ls = as @ bs \<and> xs = file_text as @ p \<and> p @ ys = file_text bs \<and> NL \<notin> set p"
  using assms
proof (induction ls arbitrary: xs)
  case (Cons l ls)
  from Cons.prems(1) have "xs @ ys = (l @ [NL]) @ file_text ls" by simp
  then obtain vs where vs: "xs = (l @ [NL]) @ vs \<and> vs @ ys = file_text ls \<or> xs @ vs = l @ [NL] \<and> ys = vs @ file_text ls"
    unfolding append_eq_append_conv2 by blast
  consider us where "xs = (l @ [NL]) @ us" "us @ ys = file_text ls"
    | us where "xs @ us = l @ [NL]" "us \<noteq> []" "ys = us @ file_text ls"
  proof (cases "vs = []")
    case True
    with vs show ?thesis using that(1)[of "[]"] by auto
  next
    case False
    with vs show ?thesis using that by blast
  qed
  then show ?case
  proof cases
    case 1
    then obtain as bs p where "ls = as @ bs" "us = file_text as @ p" "p @ ys = file_text bs" "NL \<notin> set p"
      using Cons by (metis list.set_intros(2))
    with 1 show ?thesis by (intro exI[of _ "l # as"] exI[of _ bs] exI[of _ p]) simp
  next
    case 2
    then have "xs @ butlast us = l" by (metis butlast_append butlast_snoc)
    then have "NL \<notin> set xs" using Cons.prems(2) by auto
    with Cons.prems(1) show ?thesis by (intro exI[of _ "[]"] exI[of _ "l # ls"] exI[of _ xs]) simp
  qed
qed simp

lemma find_offset_line: "NL \<notin> set l \<Longrightarrow> find_offset NL (l @ NL # r) = Some (length l)"
  by (induction l) auto

lemma update_lines_text:
  assumes "env_ok E" "default_ok (bl_args lst)" "load_lines E nr lst ls = Inr (lst', w)" "\<forall>l\<in>set ls. NL \<notin> set l" "NL \<notin> set part"
    and "pre \<noteq> [] \<or> ls \<noteq> [] \<or> part = []"
  shows "\<exists>buffer'. update_lines E lst (pre @ file_text ls @ part @ junk) (length pre) (length (pre @ file_text ls @ part)) nr
      = Inr (lst', buffer', length part, nr + length ls, True, w)
    \<and> length buffer' = length (pre @ file_text ls @ part @ junk) \<and> take (length part) buffer' = part"
  using assms
proof (induction ls arbitrary: nr lst pre w)
  case Nil
  show ?case
  proof (cases "part = []")
    case True
    with Nil show ?thesis by (subst update_lines.simps) simp
  next
    case False
    have b: "length pre + length part \<le> length (pre @ part @ junk)" by simp
    have "find_offset NL (take (length part) (drop (length pre) (pre @ part @ junk))) = None"
      using Nil.prems(5) by (simp add: find_offset_None)
    with False Nil memchrR_ok[OF b] show ?thesis
      by (subst update_lines.simps) (simp add: sliceR_def memcpyR_def)
  qed
next
  case (Cons l ls)
  let ?rest = "file_text ls @ part @ junk"
  let ?n = "length (l @ NL # file_text ls @ part)"
  from Cons.prems(3) obtain lst1 b1 ok1 w1 w2 where
    x: "BlackList_expandLine E nr lst (l @ [NUL]) (length l) = Inr (lst1, b1, ok1, w1)"
    "load_lines E (Suc nr) lst1 ls = Inr (lst', w2)" "w = w1 @ w2"
    by (auto elim!: bindR_InrE)
  have "line_buf (l @ [NUL]) (length l)" by (simp add: line_buf_def)
  from expandLine_spec[OF Cons.prems(1,2) this, of nr] x(1)
  have b1: "length b1 = Suc (length l)" and g: "bl_args lst1 = bl_args lst"
    by (auto simp: line_post_def dest: length_line_upd grows_args)
  then have ne: "b1 \<noteq> []" by auto
  have loc: "BlackList_expandLine E nr lst ((l @ [NUL]) @ ?rest) (length l) = Inr (lst1, b1 @ ?rest, ok1, w1)"
    by (rule expandLine_local[OF x(1)]) simp
  have f: "find_offset NL (take ?n (drop (length pre) (pre @ l @ NL # ?rest))) = Some (length l)"
    using Cons.prems(4) by (simp add: find_offset_line)
  have m: "memchrR (pre @ l @ NL # ?rest) (length pre) NL ?n = Inr (Some (length l))"
    unfolding f[symmetric] by (rule memchrR_ok) simp
  have p: "pokeR (pre @ l @ NL # ?rest) (length pre + length l) NUL = Inr (pre @ (l @ [NUL]) @ ?rest)"
    by (simp add: list_update_append)
  obtain buffer' where r: "update_lines E lst1 ((pre @ b1) @ ?rest) (length (pre @ b1)) (length ((pre @ b1) @ file_text ls @ part)) (Suc nr)
      = Inr (lst', buffer', length part, Suc nr + length ls, True, w2)"
    "length buffer' = length ((pre @ b1) @ ?rest)" "take (length part) buffer' = part"
    using Cons.IH[OF Cons.prems(1) _ x(2), of "pre @ b1"] Cons.prems(2) g Cons.prems(4,5) b1 ne by auto
  have "update_lines E lst (pre @ l @ NL # ?rest) (length pre) (length pre + ?n) nr
      = Inr (lst', buffer', length part, Suc nr + length ls, True, w)"
    using m p loc r b1 x(3) by (subst update_lines.simps) (simp add: add.assoc)
  with r show ?case by (simp add: b1)
qed

definition regular :: "infile \<Rightarrow> bool" where
  "regular f \<longleftrightarrow> in_cuts f = [] \<and> \<not> in_fail f"

lemma sys_read_regular:
  assumes "regular f"
  shows "sys_read n f = (ReadData (take n (in_data f)), f\<lparr>in_data := drop n (in_data f)\<rparr>)"
proof (cases "in_data f = []")
  case True
  then show ?thesis using assms by (cases f) (simp add: sys_read_def regular_def)
next
  case False
  have "take (min n (length (in_data f))) (in_data f) = take n (in_data f)"
    "drop (min n (length (in_data f))) (in_data f) = drop n (in_data f)"
    by (cases "n \<le> length (in_data f)"; simp add: min_def)+
  then show ?thesis using assms False by (cases f) (simp add: sys_read_def regular_def Let_def)
qed

text \<open>A file whose blocks are cut, but into pieces of at least \<open>b\<close> bytes.\<close>

definition steady :: "nat \<Rightarrow> infile \<Rightarrow> bool" where
  "steady b f \<longleftrightarrow> list_all (\<lambda>c. b \<le> c) (in_cuts f) \<and> \<not> in_fail f"

lemma regular_steady: "regular f \<Longrightarrow> steady b f"
  by (simp add: regular_def steady_def)

lemma sys_read_steady:
  assumes "steady b f"
  obtains k f' where "sys_read n f = (ReadData (take k (in_data f)), f')" "in_data f' = drop k (in_data f)" "steady b f'"
    "k \<le> n" "k \<le> length (in_data f)" "min n (min b (length (in_data f))) \<le> k"
proof (cases "in_data f = []")
  case True
  with assms show ?thesis by (intro that[of 0 f]) (simp_all add: sys_read_def steady_def)
next
  case False
  let ?k = "case in_cuts f of [] \<Rightarrow> min n (length (in_data f)) | c # _ \<Rightarrow> min (min n (length (in_data f))) (max 1 c)"
  let ?f = "f\<lparr>in_data := drop ?k (in_data f), in_cuts := tl (in_cuts f)\<rparr>"
  have "sys_read n f = (ReadData (take ?k (in_data f)), ?f)" using False by (simp add: sys_read_def Let_def)
  moreover have "steady b ?f" using assms by (cases "in_cuts f") (simp_all add: steady_def)
  moreover have "?k \<le> n" "?k \<le> length (in_data f)" "min n (min b (length (in_data f))) \<le> ?k"
    using assms by (cases "in_cuts f"; auto simp: steady_def)+
  ultimately show ?thesis by (intro that[of ?k ?f]) simp_all
qed

lemma load_lines_args:
  assumes "env_ok E" "default_ok (bl_args lst)" "load_lines E nr lst ls = Inr (lst', w)"
  shows "bl_args lst' = bl_args lst"
  using assms(2,3)
proof (induction ls arbitrary: nr lst w)
  case (Cons l ls)
  from Cons.prems(2) obtain l1 b ok w1 w2 where
    x: "BlackList_expandLine E nr lst (l @ [NUL]) (length l) = Inr (l1, b, ok, w1)" "load_lines E (Suc nr) l1 ls = Inr (lst', w2)"
    by (auto elim!: bindR_InrE)
  have "line_buf (l @ [NUL]) (length l)" by (simp add: line_buf_def)
  from expandLine_spec[OF assms(1) Cons.prems(1) this, of nr] x(1) have "bl_args l1 = bl_args lst"
    by (auto simp: line_post_def dest: grows_args)
  with Cons.IH[OF _ x(2)] Cons.prems(1) show ?case by simp
qed simp

text \<open>A block that is read contains the end of the first line unless the data is exhausted.\<close>

lemma first_line_complete:
  assumes "xs @ ys = file_text (l # ls)" "length l < n" "min n (length (xs @ ys)) \<le> length xs"
  shows "NL \<in> set xs"
proof -
  have e: "xs @ ys = l @ NL # file_text ls" using assms(1) by simp
  then have "length l < length (xs @ ys)" by simp
  then have k: "length l < length xs" using assms(2,3) by linarith
  then have "xs ! length l = (xs @ ys) ! length l" by (simp add: nth_append)
  then have "xs ! length l = NL" by (simp add: e)
  then show ?thesis using k by (metis nth_mem)
qed

text \<open>A block is added behind the part of a line that is left in the buffer; its complete lines are expanded.\<close>

lemma block_lines:
  assumes "env_ok E" "default_ok (bl_args lst)" "length buffer = BUFFER_SIZE" "take (length part) buffer = part"
    and "part @ d = file_text as @ p" "as \<noteq> [] \<or> p = []" "NL \<notin> set p" "\<forall>l\<in>set as. NL \<notin> set l" "length part + length d \<le> BUFFER_SIZE"
    and "load_lines E nr lst as = Inr (l1, w1)"
  shows "\<exists>m b'. memcpyR buffer (length part) d = Inr m
    \<and> update_lines E lst m 0 (length part + length d) nr = Inr (l1, b', length p, nr + length as, True, w1)
    \<and> length b' = BUFFER_SIZE \<and> take (length p) b' = p"
proof -
  let ?junk = "drop (length part + length d) buffer"
  note len = arg_cong[OF assms(5), of length]
  have cp: "memcpyR buffer (length part) d = Inr (file_text as @ p @ ?junk)"
    using assms(3,4,5,9) by (simp add: memcpyR_def)
  obtain b' where u: "update_lines E lst (file_text as @ p @ ?junk) 0 (length part + length d) nr
      = Inr (l1, b', length p, nr + length as, True, w1)"
    "length b' = length (file_text as @ p @ ?junk)" "take (length p) b' = p"
    using update_lines_text[OF assms(1,2,10,8,7), of "[]" ?junk] assms(6) len by auto
  have "length b' = BUFFER_SIZE" using u(2) len assms(3,9) by simp
  with cp u show ?thesis by blast
qed

lemma read_loop_text:
  assumes "env_ok E" "b \<le> BUFFER_SIZE" "steady b f" "default_ok (bl_args lst)" "length buffer = BUFFER_SIZE" "take (length part) buffer = part"
    and "part @ in_data f = file_text ls" "NL \<notin> set part" "length part < BUFFER_SIZE"
    and "\<forall>l\<in>set ls. NL \<notin> set l \<and> length l < b"
    and "load_lines E nr lst ls = Inr (lst', w)"
  shows "read_loop E lst buffer (length part) f nr = Inr (lst', True, w)"
  using assms(3-)
proof (induction "length (in_data f)" arbitrary: f lst buffer part ls nr w rule: less_induct)
  case less
  let ?n = "BUFFER_SIZE - length part"
  obtain k f' where rd: "sys_read ?n f = (ReadData (take k (in_data f)), f')" and f': "in_data f' = drop k (in_data f)" "steady b f'"
    and k: "k \<le> ?n" "k \<le> length (in_data f)" "min ?n (min b (length (in_data f))) \<le> k"
    using sys_read_steady[OF less.prems(1)] by blast
  let ?d = "take k (in_data f)"
  show ?case
  proof (cases ls)
    case Nil
    then show ?thesis using less.prems rd by (subst read_loop.simps) simp
  next
    case (Cons l ls')
    have l: "length l < b" "NL \<notin> set l" using less.prems(8) Cons by auto
    have data: "in_data f \<noteq> []" using less.prems(5,6) Cons by auto
    have split: "(part @ ?d) @ drop k (in_data f) = file_text ls" using less.prems(5) by simp
    have "min b (length ((part @ ?d) @ drop k (in_data f))) \<le> length (part @ ?d)" using k assms(2) less.prems(7) by simp
    with first_line_complete[of "part @ ?d"] split Cons l(1) have nl: "NL \<in> set (part @ ?d)" by metis
    have nnl: "\<forall>l\<in>set ls. NL \<notin> set l" using less.prems(8) by blast
    from file_text_split[OF split this] obtain as bs p where
      ab: "ls = as @ bs" "part @ ?d = file_text as @ p" "p @ drop k (in_data f) = file_text bs" "NL \<notin> set p"
      by auto
    then have as: "as \<noteq> []" using nl by auto
    obtain l1 w1 w2 where
      ld: "load_lines E nr lst as = Inr (l1, w1)" "load_lines E (nr + length as) l1 bs = Inr (lst', w2)" "w = w1 @ w2"
      using load_lines_append less.prems(9) ab(1) by blast
    have fit: "length part + length ?d \<le> BUFFER_SIZE" using less.prems(7) k by simp
    obtain m b' where u: "memcpyR buffer (length part) ?d = Inr m" "update_lines E lst m 0 (length part + length ?d) nr
        = Inr (l1, b', length p, nr + length as, True, w1)" "length b' = BUFFER_SIZE" "take (length p) b' = p"
      using block_lines[OF assms(1) less.prems(2-4) ab(2) _ ab(4) _ fit ld(1)] nnl ab(1) as by auto
    have lp: "length p < BUFFER_SIZE" using arg_cong[OF ab(2), of length] fit as by (cases as) auto
    have d: "?d \<noteq> []" using nl less.prems(6) by (metis append_Nil2)
    have "read_loop E l1 b' (length p) f' (nr + length as) = Inr (lst', True, w2)"
    proof (rule less.hyps)
      show "length (in_data f') < length (in_data f)" using data d f'(1) by (cases "in_data f") auto
      show "default_ok (bl_args l1)" using load_lines_args[OF assms(1) less.prems(2) ld(1)] less.prems(2) by simp
      show "\<forall>l\<in>set bs. NL \<notin> set l \<and> length l < b" using less.prems(8) ab(1) by auto
    qed (use f' u(3,4) ab(3,4) lp ld(2) in simp_all)
    then show ?thesis
      using rd u(1,2) ld(3) d by (subst read_loop.simps) simp
  qed
qed

lemma clear_lists:
  "env_ok E \<Longrightarrow> lst\<lparr>bl_ip_list := Vector_clear (pe_ip_vec E) xs, bl_net_list := Vector_clear (pe_net_vec E) ys\<rparr>
     = lst\<lparr>bl_ip_list := [], bl_net_list := []\<rparr>"
  by (simp add: env_ok_def vector_lib.clear)

text \<open>A file in blocks of at least \<open>b\<close> bytes whose lines are shorter than that.\<close>

lemma steady_file_loaded:
  assumes "env_ok E" "default_ok (bl_args lst)" "b \<le> BUFFER_SIZE" "steady b f" "in_data f = file_text ls"
    and "\<forall>l\<in>set ls. NL \<notin> set l \<and> length l < b"
    and "load_lines E 1 (lst\<lparr>bl_ip_list := [], bl_net_list := []\<rparr>) ls = Inr (lst', w)"
  shows "BlackList_updateInternal E lst f = Inr (sort_lists E lst', True, w)"
proof -
  have "read_loop E (lst\<lparr>bl_ip_list := [], bl_net_list := []\<rparr>) (map (pe_stack E) [0..<BUFFER_SIZE]) (length ([]::string)) f 1
      = Inr (lst', True, w)"
    by (rule read_loop_text[OF assms(1,3,4) _ _ _ _ _ _ assms(6,7)])
      (use assms(2,5) in \<open>auto simp: BUFFER_SIZE_def\<close>)
  then show ?thesis by (simp add: BlackList_updateInternal_def clear_lists[OF assms(1)])
qed

section \<open>Error handling\<close>

text \<open>
  The state between updates: entries are well-formed, and unless an error is pending the lists are
  sorted, which the lookup relies on.
\<close>

definition bl_state_ok :: "bl_state \<Rightarrow> bool" where
  "bl_state_ok s \<longleftrightarrow> bl_wf (bs_list s) \<and> default_ok (bl_args (bs_list s)) \<and> bs_error_count s \<le> of_nat MAX_ERRORS
     \<and> (bs_error_count s = 0 \<longrightarrow> bl_sorted (bs_list s))"

definition update_env_ok :: "update_env \<Rightarrow> bool" where
  "update_env_ok U \<longleftrightarrow> env_ok (ue_parse U) \<and> 0 \<le> tv_usec (ue_clock U)"

definition open_post :: "bl_state \<Rightarrow> u32 \<times> (infile \<times> int) option \<times> writes \<Rightarrow> bool" where
  "open_post s = (\<lambda>(ec, fd, w). if fd = None then ec = bs_error_count s + 1 \<or> ec = bs_error_count s else ec = bs_error_count s)"

lemma softUpdate_open_spec: "update_env_ok U \<Longrightarrow> specR {} (softUpdate_open U s) (open_post s)"
  by (auto simp: softUpdate_open_def open_post_def update_env_ok_def Let_def
      intro!: specR_conseq[OF writeMsgTimestamp_ok] split: option.splits)

lemma count_step: "(c::u32) \<le> of_nat MAX_ERRORS \<Longrightarrow> c + 1 \<noteq> 0"
proof
  assume "c \<le> of_nat MAX_ERRORS" "c + 1 = 0"
  then have "c = - 1" by (metis add.commute add_left_cancel ab_left_minus)
  moreover have "\<not> (- 1 :: u32) \<le> of_nat MAX_ERRORS" by code_simp
  ultimately show False using \<open>c \<le> of_nat MAX_ERRORS\<close> by simp
qed

definition read_post :: "Arguments \<Rightarrow> bl_state \<times> writes \<Rightarrow> bool" where
  "read_post a = (\<lambda>(s', w). bl_wf (bs_list s') \<and> bl_args (bs_list s') = a \<and> (bs_error_count s' = 0 \<longrightarrow> bl_sorted (bs_list s')))"

lemma softUpdate_read_spec:
  assumes "env_ok (ue_parse U)" "default_ok (bl_args lst)" "c \<le> of_nat MAX_ERRORS"
  shows "specR {SignedOverflow} (softUpdate_read U lst c f mtime) (read_post (bl_args lst))"
  using updateInternal_spec[OF assms(1,2), of f] count_step[OF assms(3)]
  by (auto simp: softUpdate_read_def read_post_def bl_wf_def bl_sorted_def elim!: specR_conseq)

lemma softUpdate_spec:
  assumes "update_env_ok U" "bl_state_ok s"
  shows "specR {SignedOverflow, Exit 1} (BlackList_softUpdate U s)
     (\<lambda>(s', slept, w). bl_state_ok s' \<and> bl_args (bs_list s') = bl_args (bs_list s) \<and> slept \<le> 4)"
proof -
  have E: "env_ok (ue_parse U)" using assms(1) by (simp add: update_env_ok_def)
  have s: "bl_wf (bs_list s)" "default_ok (bl_args (bs_list s))" "bs_error_count s \<le> of_nat MAX_ERRORS"
    "bs_error_count s = 0 \<longrightarrow> bl_sorted (bs_list s)" using assms(2) by (auto simp: bl_state_ok_def)
  have fd: "specR {SignedOverflow, Exit 1} (case fd of
              None \<Rightarrow> Inr (s\<lparr>bs_error_count := c\<rparr>, [])
            | Some (f, mtime) \<Rightarrow> softUpdate_read U (bs_list s) c f mtime) (read_post (bl_args (bs_list s)))"
    if "open_post s (c, fd, w)" for c fd w
  proof (cases fd)
    case None
    then show ?thesis using that s count_step[OF s(3)] by (auto simp: open_post_def read_post_def)
  next
    case (Some x)
    then have "c = bs_error_count s" using that by (simp add: open_post_def)
    then show ?thesis
      using Some specR_conseq[OF softUpdate_read_spec[OF E s(2), of c "fst x" "snd x"], of "{SignedOverflow, Exit 1}"] s(3)
      by (cases x) auto
  qed
  have fin: "unat c div 2 \<le> 3" if "\<not> of_nat MAX_ERRORS < c" for c :: u32
  proof -
    have "unat c \<le> 6" using that by (simp add: parameter_defs word_le_nat_alt not_less)
    then show ?thesis by simp
  qed
  have ok: "bl_state_ok s'" "bl_args (bs_list s') = bl_args (bs_list s)"
    if "read_post (bl_args (bs_list s)) (s', w')" "\<not> of_nat MAX_ERRORS < bs_error_count s'" for s' w'
    using that s(2) by (auto simp: read_post_def bl_state_ok_def not_less)
  have small: "\<not> of_nat MAX_ERRORS < c" if "\<not> 0 < c" for c :: u32 using that by (metis word_gt_0 not_less0 word_not_simps(1))
  show ?thesis
    unfolding BlackList_softUpdate_def specR_simps
    by (rule specR_conseq[OF softUpdate_open_spec[OF assms(1)]])
      (auto intro!: specR_conseq[OF fd] simp: ok fin small)
qed

section \<open>Properties\<close>

text \<open>
  C4: loading a regular file whose lines end with a newline and have at most 511 characters is reading
  it line by line: whatever the position of the lines relative to the blocks of 512 bytes, the
  loaded list is the sorted and deduplicated result of expanding each line on its own.
\<close>

theorem load_is_line_by_line:
  assumes "env_ok E" and "default_ok (bl_args lst)" and "regular f" and "in_data f = file_text ls"
    and "\<forall>l\<in>set ls. NL \<notin> set l \<and> length l \<le> 511"
    and "load_lines E 1 (lst\<lparr>bl_ip_list := [], bl_net_list := []\<rparr>) ls = Inr (lst', w)"
  shows "BlackList_updateInternal E lst f = Inr (sort_lists E lst', True, w)"
  by (rule steady_file_loaded[OF assms(1,2) order_refl regular_steady[OF assms(3)] assms(4) _ assms(6)])
    (use assms(5) in \<open>auto simp: BUFFER_SIZE_def less_Suc_eq_le\<close>)

definition example_file :: "string list \<Rightarrow> string \<Rightarrow> infile" where
  "example_file ls rest = \<lparr>in_data = file_text ls @ rest, in_cuts = [], in_fail = False\<rparr>"

lemma example_lines:
  "case load_lines example_env 1 empty_list [''10.0.0.2'', ''#'', ''10.0.0.1''] of
     Inl _ \<Rightarrow> False | Inr (l, w) \<Rightarrow> map (\<lambda>d. b_ip (ip_v d)) (bl_ip_list l) = [0x0200000A, 0x0100000A]"
  by code_simp

lemma empty_list_reset: "empty_list\<lparr>bl_ip_list := [], bl_net_list := []\<rparr> = empty_list"
  by (simp add: empty_list_def)

theorem load_is_line_by_line_witness:
  "\<exists>l w. BlackList_updateInternal example_env empty_list (example_file [''10.0.0.2'', ''#'', ''10.0.0.1''] [])
      = Inr (sort_lists example_env l, True, w) \<and> length (bl_ip_list l) = 2"
proof -
  let ?ls = "[''10.0.0.2'', ''#'', ''10.0.0.1'']"
  obtain l w where lw: "load_lines example_env 1 (empty_list\<lparr>bl_ip_list := [], bl_net_list := []\<rparr>) ?ls = Inr (l, w)"
    "map (\<lambda>d. b_ip (ip_v d)) (bl_ip_list l) = [0x0200000A, 0x0100000A]"
    unfolding empty_list_reset using example_lines by (auto split: sum.splits)
  have "BlackList_updateInternal example_env empty_list (example_file ?ls []) = Inr (sort_lists example_env l, True, w)"
    by (rule load_is_line_by_line[OF example_env_ok empty_list_ok _ _ _ lw(1)]) (simp_all add: regular_def example_file_def)
  with arg_cong[OF lw(2), of length] show ?thesis by auto
qed

text \<open>
  C30: a last line without a newline is lost. If the file fits into the buffer, everything behind the
  last newline is silently ignored: the file is loaded successfully as if it ended there.
\<close>

theorem unterminated_line_dropped:
  assumes "env_ok E" and "default_ok (bl_args lst)" and "regular f" and "in_data f = file_text ls @ rest"
    and "ls \<noteq> []" and "\<forall>l\<in>set ls. NL \<notin> set l" and "NL \<notin> set rest" and "length (in_data f) \<le> 512"
    and "load_lines E 1 (lst\<lparr>bl_ip_list := [], bl_net_list := []\<rparr>) ls = Inr (lst', w)"
  shows "BlackList_updateInternal E lst f = Inr (sort_lists E lst', True, w)"
proof -
  let ?l = "lst\<lparr>bl_ip_list := [], bl_net_list := []\<rparr>" and ?b = "map (pe_stack E) [0..<BUFFER_SIZE]"
  have len: "length (in_data f) \<le> BUFFER_SIZE" using assms(8) by (simp add: BUFFER_SIZE_def)
  obtain m b' where u: "memcpyR ?b 0 (in_data f) = Inr m"
    "update_lines E ?l m 0 (length (in_data f)) 1 = Inr (lst', b', length rest, 1 + length ls, True, w)"
    using block_lines[OF assms(1) _ _ _ _ _ assms(7,6) _ assms(9), of ?b "[]" "in_data f"] assms(2,4,5) len by auto
  have r1: "sys_read (BUFFER_SIZE - 0) f = (ReadData (in_data f), f\<lparr>in_data := []\<rparr>)"
    using sys_read_regular[OF assms(3), of BUFFER_SIZE] len by simp
  have r2: "sys_read n (f\<lparr>in_data := []\<rparr>) = (ReadData [], f\<lparr>in_data := []\<rparr>)" for n
    using sys_read_regular[of "f\<lparr>in_data := []\<rparr>" n] assms(3) by (simp add: regular_def)
  have "in_data f \<noteq> []" using assms(4,5) by (cases ls) auto
  then have "read_loop E ?l ?b 0 f 1 = Inr (lst', True, w)"
    using u r1 r2 by (subst read_loop.simps) (simp add: read_loop.simps)
  then show ?thesis by (simp add: BlackList_updateInternal_def clear_lists[OF assms(1)])
qed

theorem unterminated_line_dropped_witness:
  "\<exists>l w. BlackList_updateInternal example_env empty_list (example_file [''10.0.0.2'', ''#'', ''10.0.0.1''] ''10.0.0.3'')
      = Inr (sort_lists example_env l, True, w) \<and> map (\<lambda>d. b_ip (ip_v d)) (bl_ip_list l) = [0x0200000A, 0x0100000A]"
proof -
  let ?ls = "[''10.0.0.2'', ''#'', ''10.0.0.1'']"
  obtain l w where lw: "load_lines example_env 1 (empty_list\<lparr>bl_ip_list := [], bl_net_list := []\<rparr>) ?ls = Inr (l, w)"
    "map (\<lambda>d. b_ip (ip_v d)) (bl_ip_list l) = [0x0200000A, 0x0100000A]"
    unfolding empty_list_reset using example_lines by (auto split: sum.splits)
  have "BlackList_updateInternal example_env empty_list (example_file ?ls ''10.0.0.3'') = Inr (sort_lists example_env l, True, w)"
    by (rule unterminated_line_dropped[OF example_env_ok empty_list_ok _ _ _ _ _ _ lw(1), where rest = "''10.0.0.3''"])
      (simp_all add: regular_def example_file_def)
  with lw(2) show ?thesis by auto
qed

text \<open>
  C19: the loader is safe for every file and every way the kernel cuts it into blocks: no access leaves
  the buffer, it terminates, all entries of the resulting list are well-formed, and a
  successful load leaves it sorted as the lookup needs it. Only the overflow of a range's counter can
  stop it.
\<close>

theorem loader_safe:
  assumes "env_ok E" and "default_ok (bl_args lst)"
  shows "(\<exists>lst' ok w. BlackList_updateInternal E lst f = Inr (lst', ok, w) \<and> bl_wf lst' \<and> (ok \<longrightarrow> bl_sorted lst'))
      \<or> BlackList_updateInternal E lst f = Inl SignedOverflow"
  using updateInternal_spec[OF assms, of f] by (cases "BlackList_updateInternal E lst f") auto

theorem loader_safe_witness:
  "\<exists>lst' ok w. BlackList_updateInternal example_env empty_list \<lparr>in_data = ''10.0.0.1'', in_cuts = [3], in_fail = True\<rparr> = Inr (lst', ok, w) \<and> bl_wf lst'"
proof -
  let ?f = "\<lparr>in_data = ''10.0.0.1'', in_cuts = [3], in_fail = True\<rparr>"
  have "case BlackList_updateInternal example_env empty_list ?f of Inl _ \<Rightarrow> False | Inr _ \<Rightarrow> True" by code_simp
  then show ?thesis using loader_safe[OF example_env_ok empty_list_ok, of ?f] by auto
qed

text \<open>
  Every update keeps the state consistent: it returns, with well-formed entries, a sorted list
  unless an error is pending, at most six pending errors and at most four seconds of sleep, or it
  ends the process with status 1; only the overflow of a range's counter is left.
\<close>

theorem update_keeps_ok:
  assumes "update_env_ok U" and "bl_state_ok s"
  shows "(\<exists>s' slept w. BlackList_softUpdate U s = Inr (s', slept, w) \<and> bl_state_ok s' \<and> slept \<le> 4)
      \<or> BlackList_softUpdate U s = Inl (Exit 1) \<or> BlackList_softUpdate U s = Inl SignedOverflow"
  using softUpdate_spec[OF assms] by (cases "BlackList_softUpdate U s") auto

definition example_update_env :: "int option \<Rightarrow> infile option \<Rightarrow> update_env" where
  "example_update_env st f = \<lparr>ue_parse = example_env, ue_logging = False, ue_hms = [], ue_clock = \<lparr>tv_sec = 0, tv_usec = 0\<rparr>,
     ue_stat = st, ue_open = f\<rparr>"

definition fresh_state :: bl_state where
  "fresh_state = \<lparr>bs_list = empty_list, bs_error_count = 0\<rparr>"

lemma example_update_env_ok: "update_env_ok (example_update_env st f)"
  by (simp add: update_env_ok_def example_update_env_def example_env_ok)

lemma fresh_state_ok: "bl_state_ok fresh_state"
  using empty_list_ok by (simp add: bl_state_ok_def fresh_state_def bl_wf_def bl_sorted_def empty_list_def)

theorem update_keeps_ok_witness:
  "\<exists>s' slept w. BlackList_softUpdate (example_update_env (Some 1) (Some (example_file [''10.0.0.{1-3}''] []))) fresh_state
      = Inr (s', slept, w) \<and> bl_state_ok s' \<and> slept \<le> 4"
proof -
  let ?U = "example_update_env (Some 1) (Some (example_file [''10.0.0.{1-3}''] []))"
  have "case BlackList_softUpdate ?U fresh_state of Inl _ \<Rightarrow> False | Inr _ \<Rightarrow> True" by code_simp
  then show ?thesis using update_keeps_ok[OF example_update_env_ok fresh_state_ok, of "Some 1" "Some (example_file [''10.0.0.{1-3}''] [])"] by auto
qed

lemma unat_small: "n < 100 \<Longrightarrow> unat (of_nat n :: u32) = n"
  by (simp add: unat_of_nat)

lemma stat_failure_step:
  assumes "ue_stat U = None" "bs_error_count s = of_nat n" "n \<le> 6"
  shows "BlackList_softUpdate U s =
    (if n < 6 then Inr (s\<lparr>bs_error_count := of_nat (Suc n)\<rparr>, 1 + Suc n div 2, []) else Inl (Exit 1))"
proof -
  have c: "bs_error_count s + 1 = of_nat (Suc n)" using assms(2) by simp
  have "unat (of_nat (Suc n) :: u32) = Suc n" using assms(3) by (intro unat_small) simp
  moreover have "of_nat (Suc n) > (0::u32)" "(of_nat (Suc n) > (of_nat MAX_ERRORS :: u32)) = (n \<ge> 6)"
    unfolding word_less_nat_alt calculation using assms(3) by (auto simp: parameter_defs)
  ultimately show ?thesis
    using assms(1,3) c by (simp add: BlackList_softUpdate_def softUpdate_open_def del: of_nat_Suc)
qed

text \<open>
  C29: while the file cannot be examined, six requests in a row are served with the old list and a
  growing delay, and the seventh failure ends the process with status 1.
\<close>

theorem seven_failures_exit:
  assumes "\<forall>U\<in>set Us. ue_stat U = None" and "bs_error_count s = 0"
  shows "foldR (\<lambda>s U. bindR (BlackList_softUpdate U s) (\<lambda>(s, _, _). Inr s)) s Us
    = (if length Us \<le> 6 then Inr (s\<lparr>bs_error_count := of_nat (length Us)\<rparr>) else Inl (Exit 1))"
proof -
  have "foldR (\<lambda>s U. bindR (BlackList_softUpdate U s) (\<lambda>(s, _, _). Inr s)) s Us
    = (if n + length Us \<le> 6 then Inr (s\<lparr>bs_error_count := of_nat (n + length Us)\<rparr>) else Inl (Exit 1))"
    if "bs_error_count s = of_nat n" "n \<le> 6" for n s
    using that assms(1)
  proof (induction Us arbitrary: s n)
    case (Cons U Us)
    then show ?case
      using Cons.IH[of "s\<lparr>bs_error_count := of_nat (Suc n)\<rparr>" "Suc n"] stat_failure_step[of U s n]
      by (auto simp del: of_nat_Suc)
  qed simp
  from this[of s 0] assms(2) show ?thesis by simp
qed

theorem seven_failures_exit_witness:
  "foldR (\<lambda>s U. bindR (BlackList_softUpdate U s) (\<lambda>(s, _, _). Inr s)) fresh_state (replicate 7 (example_update_env None None)) = Inl (Exit 1)"
  using seven_failures_exit[of "replicate 7 (example_update_env None None)" fresh_state]
  by (simp add: example_update_env_def fresh_state_def)

text \<open>
  As long as the modification time stays the same the file is not read again and the list is
  kept. The error counter is kept, too: after a passing failure of \<open>stat\<close> or \<open>open\<close>
  every following request is delayed until the file changes.
\<close>

theorem unchanged_file_not_read:
  assumes "ue_stat U = Some (bl_last_mtime (bs_list s))" and "bs_error_count s \<le> of_nat MAX_ERRORS"
  shows "BlackList_softUpdate U s = Inr (s, if bs_error_count s = 0 then 0 else 1 + unat (bs_error_count s) div 2, [])"
  using assms by (simp add: BlackList_softUpdate_def softUpdate_open_def word_gt_0 linorder_not_less[symmetric])

theorem unchanged_file_not_read_witness:
  "BlackList_softUpdate (example_update_env (Some 0) None) (fresh_state\<lparr>bs_error_count := 1\<rparr>) = Inr (fresh_state\<lparr>bs_error_count := 1\<rparr>, 1, [])"
  using unchanged_file_not_read[of "example_update_env (Some 0) None" "fresh_state\<lparr>bs_error_count := 1\<rparr>"]
  by (simp add: example_update_env_def fresh_state_def empty_list_def parameter_defs)

text \<open>
  A failed load leaves a partial, unsorted list in use: after a read error behind two
  lines the list holds both entries in the order of the file, and its order does not
  allow the binary search of the lookup.
\<close>

theorem failed_load_unsorted:
  "\<exists>s w. BlackList_softUpdate (example_update_env (Some 1)
        (Some \<lparr>in_data = file_text [''10.0.0.2'', ''10.0.0.1''], in_cuts = [], in_fail = True\<rparr>)) fresh_state = Inr (s, 1, w)
     \<and> map (\<lambda>d. b_ip (ip_v d)) (bl_ip_list (bs_list s)) = [0x0200000A, 0x0100000A] \<and> \<not> bl_sorted (bs_list s)"
proof -
  have "case BlackList_softUpdate (example_update_env (Some 1)
        (Some \<lparr>in_data = file_text [''10.0.0.2'', ''10.0.0.1''], in_cuts = [], in_fail = True\<rparr>)) fresh_state of
      Inl _ \<Rightarrow> False | Inr (s, t, w) \<Rightarrow> t = 1 \<and> map (\<lambda>d. b_ip (ip_v d)) (bl_ip_list (bs_list s)) = [0x0200000A, 0x0100000A] \<and> \<not> bl_sorted (bs_list s)"
    by code_simp
  then show ?thesis by (auto split: sum.splits)
qed

end
