(* ===== verification/Receive.thy ===== *)
theory Receive
  imports Worker
begin

text \<open>
  The receiving side of the wire format (\<open>src/src/arpmessage.h\<close>, and the receive buffer of \<open>run\<close> in
  \<open>src/src/ip-sentinel.c\<close>): the buffer after a call of \<open>recvfrom\<close>, and the packed structure that the program
  sees in its first bytes.
\<close>

section \<open>The buffer\<close>

definition RECV_BUFFER_SIZE :: nat where
  "RECV_BUFFER_SIZE = 4096"

text \<open>
  \<open>recvfrom\<close> writes a frame to the start of the buffer and cuts off what does not fit; the rest of the buffer keeps
  its contents. (The program compares the returned number of bytes with -1 only.)
\<close>

definition recv_frame :: "u8 list \<Rightarrow> u8 list \<Rightarrow> u8 list" where
  "recv_frame buffer frame =
     (let n = min (length frame) RECV_BUFFER_SIZE in take n frame @ drop n buffer)"

section \<open>The structure in the buffer\<close>

text \<open>Fields of a packed structure, in the byte order of the host.\<close>

definition u16_at :: "u8 list \<Rightarrow> nat \<Rightarrow> u16" where
  "u16_at b i = ucast (b ! i) OR push_bit 8 (ucast (b ! (i + 1)))"

definition u32_at :: "u8 list \<Rightarrow> nat \<Rightarrow> u32" where
  "u32_at b i = ucast (b ! i) OR push_bit 8 (ucast (b ! (i + 1))) OR push_bit 16 (ucast (b ! (i + 2))) OR push_bit 24 (ucast (b ! (i + 3)))"

definition bytes_at :: "u8 list \<Rightarrow> nat \<Rightarrow> nat \<Rightarrow> u8 list" where
  "bytes_at b i n = take n (drop i b)"

definition read_arp :: "u8 list \<Rightarrow> nat \<Rightarrow> ether_arp" where
  "read_arp b i = \<lparr>ar_hrd = u16_at b i, ar_pro = u16_at b (i + 2), ar_hln = b ! (i + 4), ar_pln = b ! (i + 5), ar_op = u16_at b (i + 6),
     arp_sha = bytes_at b (i + 8) 6, arp_spa = u32_at b (i + 14), arp_tha = bytes_at b (i + 18) 6, arp_tpa = u32_at b (i + 24)\<rparr>"

definition read_message :: "u8 list \<Rightarrow> ArpMessage" where
  "read_message b = \<lparr>ether_dhost = bytes_at b 0 6, ether_shost = bytes_at b 6 6, ether_type = u16_at b 12,
     msg_data = read_arp b 14, msg_padding = bytes_at b 42 19\<rparr>"

text \<open>The lengths of the arrays in the structure.\<close>

definition wf_message :: "ArpMessage \<Rightarrow> bool" where
  "wf_message m \<longleftrightarrow> wf_mac (ether_dhost m) \<and> wf_mac (ether_shost m) \<and> wf_mac (arp_sha (msg_data m)) \<and> wf_mac (arp_tha (msg_data m))
     \<and> length (msg_padding m) = 19"

section \<open>Facts\<close>

lemma recv_frame_length [simp]: "length buffer = RECV_BUFFER_SIZE \<Longrightarrow> length (recv_frame buffer frame) = RECV_BUFFER_SIZE"
  by (simp add: recv_frame_def Let_def)

lemma read_message_wf: "61 \<le> length b \<Longrightarrow> wf_message (read_message b)"
  by (simp add: wf_message_def read_message_def read_arp_def bytes_at_def wf_mac_def)

lemma length_bytes [simp]: "length (bytes16 w) = 2" "length (bytes32 v) = 4"
  by (simp_all add: bytes16_def bytes32_def)

text \<open>A field is found behind the fields before it.\<close>

lemma skip_field:
  "length xs \<le> i \<Longrightarrow> (xs @ ys) ! i = ys ! (i - length xs)"
  "length xs \<le> i \<Longrightarrow> u16_at (xs @ ys) i = u16_at ys (i - length xs)"
  "length xs \<le> i \<Longrightarrow> u32_at (xs @ ys) i = u32_at ys (i - length xs)"
  "length xs \<le> i \<Longrightarrow> bytes_at (xs @ ys) i n = bytes_at ys (i - length xs) n"
  by (simp_all add: nth_append u16_at_def u32_at_def bytes_at_def Suc_diff_le eval_nat_numeral)

lemma skip_byte:
  "0 < i \<Longrightarrow> (x # ys) ! i = ys ! (i - 1)" "0 < i \<Longrightarrow> u16_at (x # ys) i = u16_at ys (i - 1)"
  "0 < i \<Longrightarrow> u32_at (x # ys) i = u32_at ys (i - 1)" "0 < i \<Longrightarrow> bytes_at (x # ys) i n = bytes_at ys (i - 1) n"
  using skip_field[of "[x]" i ys] by simp_all

lemma u16_at_bytes16: "u16_at (bytes16 w @ ys) 0 = w"
  by (simp add: u16_at_def bytes16_def) (rule bit_word_eqI, auto simp: bit_simps)

lemma u32_at_bytes32: "u32_at (bytes32 w @ ys) 0 = w"
proof (rule bit_word_eqI)
  fix n assume "n < LENGTH(32)"
  then show "bit (u32_at (bytes32 w @ ys) 0) n = bit w n"
    by (cases "n < 8"; cases "n < 16"; cases "n < 24") (auto simp: u32_at_def bytes32_def bit_simps)
qed

lemma bytes_at_head: "length xs = n \<Longrightarrow> bytes_at (xs @ ys) 0 n = xs"
  by (simp add: bytes_at_def)

lemmas read_fields = skip_field skip_byte u16_at_bytes16 u32_at_bytes32 bytes_at_head

text \<open>What is sent is what is read: the wire format is read back, whatever follows in the buffer.\<close>

lemma read_message_bytes:
  assumes "wf_message m"
  shows "read_message (message_bytes m @ rest) = m"
proof -
  have "read_arp (message_bytes m @ rest) 14 = msg_data m"
    using assms by (simp add: wf_message_def wf_mac_def message_bytes_def arp_bytes_def read_arp_def read_fields)
  then show ?thesis
    using assms by (simp add: wf_message_def wf_mac_def message_bytes_def read_message_def arp_bytes_def read_fields)
qed

end
