(* ===== verification/Sentinel.thy ===== *)
theory Sentinel
  imports Antidos Blacklist Receive
begin

text \<open>
  The main process of \<open>src/src/ip-sentinel.c\<close>: it receives ARP requests, keeps the blacklist up to date, looks
  up the addresses a request concerns, applies the request counters and passes jobs to the worker
  process through a pipe. One round of its endless loop is a step function on the state of the process.
\<close>

section \<open>State and environment\<close>

record sentinel =
  st_dos :: AntiDOS
  st_bl :: bl_state
  st_send_errors :: u32
  st_recv_errors :: u32
  st_oversize_sleep :: u32
  st_do_reload :: bool
  st_pipe :: "RequestInfo list"
  st_out :: writes
  st_slept :: nat

text \<open>What a handler gets from the operating system: the clock and random numbers, and the answer of \<open>write\<close>.\<close>

record handler_env =
  he_mac_time :: int
  he_mac_rand :: int
  he_time :: int
  he_rand :: int
  he_write :: int

text \<open>
  One round: the clock for the expiry of the counters, the received frame with its link-level protocol (nothing if
  \<open>recvfrom\<close> fails), the environment of an update of the blacklist and those of the two handlers. The
  frame is what the receive buffer holds after the call.
\<close>

record round_env =
  re_dos_vec :: dos_vector
  re_dos_time :: int
  re_recv :: "(u16 \<times> ArpMessage) option"
  re_update :: update_env
  re_to :: handler_env
  re_from :: handler_env

abbreviation re_timestamp :: "round_env \<Rightarrow> int \<Rightarrow> writes run" where
  "re_timestamp R fd \<equiv> writeMsgTimestamp (pe_fmt (ue_parse (re_update R))) (ue_logging (re_update R)) (ue_hms (re_update R))
     (ue_clock (re_update R)) fd"

section \<open>Operations\<close>

definition sigHup :: "sentinel \<Rightarrow> sentinel" where
  "sigHup s = s\<lparr>st_do_reload := True\<rparr>"

text \<open>The value of \<open>rand()\<close> is the first argument.\<close>

definition isDOS :: "int \<Rightarrow> u32 \<Rightarrow> bool" where
  "isDOS r cnt \<longleftrightarrow>
     cnt > ANTIDOS_COUNT_LOW \<and> cnt \<le> ANTIDOS_COUNT_HIGH
       \<and> (of_int r :: u32) mod (ANTIDOS_COUNT_HIGH - ANTIDOS_COUNT_LOW) \<ge> ANTIDOS_COUNT_HIGH - cnt
     \<or> cnt > ANTIDOS_COUNT_HIGH"

definition Worker_sendJob :: "int \<Rightarrow> sentinel \<Rightarrow> RequestInfo \<Rightarrow> sentinel run" where
  "Worker_sendJob ret s request =
     (if ret \<noteq> sizeof_RequestInfo
      then bindR (count_error (st_send_errors s)) (\<lambda>c. Inr (s\<lparr>st_send_errors := c, st_slept := st_slept s + 1\<rparr>))
      else Inr (s\<lparr>st_pipe := st_pipe s @ [request], st_send_errors := 0\<rparr>))"

definition warn_oversized :: "round_env \<Rightarrow> sentinel \<Rightarrow> in_addr \<Rightarrow> sentinel run" where
  "warn_oversized R s ip =
     bindR (re_timestamp R 2) (\<lambda>w.
     Inr (s\<lparr>st_out := st_out s @ w @ Vwrite 2 '': Too much requests from too much IPs; last IP was '' @ writeIP 2 ip @ Vwrite 2 [NL],
            st_slept := st_slept s + unat (st_oversize_sleep s),
            st_oversize_sleep := min (st_oversize_sleep s + 1) 10\<rparr>))"

definition generateJobToIntruder :: "round_env \<Rightarrow> handler_env \<Rightarrow> ArpMessage \<Rightarrow> sentinel \<Rightarrow> sentinel run" where
  "generateJobToIntruder R h msg s =
     (let d = msg_data msg; src_ip = arp_spa d;
          query = \<lparr>q_result_buffer = replicate 6 0, q_ip = arp_tpa d, q_mac = None, q_poison_mac = None\<rparr> in
      bindR (BlackList_getMac (pe_ip_vec (ue_parse (re_update R))) (he_mac_time h) (he_mac_rand h) (bs_list (st_bl s)) query) (\<lambda>(query, mac).
      case mac of
        None \<Rightarrow> Inr s
      | Some mac \<Rightarrow>
          if AntiDOS_isOversized (st_dos s) then warn_oversized R s src_ip
          else (case AntiDOS_registerIP (re_dos_vec R) (he_time h) (st_dos s) src_ip of (dos, arp_count) \<Rightarrow>
            let s = s\<lparr>st_oversize_sleep := 1, st_dos := dos\<rparr> in
            if isDOS (he_rand h) arp_count then
              bindR (re_timestamp R 2) (\<lambda>w.
              Inr (s\<lparr>st_out := st_out s @ w @ Vwrite 2 '': Too much requests from '' @ writeIP 2 src_ip
                       @ Vwrite 2 ''; DOS-measurement was '' @ writeUInt (pe_fmt (ue_parse (re_update R))) 2 (unat arp_count) @ Vwrite 2 [NL]\<rparr>))
            else Worker_sendJob (he_write h) s
                   \<lparr>rq_request = d, rq_mac = mac, rq_type = jobDST, rq_poison_f = False, rq_poison_v = replicate 6 0\<rparr>)))"

definition generateJobFromIntruder :: "round_env \<Rightarrow> handler_env \<Rightarrow> ArpMessage \<Rightarrow> sentinel \<Rightarrow> sentinel run" where
  "generateJobFromIntruder R h msg s =
     (let d = msg_data msg; dst_ip = arp_tpa d;
          query = \<lparr>q_result_buffer = replicate 6 0, q_ip = arp_spa d, q_mac = Some (arp_sha d), q_poison_mac = None\<rparr> in
      if q_ip query = 0 then Inr s
      else bindR (BlackList_getMac (pe_ip_vec (ue_parse (re_update R))) (he_mac_time h) (he_mac_rand h) (bs_list (st_bl s)) query) (\<lambda>(query, mac).
      case mac of
        None \<Rightarrow> Inr s
      | Some mac \<Rightarrow>
          if AntiDOS_isOversized (st_dos s) then warn_oversized R s dst_ip
          else (case AntiDOS_registerIP (re_dos_vec R) (he_time h) (st_dos s) (q_ip query) of (dos, arp_count) \<Rightarrow>
            let s = s\<lparr>st_oversize_sleep := 1, st_dos := dos\<rparr> in
            if isDOS (he_rand h) arp_count then
              bindR (re_timestamp R 2) (\<lambda>w.
              Inr (s\<lparr>st_out := st_out s @ w @ Vwrite 2 '': Too much requests from intruder '' @ writeIP 2 (q_ip query)
                       @ Vwrite 2 ''; DOS-measurement was '' @ writeUInt (pe_fmt (ue_parse (re_update R))) 2 (unat arp_count)
                       @ Vwrite 2 '', current dst '' @ writeIP 2 dst_ip @ Vwrite 2 [NL]\<rparr>))
            else Worker_sendJob (he_write h) s
                   \<lparr>rq_request = d, rq_mac = mac, rq_type = jobSRC, rq_poison_f = (q_poison_mac query \<noteq> None),
                    rq_poison_v = (case q_poison_mac query of Some m \<Rightarrow> m | None \<Rightarrow> replicate 6 0)\<rparr>)))"

text \<open>The update at the start of a round: forced when a signal asked for it.\<close>

definition run_update :: "round_env \<Rightarrow> sentinel \<Rightarrow> sentinel run" where
  "run_update R s =
     (if \<not> st_do_reload s
      then bindR (BlackList_softUpdate (re_update R) (st_bl s)) (\<lambda>(bl, slept, w).
           Inr (s\<lparr>st_bl := bl, st_slept := st_slept s + slept, st_out := st_out s @ w\<rparr>))
      else bindR (BlackList_update (re_update R) (st_bl s)) (\<lambda>(bl, slept, w).
           Inr (s\<lparr>st_bl := bl, st_slept := st_slept s + slept, st_out := st_out s @ w, st_do_reload := False\<rparr>)))"

definition handle_request :: "direction \<Rightarrow> round_env \<Rightarrow> ArpMessage \<Rightarrow> sentinel \<Rightarrow> sentinel run" where
  "handle_request dir R msg s =
     bindR (run_update R s) (\<lambda>s.
     bindR (if dir \<noteq> dirFROM then generateJobToIntruder R (re_to R) msg s else Inr s) (\<lambda>s.
     if dir \<noteq> dirTO then generateJobFromIntruder R (re_from R) msg s else Inr s))"

definition run_round :: "direction \<Rightarrow> sentinel \<Rightarrow> round_env \<Rightarrow> sentinel run" where
  "run_round dir s R =
     (let s = s\<lparr>st_dos := AntiDOS_update (re_dos_vec R) (re_dos_time R) (st_dos s)\<rparr> in
      case re_recv R of
        None \<Rightarrow> (let c = st_recv_errors s + 1 in
                 if c > of_nat MAX_ERRORS then Inl (Exit 1) else Inr (s\<lparr>st_recv_errors := c\<rparr>))
      | Some (protocol, msg) \<Rightarrow>
          (let s = s\<lparr>st_recv_errors := 0\<rparr> in
           if htons protocol \<noteq> 0x0806 then Inr s
           else if htons (ar_op (msg_data msg)) \<noteq> 1 then Inr s
           else handle_request dir R msg s))"

text \<open>The state at the start of the loop.\<close>

definition run_start :: "update_env \<Rightarrow> dos_vector \<Rightarrow> Arguments \<Rightarrow> sentinel run" where
  "run_start U V args =
     bindR (BlackList_init U 0 args) (\<lambda>(bl, slept, w).
     Inr \<lparr>st_dos = AntiDOS_init V, st_bl = bl, st_send_errors = 0, st_recv_errors = 0, st_oversize_sleep = 1,
          st_do_reload = False, st_pipe = [], st_out = w, st_slept = slept\<rparr>)"

section \<open>Facts\<close>

text \<open>What sending a job may do to the state.\<close>

definition sent_post :: "RequestInfo \<Rightarrow> sentinel \<Rightarrow> sentinel \<Rightarrow> bool" where
  "sent_post rq s s' \<longleftrightarrow> st_dos s' = st_dos s \<and> st_bl s' = st_bl s \<and> st_oversize_sleep s' = st_oversize_sleep s
     \<and> (st_pipe s' = st_pipe s \<or> st_pipe s' = st_pipe s @ [rq])"

lemma sendJob_spec: "specR {Exit 1} (Worker_sendJob ret s rq) (sent_post rq s)"
  by (simp add: Worker_sendJob_def sent_post_def count_error_def)

text \<open>
  What a round relies on: the contract of the vector library, a usable environment for updates, and arrays of the right lengths in
  the received structure (which every contents of the receive buffer has, \<open>read_message_wf\<close>).
\<close>

definition round_env_ok :: "round_env \<Rightarrow> bool" where
  "round_env_ok R \<longleftrightarrow> vector_lib (re_dos_vec R) \<and> update_env_ok (re_update R)
     \<and> (case re_recv R of None \<Rightarrow> True | Some (protocol, msg) \<Rightarrow> wf_message msg)"

lemma re_timestamp_ok: "round_env_ok R \<Longrightarrow> specR S (re_timestamp R fd) (\<lambda>_. True)"
  by (simp add: round_env_ok_def update_env_ok_def writeMsgTimestamp_ok)

text \<open>
  What a handler may do: the blacklist stays as it is, the counters see at most one request, and at most one job
  is written.
\<close>

definition handler_post :: "round_env \<Rightarrow> handler_env \<Rightarrow> in_addr \<Rightarrow> (RequestInfo \<Rightarrow> bool) \<Rightarrow> sentinel \<Rightarrow> sentinel \<Rightarrow> bool" where
  "handler_post R h ip P s s' \<longleftrightarrow> st_bl s' = st_bl s
     \<and> (st_dos s' = st_dos s \<and> st_pipe s' = st_pipe s
        \<or> st_dos s' = fst (AntiDOS_registerIP (re_dos_vec R) (he_time h) (st_dos s) ip)
          \<and> (st_pipe s' = st_pipe s
             \<or> \<not> isDOS (he_rand h) (snd (AntiDOS_registerIP (re_dos_vec R) (he_time h) (st_dos s) ip))
               \<and> (\<exists>rq. P rq \<and> st_pipe s' = st_pipe s @ [rq])))
     \<and> (st_oversize_sleep s' = st_oversize_sleep s \<or> st_oversize_sleep s' = 1 \<or> st_oversize_sleep s' = min (st_oversize_sleep s + 1) 10)"

text \<open>The jobs the handlers may write for a message.\<close>

definition job_to :: "ip_vector \<Rightarrow> handler_env \<Rightarrow> BlackList \<Rightarrow> ArpMessage \<Rightarrow> RequestInfo \<Rightarrow> bool" where
  "job_to V h lst msg rq \<longleftrightarrow> rq_request rq = msg_data msg \<and> rq_type rq = jobDST \<and> \<not> rq_poison_f rq
     \<and> (\<exists>q q'. q_ip q = arp_tpa (msg_data msg) \<and> q_mac q = None
          \<and> BlackList_getMac V (he_mac_time h) (he_mac_rand h) lst q = Inr (q', Some (rq_mac rq)))"

definition job_from :: "ip_vector \<Rightarrow> handler_env \<Rightarrow> BlackList \<Rightarrow> ArpMessage \<Rightarrow> RequestInfo \<Rightarrow> bool" where
  "job_from V h lst msg rq \<longleftrightarrow> rq_request rq = msg_data msg \<and> rq_type rq = jobSRC \<and> arp_spa (msg_data msg) \<noteq> 0
     \<and> (\<exists>q q'. q_ip q = arp_spa (msg_data msg) \<and> q_mac q = Some (arp_sha (msg_data msg))
          \<and> BlackList_getMac V (he_mac_time h) (he_mac_rand h) lst q = Inr (q', Some (rq_mac rq)))"

abbreviation re_ip_vec :: "round_env \<Rightarrow> ip_vector" where
  "re_ip_vec R \<equiv> pe_ip_vec (ue_parse (re_update R))"

lemma compareEntry_ip: "q_ip (fst (BlackList_compareEntry e s)) = q_ip (fst s)"
  by (cases s) (auto simp: Let_def split: atmac_cmp.splits)

lemma getMac_nets_ip: "q_ip (fst (getMac_nets ds s)) = q_ip (fst s)"
  by (induction ds s rule: getMac_nets.induct) (auto simp: compareEntry_ip simp del: BlackList_compareEntry.simps)

lemma getMac_ip:
  assumes "BlackList_getMac V t r lst q = Inr (q', m)"
  shows "q_ip q' = q_ip q"
proof -
  define s0 where "s0 = (case Vector_search V (bl_ip_list lst) (q_ip q) IPData_searchCompare of
                 Some i \<Rightarrow> BlackList_compareEntry (ip_v (bl_ip_list lst ! i)) (q, blUNDECIDED, False)
               | None \<Rightarrow> (q, blUNDECIDED, False))"
  define s1 where "s1 = (if fst (snd s0) = blUNDECIDED then getMac_nets (bl_net_list lst) s0 else s0)"
  have "q_ip (fst s1) = q_ip q"
    by (simp add: s1_def s0_def getMac_nets_ip compareEntry_ip del: BlackList_compareEntry.simps split: option.split)
  moreover have "q_ip q' = q_ip (fst s1)"
    using assms unfolding BlackList_getMac_def Let_def s0_def[symmetric] s1_def[symmetric]
    by (cases s1) (auto split: if_splits BlackListStatus.splits)
  ultimately show ?thesis by simp
qed

lemma sendJob_Inr: "Worker_sendJob ret s rq = Inr s' \<Longrightarrow> sent_post rq s s'"
  using sendJob_spec[of ret s rq] by simp

lemma to_post:
  assumes "generateJobToIntruder R h msg s = Inr s'"
  shows "handler_post R h (arp_spa (msg_data msg)) (job_to (re_ip_vec R) h (bs_list (st_bl s)) msg) s s'"
proof -
  let ?q = "\<lparr>q_result_buffer = replicate 6 0, q_ip = arp_tpa (msg_data msg), q_mac = None, q_poison_mac = None\<rparr>"
  let ?reg = "AntiDOS_registerIP (re_dos_vec R) (he_time h) (st_dos s) (arp_spa (msg_data msg))"
  obtain q' m where g: "BlackList_getMac (re_ip_vec R) (he_mac_time h) (he_mac_rand h) (bs_list (st_bl s)) ?q = Inr (q', m)"
    using assms by (auto simp: generateJobToIntruder_def Let_def elim!: bindR_InrE)
  obtain dos c where r: "?reg = (dos, c)" by (cases ?reg)
  show ?thesis
  proof (cases m)
    case None
    then show ?thesis using assms g by (simp add: generateJobToIntruder_def handler_post_def Let_def)
  next
    case (Some mac)
    let ?rq = "\<lparr>rq_request = msg_data msg, rq_mac = mac, rq_type = jobDST, rq_poison_f = False, rq_poison_v = replicate 6 0\<rparr>"
    have j: "job_to (re_ip_vec R) h (bs_list (st_bl s)) msg ?rq"
      unfolding job_to_def using g Some by (intro conjI exI[of _ ?q] exI[of _ q']) simp_all
    show ?thesis
      using assms g Some r j
      by (auto simp: generateJobToIntruder_def warn_oversized_def Let_def handler_post_def sent_post_def
          elim!: bindR_InrE dest!: sendJob_Inr split: if_splits)
  qed
qed

lemma from_post:
  assumes "generateJobFromIntruder R h msg s = Inr s'"
  shows "handler_post R h (arp_spa (msg_data msg)) (job_from (re_ip_vec R) h (bs_list (st_bl s)) msg) s s'"
proof (cases "arp_spa (msg_data msg) = 0")
  case True
  then show ?thesis using assms by (simp add: generateJobFromIntruder_def handler_post_def Let_def)
next
  case False
  let ?q = "\<lparr>q_result_buffer = replicate 6 0, q_ip = arp_spa (msg_data msg), q_mac = Some (arp_sha (msg_data msg)), q_poison_mac = None\<rparr>"
  let ?reg = "AntiDOS_registerIP (re_dos_vec R) (he_time h) (st_dos s) (arp_spa (msg_data msg))"
  obtain q' m where g: "BlackList_getMac (re_ip_vec R) (he_mac_time h) (he_mac_rand h) (bs_list (st_bl s)) ?q = Inr (q', m)"
    using assms False by (auto simp: generateJobFromIntruder_def Let_def elim!: bindR_InrE)
  have ip: "q_ip q' = arp_spa (msg_data msg)" using getMac_ip[OF g] by simp
  obtain dos c where r: "?reg = (dos, c)" by (cases ?reg)
  show ?thesis
  proof (cases m)
    case None
    then show ?thesis using assms g False by (simp add: generateJobFromIntruder_def handler_post_def Let_def)
  next
    case (Some mac)
    let ?rq = "\<lparr>rq_request = msg_data msg, rq_mac = mac, rq_type = jobSRC, rq_poison_f = (q_poison_mac q' \<noteq> None),
                    rq_poison_v = (case q_poison_mac q' of Some m \<Rightarrow> m | None \<Rightarrow> replicate 6 0)\<rparr>"
    have j: "job_from (re_ip_vec R) h (bs_list (st_bl s)) msg ?rq"
      unfolding job_from_def using g Some False by (intro conjI exI[of _ ?q] exI[of _ q']) simp_all
    show ?thesis
      using assms g Some r j False
      by (auto simp: generateJobFromIntruder_def warn_oversized_def Let_def handler_post_def sent_post_def ip
          elim!: bindR_InrE dest!: sendJob_Inr split: if_splits)
  qed
qed

section \<open>Authorised jobs\<close>

definition listed :: "BlackList \<Rightarrow> in_addr \<Rightarrow> ether_addr \<Rightarrow> bool" where
  "listed lst ip mac \<longleftrightarrow> (\<exists>e. ((\<exists>d\<in>set (bl_ip_list lst). e = ip_v d \<and> b_ip e = ip)
            \<or> (\<exists>d\<in>set (bl_net_list lst). e = net_v d \<and> net_contains ip d))
          \<and> (b_status e = blSET \<and> mac = b_mac e \<or> b_status e = blRAND \<and> (\<exists>t r. mac = Util_setRandomMac t r)))"

lemma getMac_listed_mac:
  assumes "vector_lib V" "bl_wf lst" "bl_sorted lst" "BlackList_getMac V t r lst q = Inr (q', Some m)"
  shows "listed lst (q_ip q) m"
  using getMac_listed[OF assms] unfolding listed_def by blast

lemma listed_wf: "bl_wf lst \<Longrightarrow> listed lst ip m \<Longrightarrow> wf_mac m"
  by (auto simp: listed_def bl_wf_def base_wf_def net_wf_def)

text \<open>A job for a message: of a known kind, in an enabled direction, for a listed address.\<close>

definition authorised :: "direction \<Rightarrow> BlackList \<Rightarrow> ArpMessage \<Rightarrow> RequestInfo \<Rightarrow> bool" where
  "authorised dir lst msg rq \<longleftrightarrow> rq_request rq = msg_data msg
     \<and> (rq_type rq = jobDST \<and> dir \<noteq> dirFROM \<and> listed lst (arp_tpa (msg_data msg)) (rq_mac rq)
        \<or> rq_type rq = jobSRC \<and> dir \<noteq> dirTO \<and> arp_spa (msg_data msg) \<noteq> 0 \<and> listed lst (arp_spa (msg_data msg)) (rq_mac rq))"

lemma job_to_authorised:
  "vector_lib V \<Longrightarrow> bl_wf lst \<Longrightarrow> bl_sorted lst \<Longrightarrow> dir \<noteq> dirFROM \<Longrightarrow> job_to V h lst msg rq \<Longrightarrow> authorised dir lst msg rq"
  unfolding job_to_def authorised_def by (metis getMac_listed_mac)

lemma job_from_authorised:
  "vector_lib V \<Longrightarrow> bl_wf lst \<Longrightarrow> bl_sorted lst \<Longrightarrow> dir \<noteq> dirTO \<Longrightarrow> job_from V h lst msg rq \<Longrightarrow> authorised dir lst msg rq"
  unfolding job_from_def authorised_def by (metis getMac_listed_mac)

lemma update_spec:
  assumes "update_env_ok U" "bl_state_ok s"
  shows "specR {SignedOverflow, Exit 1} (BlackList_update U s)
     (\<lambda>(s', slept, w). bl_state_ok s' \<and> bl_args (bs_list s') = bl_args (bs_list s) \<and> slept \<le> 4)"
proof -
  let ?s = "s\<lparr>bs_list := (bs_list s)\<lparr>bl_last_mtime := 0\<rparr>\<rparr>"
  have "bl_state_ok ?s" using assms(2) by (simp add: bl_state_ok_def bl_wf_def bl_sorted_def)
  from softUpdate_spec[OF assms(1) this] show ?thesis by (simp add: BlackList_update_def)
qed

definition update_post :: "sentinel \<Rightarrow> sentinel \<Rightarrow> bool" where
  "update_post s s' \<longleftrightarrow> bl_state_ok (st_bl s') \<and> bl_args (bs_list (st_bl s')) = bl_args (bs_list (st_bl s)) \<and> st_dos s' = st_dos s \<and> st_pipe s' = st_pipe s
     \<and> st_oversize_sleep s' = st_oversize_sleep s \<and> \<not> st_do_reload s'"

lemma run_update_spec:
  assumes "update_env_ok (re_update R)" "bl_state_ok (st_bl s)"
  shows "specR {SignedOverflow, Exit 1} (run_update R s) (update_post s)"
  using softUpdate_spec[OF assms] update_spec[OF assms]
  by (auto simp: run_update_def update_post_def elim!: specR_conseq)

lemma run_update_Inr:
  "run_update R s = Inr s' \<Longrightarrow> round_env_ok R \<Longrightarrow> bl_state_ok (st_bl s) \<Longrightarrow> update_post s s'"
  using run_update_spec[of R s] by (simp add: round_env_ok_def)

text \<open>The phases of a handled request.\<close>

lemma handle_requestE:
  assumes "handle_request dir R msg s = Inr s'" "round_env_ok R" "bl_state_ok (st_bl s)"
  obtains s1 s2 where "update_post s s1"
    "if dir \<noteq> dirFROM then handler_post R (re_to R) (arp_spa (msg_data msg)) (job_to (re_ip_vec R) (re_to R) (bs_list (st_bl s1)) msg) s1 s2 else s2 = s1"
    "if dir \<noteq> dirTO then handler_post R (re_from R) (arp_spa (msg_data msg)) (job_from (re_ip_vec R) (re_from R) (bs_list (st_bl s2)) msg) s2 s' else s' = s2"
proof -
  obtain s1 s2 where s: "run_update R s = Inr s1" "(if dir \<noteq> dirFROM then generateJobToIntruder R (re_to R) msg s1 else Inr s1) = Inr s2"
    "(if dir \<noteq> dirTO then generateJobFromIntruder R (re_from R) msg s2 else Inr s2) = Inr s'"
    using assms(1) unfolding handle_request_def by (elim bindR_InrE)
  show thesis
    by (rule that[of s1 s2, OF run_update_Inr[OF s(1) assms(2,3)]]) (use s(2,3) in \<open>auto split: if_splits dest: to_post from_post\<close>)
qed

lemma handler_pipe:
  assumes "handler_post R h ip P s s'"
  shows "\<exists>new. st_pipe s' = st_pipe s @ new \<and> length new \<le> 1 \<and> st_bl s' = st_bl s \<and> (\<forall>rq\<in>set new. P rq)"
proof -
  have "st_bl s' = st_bl s" "st_pipe s' = st_pipe s \<or> (\<exists>rq. P rq \<and> st_pipe s' = st_pipe s @ [rq])"
    using assms by (auto simp: handler_post_def)
  then show ?thesis by (elim disjE exE) (auto intro: exI[of _ "[]"] exI[of _ "[_]"])
qed

lemma phase_pipe:
  assumes "if c then handler_post R h ip P s s' else s' = s"
  shows "\<exists>new. st_pipe s' = st_pipe s @ new \<and> length new \<le> 1 \<and> st_bl s' = st_bl s \<and> (\<forall>rq\<in>set new. c \<and> P rq)"
proof (cases c)
  case True
  then show ?thesis using handler_pipe[of R h ip P s s'] assms by auto
next
  case False
  then show ?thesis using assms by (intro exI[of _ "[]"]) simp
qed

lemma handle_request_jobs:
  assumes "handle_request dir R msg s = Inr s'" "round_env_ok R" "bl_state_ok (st_bl s)"
  shows "\<exists>new. st_pipe s' = st_pipe s @ new \<and> length new \<le> 2 \<and> bl_state_ok (st_bl s')
     \<and> (\<forall>rq\<in>set new. known_type rq \<and> (bs_error_count (st_bl s') = 0 \<longrightarrow> authorised dir (bs_list (st_bl s')) msg rq))"
proof -
  have V: "vector_lib (re_ip_vec R)" using assms(2) by (simp add: round_env_ok_def update_env_ok_def env_ok_def)
  obtain s1 s2 where s1: "update_post s s1"
    and s2: "if dir \<noteq> dirFROM then handler_post R (re_to R) (arp_spa (msg_data msg)) (job_to (re_ip_vec R) (re_to R) (bs_list (st_bl s1)) msg) s1 s2 else s2 = s1"
    and s3: "if dir \<noteq> dirTO then handler_post R (re_from R) (arp_spa (msg_data msg)) (job_from (re_ip_vec R) (re_from R) (bs_list (st_bl s2)) msg) s2 s' else s' = s2"
    using handle_requestE[OF assms] by blast
  have to: "\<exists>new. st_pipe s2 = st_pipe s1 @ new \<and> length new \<le> 1 \<and> st_bl s2 = st_bl s1
      \<and> (\<forall>rq\<in>set new. dir \<noteq> dirFROM \<and> job_to (re_ip_vec R) (re_to R) (bs_list (st_bl s1)) msg rq)"
    by (rule phase_pipe[OF s2])
  have "\<exists>new. st_pipe s' = st_pipe s2 @ new \<and> length new \<le> 1 \<and> st_bl s' = st_bl s2
      \<and> (\<forall>rq\<in>set new. dir \<noteq> dirTO \<and> job_from (re_ip_vec R) (re_from R) (bs_list (st_bl s2)) msg rq)"
    by (rule phase_pipe[OF s3])
  with to obtain n1 n2 where n: "st_pipe s' = st_pipe s1 @ n1 @ n2" "length n1 \<le> 1" "length n2 \<le> 1" "st_bl s' = st_bl s1" "st_bl s2 = st_bl s1"
    "\<forall>rq\<in>set n1. dir \<noteq> dirFROM \<and> job_to (re_ip_vec R) (re_to R) (bs_list (st_bl s1)) msg rq"
    "\<forall>rq\<in>set n2. dir \<noteq> dirTO \<and> job_from (re_ip_vec R) (re_from R) (bs_list (st_bl s1)) msg rq" by auto
  have u: "bl_state_ok (st_bl s1)" "st_pipe s1 = st_pipe s" using s1 by (simp_all add: update_post_def)
  then have b: "bl_wf (bs_list (st_bl s1))" "bs_error_count (st_bl s1) = 0 \<longrightarrow> bl_sorted (bs_list (st_bl s1))"
    by (simp_all add: bl_state_ok_def)
  show ?thesis
  proof (intro exI[of _ "n1 @ n2"] conjI ballI)
    fix rq assume rq: "rq \<in> set (n1 @ n2)"
    show "known_type rq" using rq n(6,7) by (auto simp: known_type_def job_to_def job_from_def)
    show "bs_error_count (st_bl s') = 0 \<longrightarrow> authorised dir (bs_list (st_bl s')) msg rq"
      using rq n(4,6,7) b job_to_authorised[OF V] job_from_authorised[OF V] by auto
  qed (use n u in auto)
qed

lemma round_jobs:
  assumes "run_round dir s R = Inr s'" and "round_env_ok R" and "bl_state_ok (st_bl s)"
  shows "\<exists>new. st_pipe s' = st_pipe s @ new \<and> length new \<le> 2
     \<and> (\<forall>rq\<in>set new. known_type rq \<and> (\<exists>proto msg. re_recv R = Some (proto, msg) \<and> htons proto = 0x0806 \<and> htons (ar_op (msg_data msg)) = 1
          \<and> (bs_error_count (st_bl s') = 0 \<longrightarrow> authorised dir (bs_list (st_bl s')) msg rq)))"
proof (cases "\<exists>proto msg. re_recv R = Some (proto, msg) \<and> htons proto = 0x0806 \<and> htons (ar_op (msg_data msg)) = 1")
  case True
  then obtain proto msg where m: "re_recv R = Some (proto, msg)" "htons proto = 0x0806" "htons (ar_op (msg_data msg)) = 1" by blast
  let ?s = "s\<lparr>st_dos := AntiDOS_update (re_dos_vec R) (re_dos_time R) (st_dos s), st_recv_errors := 0\<rparr>"
  have "handle_request dir R msg ?s = Inr s'" using assms(1) m by (simp add: run_round_def Let_def)
  from handle_request_jobs[OF this assms(2)] assms(3) m show ?thesis by auto
next
  case False
  then have "st_pipe s' = st_pipe s" using assms(1) by (auto simp: run_round_def Let_def split: option.splits if_splits)
  then show ?thesis by (intro exI[of _ "[]"]) simp
qed

section \<open>Reachable states\<close>

text \<open>
  The states the process can reach while the clock does not go back: \<open>t\<close> is a time not before any of the past
  clock readings.
\<close>

inductive main_run :: "dos_vector \<Rightarrow> Arguments \<Rightarrow> int \<Rightarrow> sentinel \<Rightarrow> bool" for V args where
  main_start: "run_start U V args = Inr s \<Longrightarrow> update_env_ok U \<Longrightarrow> vector_lib V \<Longrightarrow> default_ok args \<Longrightarrow> 0 \<le> t \<Longrightarrow> main_run V args t s"
| main_hup: "main_run V args t s \<Longrightarrow> main_run V args t (sigHup s)"
| main_round: "main_run V args t s \<Longrightarrow> round_env_ok R \<Longrightarrow> re_dos_vec R = V \<Longrightarrow> t \<le> re_dos_time R
    \<Longrightarrow> re_dos_time R \<le> he_time (re_to R) \<Longrightarrow> he_time (re_to R) \<le> he_time (re_from R) \<Longrightarrow> run_round (a_arp_dir args) s R = Inr s'
    \<Longrightarrow> main_run V args (he_time (re_from R)) s'"

definition sentinel_inv :: "Arguments \<Rightarrow> int \<Rightarrow> sentinel \<Rightarrow> bool" where
  "sentinel_inv args t s \<longleftrightarrow> dos_inv t (st_dos s) \<and> bl_state_ok (st_bl s) \<and> bl_args (bs_list (st_bl s)) = args
     \<and> 1 \<le> st_oversize_sleep s \<and> st_oversize_sleep s \<le> 10 \<and> (\<forall>rq\<in>set (st_pipe s). known_type rq)"

lemma oversize_step: "1 \<le> (x::u32) \<Longrightarrow> x \<le> 10 \<Longrightarrow> 1 \<le> min (x + 1) 10"
proof -
  assume x: "1 \<le> x" "x \<le> 10"
  then have "unat x \<le> 10" by (simp add: word_le_nat_alt)
  then have "unat (x + 1) = unat x + 1" by (subst unat_add_lem[THEN iffD1]) (auto simp: word_le_nat_alt)
  then have "1 \<le> x + 1" by (simp add: word_le_nat_alt)
  then show ?thesis by simp
qed

lemma handler_inv:
  assumes "handler_post R h ip P s s'" "vector_lib (re_dos_vec R)" "sentinel_inv args t s" "t \<le> he_time h" "\<And>rq. P rq \<Longrightarrow> known_type rq"
  shows "sentinel_inv args (he_time h) s'"
proof -
  have i: "dos_inv t (st_dos s)" using assms(3) by (simp add: sentinel_inv_def)
  have "dos_inv (he_time h) (fst (AntiDOS_registerIP (re_dos_vec R) (he_time h) (st_dos s) ip))"
    using dos_inv_register[OF assms(2) i assms(4)] by (metis prod.collapse)
  moreover have "dos_inv (he_time h) (st_dos s)" using i assms(4) by (fastforce simp: dos_inv_def entry_ok_def)
  moreover obtain new where "st_pipe s' = st_pipe s @ new" "\<forall>rq\<in>set new. P rq" using handler_pipe[OF assms(1)] by blast
  ultimately show ?thesis
    using assms(1,3,5) oversize_step[of "st_oversize_sleep s"] by (auto simp: handler_post_def sentinel_inv_def)
qed

lemma sentinel_inv_mono: "sentinel_inv args t s \<Longrightarrow> t \<le> t' \<Longrightarrow> sentinel_inv args t' s"
  by (fastforce simp: sentinel_inv_def dos_inv_def entry_ok_def)

lemma handle_request_inv:
  assumes "handle_request dir R msg s = Inr s'" "round_env_ok R" "sentinel_inv args t s" "t \<le> he_time (re_to R)"
    "he_time (re_to R) \<le> he_time (re_from R)"
  shows "sentinel_inv args (he_time (re_from R)) s'"
proof -
  have b: "bl_state_ok (st_bl s)" and v: "vector_lib (re_dos_vec R)" using assms(2,3) by (auto simp: sentinel_inv_def round_env_ok_def)
  have k: "job_to V h l msg rq \<Longrightarrow> known_type rq" "job_from V h l msg rq \<Longrightarrow> known_type rq" for V h l rq
    by (auto simp: job_to_def job_from_def known_type_def)
  obtain s1 s2 where s1: "update_post s s1"
    and s2: "if dir \<noteq> dirFROM then handler_post R (re_to R) (arp_spa (msg_data msg)) (job_to (re_ip_vec R) (re_to R) (bs_list (st_bl s1)) msg) s1 s2 else s2 = s1"
    and s3: "if dir \<noteq> dirTO then handler_post R (re_from R) (arp_spa (msg_data msg)) (job_from (re_ip_vec R) (re_from R) (bs_list (st_bl s2)) msg) s2 s' else s' = s2"
    using handle_requestE[OF assms(1,2) b] by blast
  have i1: "sentinel_inv args t s1" using s1 assms(3) by (simp add: update_post_def sentinel_inv_def)
  have i2: "sentinel_inv args (he_time (re_to R)) s2"
    using s2 handler_inv[OF _ v i1 assms(4)] k(1) sentinel_inv_mono[OF i1 assms(4)] by (auto split: if_splits)
  show ?thesis
    using s3 handler_inv[OF _ v i2 assms(5)] k(2) sentinel_inv_mono[OF i2 assms(5)] by (auto split: if_splits)
qed

lemma round_inv:
  assumes "run_round dir s R = Inr s'" "round_env_ok R" "sentinel_inv args t s" "t \<le> re_dos_time R"
    "re_dos_time R \<le> he_time (re_to R)" "he_time (re_to R) \<le> he_time (re_from R)"
  shows "sentinel_inv args (he_time (re_from R)) s'"
proof -
  let ?s = "s\<lparr>st_dos := AntiDOS_update (re_dos_vec R) (re_dos_time R) (st_dos s), st_recv_errors := 0\<rparr>"
  have v: "vector_lib (re_dos_vec R)" using assms(2) by (simp add: round_env_ok_def)
  have d: "dos_inv (re_dos_time R) (AntiDOS_update (re_dos_vec R) (re_dos_time R) (st_dos s))"
    using dos_inv_update[OF v _ assms(4)] assms(3) by (simp add: sentinel_inv_def)
  then have i: "sentinel_inv args (re_dos_time R) (?s\<lparr>st_recv_errors := c\<rparr>)" for c
    using assms(3) by (simp add: sentinel_inv_def)
  have le: "re_dos_time R \<le> he_time (re_from R)" using assms(5,6) by simp
  show ?thesis
  proof (cases "re_recv R")
    case None
    then show ?thesis using assms(1) sentinel_inv_mono[OF i le] by (auto simp: run_round_def Let_def split: if_splits)
  next
    case (Some x)
    have i0: "sentinel_inv args (re_dos_time R) ?s" using i[of 0] by simp
    show ?thesis
      using Some assms(1) sentinel_inv_mono[OF i0 le] handle_request_inv[OF _ assms(2) i0 assms(5,6)]
      by (cases x) (auto simp: run_round_def Let_def split: if_splits)
  qed
qed

lemma start_inv:
  assumes "run_start U V args = Inr s" "update_env_ok U" "vector_lib V" "default_ok args" "0 \<le> t"
  shows "sentinel_inv args t s"
proof -
  let ?b = "\<lparr>bs_list = \<lparr>bl_ip_list = Vector_init (pe_ip_vec (ue_parse U)), bl_net_list = Vector_init (pe_net_vec (ue_parse U)),
                   bl_last_mtime = 0, bl_args = args\<rparr>, bs_error_count = 0\<rparr>"
  have "Vector_init (pe_ip_vec (ue_parse U)) = []" "Vector_init (pe_net_vec (ue_parse U)) = []"
    using assms(2) by (simp_all add: update_env_ok_def env_ok_def vector_lib.init)
  then have "bl_state_ok ?b" using assms(4) by (simp add: bl_state_ok_def bl_wf_def bl_sorted_def)
  from update_spec[OF assms(2) this] assms(1) dos_inv_init[OF assms(3,5)] show ?thesis
    by (auto simp: run_start_def BlackList_init_def sentinel_inv_def elim!: bindR_InrE)
qed

lemma main_run_inv: "main_run V args t s \<Longrightarrow> sentinel_inv args t s"
proof (induction rule: main_run.induct)
  case (main_start U s t)
  then show ?case by (rule start_inv)
next
  case (main_hup t s)
  then show ?case by (simp add: sentinel_inv_def sigHup_def)
next
  case (main_round t s R s')
  then show ?case by (intro round_inv) auto
qed

section \<open>Requests of one second\<close>

text \<open>
  The jobs for the requests of one sender within one second of the clock. Each of them has counted its request, so that the
  counter of the sender is at least the number of jobs, and no job is written with a counter above 80.
\<close>

definition jobs_of :: "in_addr \<Rightarrow> RequestInfo list \<Rightarrow> nat" where
  "jobs_of ip rqs = length (filter (\<lambda>rq. arp_spa (rq_request rq) = ip) rqs)"

definition second_inv :: "int \<Rightarrow> in_addr \<Rightarrow> nat \<Rightarrow> sentinel \<Rightarrow> bool" where
  "second_inv t ip n s \<longleftrightarrow> dos_inv t (st_dos s) \<and> answers_within (dos_abs (st_dos s) ip) t n (jobs_of ip (st_pipe s))"

lemma isDOS_high: "\<not> isDOS r c \<Longrightarrow> unat c \<le> 80"
  by (auto simp: isDOS_def parameter_defs word_less_nat_alt)

lemma handler_second:
  assumes "handler_post R h ip' P s s'" "vector_lib (re_dos_vec R)" "he_time h = t" "second_inv t ip n s"
    "\<And>rq. P rq \<Longrightarrow> arp_spa (rq_request rq) = ip'"
  shows "second_inv t ip n s'"
proof (cases "st_dos s' = st_dos s \<and> st_pipe s' = st_pipe s")
  case True
  then show ?thesis using assms(4) by (simp add: second_inv_def)
next
  case False
  obtain dos c where r: "AntiDOS_registerIP (re_dos_vec R) t (st_dos s) ip' = (dos, c)" by fastforce
  then have h: "st_dos s' = dos" "st_pipe s' = st_pipe s \<or> unat c \<le> 80 \<and> (\<exists>rq. P rq \<and> st_pipe s' = st_pipe s @ [rq])"
    using assms(1,3) False by (auto simp: handler_post_def dest: isDOS_high)
  note lib = dos_counter[OF assms(2)]
  have i: "dos_inv t (st_dos s)" and w: "answers_within (dos_abs (st_dos s) ip) t n (jobs_of ip (st_pipe s))"
    using assms(4) by (simp_all add: second_inv_def)
  have "jobs_of ip (st_pipe s') = jobs_of ip (st_pipe s) \<or> jobs_of ip (st_pipe s') = jobs_of ip (st_pipe s) + 1 \<and> ip = ip' \<and> unat c \<le> 80"
    using h(2) assms(5) by (auto simp: jobs_of_def split: if_splits)
  from request_counter.within_register[OF lib i r w this] request_counter.register_inv[OF lib i r]
  show ?thesis unfolding second_inv_def h(1) by blast
qed

definition round_in_second :: "int \<Rightarrow> round_env \<Rightarrow> bool" where
  "round_in_second t R \<longleftrightarrow> round_env_ok R \<and> re_dos_time R = t \<and> he_time (re_to R) = t \<and> he_time (re_from R) = t"

lemma handle_request_second:
  assumes "handle_request dir R msg s = Inr s'" "round_in_second t R" "bl_state_ok (st_bl s)" "second_inv t ip n s"
  shows "second_inv t ip n s'"
proof -
  have R: "round_env_ok R" "vector_lib (re_dos_vec R)" "he_time (re_to R) = t" "he_time (re_from R) = t"
    using assms(2) by (auto simp: round_in_second_def round_env_ok_def)
  have k: "job_to V h l msg rq \<Longrightarrow> arp_spa (rq_request rq) = arp_spa (msg_data msg)"
    "job_from V h l msg rq \<Longrightarrow> arp_spa (rq_request rq) = arp_spa (msg_data msg)" for V h l rq
    by (auto simp: job_to_def job_from_def)
  obtain s1 s2 where s1: "update_post s s1"
    and s2: "if dir \<noteq> dirFROM then handler_post R (re_to R) (arp_spa (msg_data msg)) (job_to (re_ip_vec R) (re_to R) (bs_list (st_bl s1)) msg) s1 s2 else s2 = s1"
    and s3: "if dir \<noteq> dirTO then handler_post R (re_from R) (arp_spa (msg_data msg)) (job_from (re_ip_vec R) (re_from R) (bs_list (st_bl s2)) msg) s2 s' else s' = s2"
    using handle_requestE[OF assms(1) R(1) assms(3)] by blast
  have i1: "second_inv t ip n s1" using s1 assms(4) by (simp add: update_post_def second_inv_def)
  have i2: "second_inv t ip n s2" using s2 handler_second[OF _ R(2,3) i1] k(1) i1 by (auto split: if_splits)
  show ?thesis using s3 handler_second[OF _ R(2,4) i2] k(2) i2 by (auto split: if_splits)
qed

lemma round_second:
  assumes "run_round dir s R = Inr s'" "round_in_second t R" "bl_state_ok (st_bl s)" "ip \<noteq> NO_IP" "second_inv t ip n s"
  shows "second_inv t ip n s'"
proof -
  let ?s = "s\<lparr>st_dos := AntiDOS_update (re_dos_vec R) (re_dos_time R) (st_dos s), st_recv_errors := 0\<rparr>"
  have v: "vector_lib (re_dos_vec R)" and t: "re_dos_time R = t" using assms(2) by (simp_all add: round_in_second_def round_env_ok_def)
  note lib = dos_counter[OF v]
  have d: "dos_inv t (st_dos s)" using assms(5) by (simp add: second_inv_def)
  have i: "second_inv t ip n (?s\<lparr>st_recv_errors := c\<rparr>)" for c
    using assms(5) request_counter.expire_inv[OF lib d] request_counter.within_expire[OF lib d assms(4)] by (simp add: second_inv_def t)
  have i0: "second_inv t ip n ?s" using i[of 0] by simp
  show ?thesis
  proof (cases "re_recv R")
    case None
    then show ?thesis using assms(1) i by (auto simp: run_round_def Let_def split: if_splits)
  next
    case (Some x)
    then show ?thesis
      using assms(1) i0 handle_request_second[OF _ assms(2) _ i0] assms(3)
      by (cases x) (auto simp: run_round_def Let_def split: if_splits)
  qed
qed

lemma rounds_second:
  assumes "foldR (run_round dir) s Rs = Inr s'" "\<forall>R\<in>set Rs. round_in_second t R" "sentinel_inv args t s" "ip \<noteq> NO_IP" "second_inv t ip n s"
  shows "second_inv t ip n s'"
  using assms
proof (induction Rs arbitrary: s)
  case (Cons R Rs)
  obtain s1 where s1: "run_round dir s R = Inr s1" "foldR (run_round dir) s1 Rs = Inr s'" using Cons.prems(1) by (auto elim!: bindR_InrE)
  have R: "round_in_second t R" using Cons.prems(2) by simp
  have "bl_state_ok (st_bl s)" using Cons.prems(3) by (simp add: sentinel_inv_def)
  then have "second_inv t ip n s1" using round_second[OF s1(1) R _ Cons.prems(4,5)] by simp
  moreover have "sentinel_inv args t s1"
    using round_inv[OF s1(1) _ Cons.prems(3)] R by (simp add: round_in_second_def)
  ultimately show ?case using Cons.IH[OF s1(2)] Cons.prems(2,4) by simp
qed simp

lemma dos_ramp_count:
  assumes "20 < n" "n \<le> 80"
  shows "card {r\<in>{0..<60}. isDOS (int r) (of_nat n)} = n - 20"
proof -
  have "isDOS (int r) (of_nat n) \<longleftrightarrow> 80 - n \<le> r" if "r < 60" for r
  proof -
    have n: "unat (of_nat n :: u32) = n" using assms by (simp add: unat_of_nat)
    have "unat (80 - of_nat n :: u32) = 80 - n" using assms n by (subst unat_sub) (auto simp: word_le_nat_alt)
    moreover have "unat ((of_nat r :: u32) mod 60) = r" using that by (simp add: unat_mod unat_of_nat)
    ultimately show ?thesis using assms n by (simp add: isDOS_def parameter_defs word_le_nat_alt word_less_nat_alt)
  qed
  then have "{r\<in>{0..<60}. isDOS (int r) (of_nat n)} = {80 - n..<60}" by auto
  then show ?thesis using assms by simp
qed

lemma isDOS_low: "c \<le> 20 \<Longrightarrow> \<not> isDOS r c"
  by (auto simp: isDOS_def parameter_defs word_less_nat_alt word_le_nat_alt)

lemma update_unchanged:
  assumes "ue_stat U = Some (bl_last_mtime (bs_list b))" "bs_error_count b = 0"
  shows "BlackList_softUpdate U b = Inr (b, 0, [])"
  using assms by (simp add: BlackList_softUpdate_def softUpdate_open_def)

section \<open>Properties\<close>

text \<open>
  C2: the process answers for listed addresses only. Whatever a round receives and whatever the environment does, the
  round adds at most two jobs to the pipe; each of them is about the received ARP request, in an enabled
  direction, and the MAC address it carries is the one of an entry of the current list for that address or for a network that
  contains it; a sender 0.0.0.0 never counts as an intruder. (A list that was not loaded completely keeps no order; then only the kind of the jobs is known.)
\<close>

theorem jobs_are_authorised:
  assumes "run_round dir s R = Inr s'" and "round_env_ok R" and "bl_state_ok (st_bl s)"
  shows "\<exists>new. st_pipe s' = st_pipe s @ new \<and> length new \<le> 2
     \<and> (\<forall>rq\<in>set new. known_type rq \<and> (\<exists>proto msg. re_recv R = Some (proto, msg) \<and> htons proto = 0x0806 \<and> htons (ar_op (msg_data msg)) = 1
          \<and> (bs_error_count (st_bl s') = 0 \<longrightarrow> authorised dir (bs_list (st_bl s')) msg rq)))"
  using round_jobs[OF assms] .

definition example_handler :: "int \<Rightarrow> handler_env" where
  "example_handler t = \<lparr>he_mac_time = t, he_mac_rand = 7, he_time = t, he_rand = 0, he_write = 48\<rparr>"

text \<open>A request of 10.0.0.9 for 10.0.0.1, and a round that receives it.\<close>

definition example_message :: ArpMessage where
  "example_message = zero_message\<lparr>msg_data := zero_arp\<lparr>ar_op := htons 1, arp_sha := [2, 0, 0, 0, 0, 9],
     arp_spa := 0x0900000A, arp_tpa := 0x0100000A\<rparr>\<rparr>"

definition example_round :: "int \<Rightarrow> int \<Rightarrow> round_env" where
  "example_round t mtime = \<lparr>re_dos_vec = list_vector dos_null, re_dos_time = t, re_recv = Some (htons 0x0806, example_message),
     re_update = example_update_env (Some mtime) (Some (example_file [''10.0.0.1 2:0:0:0:0:8''] [])),
     re_to = example_handler t, re_from = example_handler t\<rparr>"

text \<open>The options of a process whose interface has the address 2:0:0:0:0:1.\<close>

definition example_args :: Arguments where
  "example_args = default_arguments\<lparr>a_chroot := Some ''/home'', a_llmac := \<lparr>tm_type = mcFIXED, tm_ether = [2, 0, 0, 0, 0, 1]\<rparr>\<rparr>"

text \<open>The process has loaded the list \<open>10.0.0.1 2:0:0:0:0:8\<close>.\<close>

definition example_loaded :: sentinel where
  "example_loaded = \<lparr>st_dos = \<lparr>dos_min_time = 0, dos_data = []\<rparr>,
     st_bl = \<lparr>bs_list = \<lparr>bl_ip_list = [\<lparr>ip_v = \<lparr>b_ip = 0x0100000A, b_status = blSET, b_mac = [2, 0, 0, 0, 0, 8],
                 b_atmac = \<lparr>am_mac = replicate 6 0, am_status = amNONE\<rparr>\<rparr>\<rparr>],
               bl_net_list = [], bl_last_mtime = 5, bl_args = example_args\<rparr>, bs_error_count = 0\<rparr>,
     st_send_errors = 0, st_recv_errors = 0, st_oversize_sleep = 1, st_do_reload = False, st_pipe = [],
     st_out = [(1, ''@00''), (1, '': (Re)reading blacklist.'' @ [NL])], st_slept = 0\<rparr>"

definition example_job :: RequestInfo where
  "example_job = \<lparr>rq_request = msg_data example_message, rq_mac = [2, 0, 0, 0, 0, 8], rq_type = jobDST, rq_poison_f = False,
     rq_poison_v = replicate 6 0\<rparr>"

definition example_answered :: sentinel where
  "example_answered = example_loaded\<lparr>st_dos := \<lparr>dos_min_time = 100, dos_data = [\<lparr>d_ip = 0x0900000A, d_access_time = 100, d_counter = 1\<rparr>]\<rparr>,
     st_pipe := [example_job]\<rparr>"

lemma example_round_ok: "round_env_ok (example_round t m)" and example_dos_vec: "re_dos_vec (example_round t m) = list_vector dos_null"
  by (simp_all add: round_env_ok_def example_round_def list_vector_lib example_update_env_ok example_message_def wf_message_def wf_mac_def
      zero_message_def zero_arp_def)

lemma example_start: "run_start (re_update (example_round 100 5)) (list_vector dos_null) example_args = Inr example_loaded"
  by code_simp

text \<open>A round of the example without older counters answers the request.\<close>

lemma example_round_answers:
  assumes "AntiDOS_update (list_vector dos_null) t (st_dos s) = \<lparr>dos_min_time = t, dos_data = []\<rparr>"
    "st_bl s = st_bl example_loaded" "\<not> st_do_reload s"
  shows "run_round dirBOTH s (example_round t 5) = Inr (s\<lparr>
     st_dos := \<lparr>dos_min_time = t, dos_data = [\<lparr>d_ip = 0x0900000A, d_access_time = t, d_counter = 1\<rparr>]\<rparr>,
     st_recv_errors := 0, st_send_errors := 0, st_oversize_sleep := 1, st_pipe := st_pipe s @ [example_job]\<rparr>)"
proof -
  let ?R = "example_round t 5"
  let ?h = "example_handler t"
  have R: "re_recv ?R = Some (htons 0x0806, example_message)" "re_dos_vec ?R = list_vector dos_null" "re_dos_time ?R = t"
    "re_to ?R = ?h" "re_from ?R = ?h" "re_ip_vec ?R = re_ip_vec (example_round 0 0)"
    by (simp_all add: example_round_def example_update_env_def)
  have r: "htons (htons 0x0806) = 0x0806" "htons (ar_op (msg_data example_message)) = 1" by code_simp+
  let ?s = "s\<lparr>st_dos := \<lparr>dos_min_time = t, dos_data = []\<rparr>, st_recv_errors := 0\<rparr>"
  have "BlackList_softUpdate (re_update ?R) (st_bl ?s) = Inr (st_bl ?s, 0, [])"
    by (rule update_unchanged) (simp_all add: example_round_def example_update_env_def assms(2) example_loaded_def)
  then have s: "run_update ?R ?s = Inr ?s" using assms(3) by (simp add: run_update_def)
  let ?q = "\<lambda>ip mac. \<lparr>q_result_buffer = replicate 6 0, q_ip = ip, q_mac = mac, q_poison_mac = None\<rparr>"
  have g: "BlackList_getMac (re_ip_vec (example_round 0 0)) t' 7 (bs_list (st_bl example_loaded)) (?q 0x0100000A None)
      = Inr ((?q 0x0100000A None)\<lparr>q_result_buffer := [2, 0, 0, 0, 0, 8]\<rparr>, Some [2, 0, 0, 0, 0, 8])"
    "BlackList_getMac (re_ip_vec (example_round 0 0)) t' 7 (bs_list (st_bl example_loaded)) (?q 0x0900000A (Some [2, 0, 0, 0, 0, 9]))
      = Inr (?q 0x0900000A (Some [2, 0, 0, 0, 0, 9]), None)" for t' by code_simp+
  have m: "arp_tpa (msg_data example_message) = 0x0100000A" "arp_spa (msg_data example_message) = 0x0900000A"
    "arp_sha (msg_data example_message) = [2, 0, 0, 0, 0, 9]" by (simp_all add: example_message_def)
  have d: "AntiDOS_registerIP (list_vector dos_null) t \<lparr>dos_min_time = t, dos_data = []\<rparr> 0x0900000A
      = (\<lparr>dos_min_time = t, dos_data = [\<lparr>d_ip = 0x0900000A, d_access_time = t, d_counter = 1\<rparr>]\<rparr>, 1)"
    by (simp add: AntiDOS_registerIP_def list_vector_def list_search_def list_insert_def)
  have o: "\<not> AntiDOS_isOversized \<lparr>dos_min_time = t, dos_data = []\<rparr>" "he_write ?h = sizeof_RequestInfo" "he_time ?h = t" "he_mac_rand ?h = 7"
    "\<not> isDOS (he_rand ?h) 1"
    by (simp_all add: AntiDOS_isOversized_def parameter_defs example_handler_def sizeof_RequestInfo_def isDOS_low)
  show ?thesis
    using assms by (simp add: run_round_def Let_def R r handle_request_def s generateJobToIntruder_def generateJobFromIntruder_def g m d o
        Worker_sendJob_def example_job_def)
qed

lemma example_first_round: "run_round dirBOTH example_loaded (example_round 100 5) = Inr example_answered"
proof -
  have "AntiDOS_update (list_vector dos_null) 100 (st_dos example_loaded) = \<lparr>dos_min_time = 100, dos_data = []\<rparr>" by code_simp
  from example_round_answers[OF this] show ?thesis by (simp add: example_answered_def example_loaded_def)
qed

lemma example_run: "main_run (list_vector dos_null) example_args 100 example_loaded"
  by (rule main_start[OF example_start]) (simp_all add: example_round_def example_update_env_ok list_vector_lib default_ok_def wf_mac_def example_args_def default_arguments_def)

lemma example_loaded_ok: "bl_state_ok (st_bl example_loaded)"
  using main_run_inv[OF example_run] by (simp add: sentinel_inv_def)

theorem jobs_are_authorised_witness:
  "st_pipe example_answered = [example_job] \<and> authorised dirBOTH (bs_list (st_bl example_answered)) example_message example_job"
  using jobs_are_authorised[OF example_first_round example_round_ok example_loaded_ok]
  by (simp add: example_round_def example_answered_def example_loaded_def)

text \<open>
  C5: in every state the process reaches while the clock does not go back, whatever it receives and
  however the file changes, the counters are sorted by address and lie between 1 and 1001, with times of the past; the entries of the blacklist are
  well-formed and sorted unless a load failed; at most six failures are counted; the pause for too many
  senders is between one and ten seconds; and all jobs in the pipe are of a kind the worker knows.
\<close>

theorem main_invariant:
  assumes "main_run V args t s"
  shows "dos_sorted (dos_data (st_dos s))
    \<and> (\<forall>d\<in>set (dos_data (st_dos s)). 1 \<le> uint (d_counter d) \<and> uint (d_counter d) \<le> 1001 \<and> d_access_time d \<le> t)
    \<and> bl_wf (bs_list (st_bl s)) \<and> (bs_error_count (st_bl s) = 0 \<longrightarrow> bl_sorted (bs_list (st_bl s)))
    \<and> bs_error_count (st_bl s) \<le> 6 \<and> bl_args (bs_list (st_bl s)) = args
    \<and> 1 \<le> st_oversize_sleep s \<and> st_oversize_sleep s \<le> 10
    \<and> (\<forall>rq\<in>set (st_pipe s). known_type rq)"
proof -
  note i = main_run_inv[OF assms, unfolded sentinel_inv_def]
  then have so: "dos_sorted (dos_data (st_dos s))" by (simp add: dos_inv_def)
  have "\<forall>d\<in>set (dos_data (st_dos s)). 1 \<le> uint (d_counter d) \<and> uint (d_counter d) \<le> 1001 \<and> d_access_time d \<le> t"
    using i dos_abs_fresh[OF so] by (fastforce simp: dos_inv_def entry_ok_def)
  with so i show ?thesis by (simp add: bl_state_ok_def parameter_defs)
qed

theorem main_invariant_witness:
  "bl_sorted (bs_list (st_bl example_answered)) \<and> known_type example_job \<and> st_oversize_sleep example_answered \<le> 10"
proof -
  have "main_run (list_vector dos_null) example_args (he_time (re_from (example_round 100 5))) example_answered"
    by (rule main_round[OF example_run example_round_ok example_dos_vec])
      (use example_first_round in \<open>simp_all add: example_round_def example_handler_def example_args_def default_arguments_def\<close>)
  from main_invariant[OF this] show ?thesis by (simp add: example_answered_def example_loaded_def)
qed

text \<open>
  C6: however fast one sender asks, at most 80 jobs for its requests are written within one second of
  the clock, over any number of rounds and whatever others send in between. (The broadcast address is the mark of the expiry
  pass, so that it is not counted reliably.)
\<close>

theorem burst_limited:
  assumes "main_run V args t0 s" and "t0 \<le> t" and "foldR (run_round (a_arp_dir args)) s Rs = Inr s'"
    and "\<forall>R\<in>set Rs. round_in_second t R" and "ip \<noteq> NO_IP"
  shows "jobs_of ip (st_pipe s') \<le> jobs_of ip (st_pipe s) + 80"
proof -
  have i: "sentinel_inv args t s" by (rule sentinel_inv_mono[OF main_run_inv[OF assms(1)] assms(2)])
  then have "second_inv t ip (jobs_of ip (st_pipe s)) s" by (simp add: second_inv_def sentinel_inv_def answers_within_def)
  from rounds_second[OF assms(3,4) i assms(5) this] show ?thesis unfolding second_inv_def by (blast dest: answers_within_limit)
qed

theorem burst_limited_witness: "jobs_of 0x0900000A (st_pipe example_answered) \<le> 80"
proof -
  have "foldR (run_round (a_arp_dir example_args)) example_loaded [example_round 100 5] = Inr example_answered"
    using example_first_round by (simp add: example_args_def default_arguments_def)
  from burst_limited[OF example_run _ this, of 100 "0x0900000A"] show ?thesis
    using example_round_ok
    by (simp add: round_in_second_def example_round_def example_handler_def NO_IP_def jobs_of_def example_loaded_def)
qed

text \<open>
  The share of requests that are dropped grows as documented. Of the 60 residues of the random number none leads to a drop while the counter
  is at most 20, all do above 80, and in between their number grows by one with every request.
\<close>

theorem dos_ramp:
  assumes "n < 2 ^ 32"
  shows "card {r\<in>{0..<60}. isDOS (int r) (of_nat n)} = (if n \<le> 20 then 0 else if n \<le> 80 then n - 20 else 60)"
proof -
  have n: "unat (of_nat n :: u32) = n" using assms by (simp add: unat_of_nat)
  have "isDOS r (of_nat n) \<longleftrightarrow> False" if "n \<le> 20" for r using that n by (simp add: isDOS_def parameter_defs word_less_nat_alt)
  moreover have "isDOS r (of_nat n) \<longleftrightarrow> True" if "80 < n" for r using that n by (simp add: isDOS_def parameter_defs word_less_nat_alt)
  ultimately show ?thesis using dos_ramp_count[of n] by auto
qed

theorem dos_ramp_witness: "card {r\<in>{0..<60}. isDOS (int r) 50} = 30"
  using dos_ramp[of 50] by simp

text \<open>
  The jobs a request calls for: one about the requested address and one about the sender, each when its direction is enabled and the
  first entry with a verdict gives an address; the sender 0.0.0.0 never counts.
\<close>

definition target_jobs :: "direction \<Rightarrow> round_env \<Rightarrow> BlackList \<Rightarrow> ether_arp \<Rightarrow> RequestInfo list" where
  "target_jobs dir R lst d =
     (case answer_mac (he_mac_time (re_to R)) (he_mac_rand (re_to R)) (first_verdict None (candidates (re_ip_vec R) lst (arp_tpa d))) of
        Some mac \<Rightarrow> if dir = dirFROM then [] else [\<lparr>rq_request = d, rq_mac = mac, rq_type = jobDST, rq_poison_f = False, rq_poison_v = replicate 6 0\<rparr>]
      | None \<Rightarrow> [])"

definition sender_jobs :: "direction \<Rightarrow> round_env \<Rightarrow> BlackList \<Rightarrow> ether_arp \<Rightarrow> RequestInfo list" where
  "sender_jobs dir R lst d =
     (let v = first_verdict (Some (arp_sha d)) (candidates (re_ip_vec R) lst (arp_spa d)) in
      case answer_mac (he_mac_time (re_from R)) (he_mac_rand (re_from R)) v of
        Some mac \<Rightarrow> if dir = dirTO \<or> arp_spa d = 0 then [] else
          [\<lparr>rq_request = d, rq_mac = mac, rq_type = jobSRC, rq_poison_f = (poison_of v None \<noteq> None),
            rq_poison_v = (case poison_of v None of Some m \<Rightarrow> m | None \<Rightarrow> replicate 6 0)\<rparr>]
      | None \<Rightarrow> [])"

text \<open>The counters after a request of \<open>ip\<close> was counted for each job, and the condition under which no request is dropped.\<close>

definition counted :: "round_env \<Rightarrow> handler_env \<Rightarrow> in_addr \<Rightarrow> RequestInfo list \<Rightarrow> AntiDOS \<Rightarrow> AntiDOS" where
  "counted R h ip rqs dos = (if rqs = [] then dos else fst (AntiDOS_registerIP (re_dos_vec R) (he_time h) dos ip))"

definition admitted :: "round_env \<Rightarrow> handler_env \<Rightarrow> in_addr \<Rightarrow> AntiDOS \<Rightarrow> bool" where
  "admitted R h ip dos \<longleftrightarrow> \<not> AntiDOS_isOversized dos \<and> snd (AntiDOS_registerIP (re_dos_vec R) (he_time h) dos ip) \<le> 20
     \<and> he_write h = sizeof_RequestInfo"

text \<open>The state after jobs were written.\<close>

definition with_jobs :: "AntiDOS \<Rightarrow> RequestInfo list \<Rightarrow> sentinel \<Rightarrow> sentinel" where
  "with_jobs dos rqs s = s\<lparr>st_dos := dos, st_send_errors := (if rqs = [] then st_send_errors s else 0),
     st_oversize_sleep := (if rqs = [] then st_oversize_sleep s else 1), st_pipe := st_pipe s @ rqs\<rparr>"

lemma to_admitted:
  assumes "vector_lib (re_ip_vec R)" "bl_wf (bs_list (st_bl s))" "bl_sorted (bs_list (st_bl s))" "dir \<noteq> dirFROM"
    and "admitted R (re_to R) (arp_spa (msg_data msg)) (st_dos s)"
  shows "generateJobToIntruder R (re_to R) msg s
    = Inr (let rqs = target_jobs dir R (bs_list (st_bl s)) (msg_data msg) in with_jobs (counted R (re_to R) (arp_spa (msg_data msg)) rqs (st_dos s)) rqs s)"
proof -
  let ?q = "\<lparr>q_result_buffer = replicate 6 0, q_ip = arp_tpa (msg_data msg), q_mac = None, q_poison_mac = None\<rparr>"
  note g = getMac_wf[OF assms(1-3), of "he_mac_time (re_to R)" "he_mac_rand (re_to R)" ?q, simplified]
  show ?thesis using g assms(4,5)
    by (auto simp: generateJobToIntruder_def Let_def target_jobs_def with_jobs_def counted_def admitted_def Worker_sendJob_def isDOS_low
        split: option.split prod.split)
qed

lemma from_admitted:
  assumes "vector_lib (re_ip_vec R)" "bl_wf (bs_list (st_bl s))" "bl_sorted (bs_list (st_bl s))" "dir \<noteq> dirTO"
    and "admitted R (re_from R) (arp_spa (msg_data msg)) (st_dos s)"
  shows "generateJobFromIntruder R (re_from R) msg s
    = Inr (let rqs = sender_jobs dir R (bs_list (st_bl s)) (msg_data msg) in with_jobs (counted R (re_from R) (arp_spa (msg_data msg)) rqs (st_dos s)) rqs s)"
proof -
  let ?q = "\<lparr>q_result_buffer = replicate 6 0, q_ip = arp_spa (msg_data msg), q_mac = Some (arp_sha (msg_data msg)), q_poison_mac = None\<rparr>"
  let ?v = "first_verdict (Some (arp_sha (msg_data msg))) (candidates (re_ip_vec R) (bs_list (st_bl s)) (arp_spa (msg_data msg)))"
  obtain q' where g: "BlackList_getMac (re_ip_vec R) (he_mac_time (re_from R)) (he_mac_rand (re_from R)) (bs_list (st_bl s)) ?q
      = Inr (q', answer_mac (he_mac_time (re_from R)) (he_mac_rand (re_from R)) ?v)" "q_poison_mac q' = poison_of ?v None"
    using getMac_wf[OF assms(1-3), of "he_mac_time (re_from R)" "he_mac_rand (re_from R)" ?q] by auto
  have "q_ip q' = arp_spa (msg_data msg)" using getMac_ip[OF g(1)] by simp
  then show ?thesis using g assms(4,5)
    by (auto simp: generateJobFromIntruder_def Let_def sender_jobs_def with_jobs_def counted_def admitted_def Worker_sendJob_def isDOS_low
        split: option.split prod.split)
qed

lemma no_target_jobs: "target_jobs dirFROM R lst d = []" and no_sender_jobs: "sender_jobs dirTO R lst d = []"
  by (simp_all add: target_jobs_def sender_jobs_def Let_def split: option.split)

text \<open>
  C9: a request is answered for all listed addresses it concerns, in every direction. If the loaded list is up to date, the counter table is not
  oversized, the sender is at its twentieth request or below and the pipe takes the jobs, then the round returns; it writes
  one job for the requested address if its direction is enabled and the first entry with a verdict gives an address, and after it one for
  the sender likewise, with the poison address of its entry; it writes nothing else, counts a request of the sender for each job, and resets the error
  counter and the pause if it has written a job.
\<close>

theorem request_is_answered:
  assumes "round_env_ok R" and "bl_state_ok (st_bl s)"
    and "re_recv R = Some (proto, msg)" and "htons proto = 0x0806" and "htons (ar_op (msg_data msg)) = 1"
    and "\<not> st_do_reload s" and "bs_error_count (st_bl s) = 0" and "ue_stat (re_update R) = Some (bl_last_mtime (bs_list (st_bl s)))"
    and "tos = target_jobs dir R (bs_list (st_bl s)) (msg_data msg)" and "froms = sender_jobs dir R (bs_list (st_bl s)) (msg_data msg)"
    and "dos1 = AntiDOS_update (re_dos_vec R) (re_dos_time R) (st_dos s)" and "dos2 = counted R (re_to R) (arp_spa (msg_data msg)) tos dos1"
    and "admitted R (re_to R) (arp_spa (msg_data msg)) dos1" and "admitted R (re_from R) (arp_spa (msg_data msg)) dos2"
  shows "run_round dir s R = Inr (s\<lparr>st_dos := counted R (re_from R) (arp_spa (msg_data msg)) froms dos2, st_recv_errors := 0,
     st_send_errors := (if tos @ froms = [] then st_send_errors s else 0),
     st_oversize_sleep := (if tos @ froms = [] then st_oversize_sleep s else 1),
     st_pipe := st_pipe s @ tos @ froms\<rparr>)"
proof -
  let ?s = "s\<lparr>st_dos := dos1, st_recv_errors := 0\<rparr>"
  have V: "vector_lib (re_ip_vec R)" using assms(1) by (simp add: round_env_ok_def update_env_ok_def env_ok_def)
  have b: "bl_wf (bs_list (st_bl s))" "bl_sorted (bs_list (st_bl s))" using assms(2,7) by (simp_all add: bl_state_ok_def)
  have u: "run_update R ?s = Inr ?s"
    using update_unchanged[OF assms(8,7)] assms(6) by (simp add: run_update_def)
  have t: "(if dir \<noteq> dirFROM then generateJobToIntruder R (re_to R) msg ?s else Inr ?s) = Inr (with_jobs dos2 tos ?s)"
    using to_admitted[OF V, of ?s dir msg] b assms(9,12,13) by (simp add: no_target_jobs with_jobs_def counted_def)
  have f: "(if dir \<noteq> dirTO then generateJobFromIntruder R (re_from R) msg (with_jobs dos2 tos ?s) else Inr (with_jobs dos2 tos ?s))
      = Inr (with_jobs (counted R (re_from R) (arp_spa (msg_data msg)) froms dos2) froms (with_jobs dos2 tos ?s))"
    using from_admitted[OF V, of "with_jobs dos2 tos ?s" dir msg] b assms(10,14) by (simp add: no_sender_jobs with_jobs_def counted_def)
  have "handle_request dir R msg ?s = Inr (with_jobs (counted R (re_from R) (arp_spa (msg_data msg)) froms dos2) froms (with_jobs dos2 tos ?s))"
    by (simp only: handle_request_def u t f bindR.simps)
  then show ?thesis using assms(3-5,11) by (simp add: run_round_def Let_def with_jobs_def)
qed

text \<open>With a list of both addresses both jobs are written, in the order of the directions.\<close>

definition example_both :: sentinel where
  "example_both = example_loaded\<lparr>st_bl := \<lparr>bs_list = (bs_list (st_bl example_loaded))\<lparr>bl_ip_list :=
     [\<lparr>ip_v = \<lparr>b_ip = 0x0100000A, b_status = blSET, b_mac = [2, 0, 0, 0, 0, 8], b_atmac = \<lparr>am_mac = replicate 6 0, am_status = amNONE\<rparr>\<rparr>\<rparr>,
      \<lparr>ip_v = \<lparr>b_ip = 0x0900000A, b_status = blSET, b_mac = [2, 0, 0, 0, 0, 7], b_atmac = \<lparr>am_mac = replicate 6 0, am_status = amNONE\<rparr>\<rparr>\<rparr>]\<rparr>,
     bs_error_count = 0\<rparr>\<rparr>"

theorem request_is_answered_witness:
  "\<exists>s' rq. run_round dirBOTH example_both (example_round 100 5) = Inr s' \<and> st_pipe s' = [example_job, rq] \<and> rq_type rq = jobSRC
     \<and> rq_mac rq = [2, 0, 0, 0, 0, 7] \<and> rq_request rq = msg_data example_message"
proof -
  let ?R = "example_round 100 5"
  let ?dos = "AntiDOS_update (re_dos_vec ?R) (re_dos_time ?R) (st_dos example_both)"
  let ?to = "target_jobs dirBOTH ?R (bs_list (st_bl example_both)) (msg_data example_message)"
  have b: "bl_state_ok (st_bl example_both)"
    using example_loaded_ok by (simp add: bl_state_ok_def bl_wf_def bl_sorted_def example_both_def example_loaded_def base_wf_def wf_mac_def IPData_sortCompare_le) code_simp
  have h: "htons (htons 0x0806) = 0x0806" "htons (ar_op (msg_data example_message)) = 1" by code_simp+
  have c: "candidates (re_ip_vec (example_round 0 0)) (bs_list (st_bl example_both)) 0x0100000A = [ip_v (bl_ip_list (bs_list (st_bl example_both)) ! 0)]"
    "candidates (re_ip_vec (example_round 0 0)) (bs_list (st_bl example_both)) 0x0900000A = [ip_v (bl_ip_list (bs_list (st_bl example_both)) ! 1)]" by code_simp+
  have r: "re_ip_vec ?R = re_ip_vec (example_round 0 0)" by (simp add: example_round_def example_update_env_def)
  have j: "?to = [example_job]"
    "sender_jobs dirBOTH ?R (bs_list (st_bl example_both)) (msg_data example_message)
      = [example_job\<lparr>rq_mac := [2, 0, 0, 0, 0, 7], rq_type := jobSRC\<rparr>]"
    unfolding target_jobs_def sender_jobs_def r
    by (simp_all add: example_message_def c) (simp_all add: example_both_def verdict_of_def example_job_def example_message_def)
  let ?entry = "\<lambda>n. \<lparr>d_ip = 0x0900000A, d_access_time = 100, d_counter = n\<rparr>"
  have d: "?dos = \<lparr>dos_min_time = 100, dos_data = []\<rparr>"
    "AntiDOS_registerIP (list_vector dos_null) 100 \<lparr>dos_min_time = 100, dos_data = []\<rparr> 0x0900000A = (\<lparr>dos_min_time = 100, dos_data = [?entry 1]\<rparr>, 1)"
    "AntiDOS_registerIP (list_vector dos_null) 100 \<lparr>dos_min_time = 100, dos_data = [?entry 1]\<rparr> 0x0900000A = (\<lparr>dos_min_time = 100, dos_data = [?entry 2]\<rparr>, 2)"
    by code_simp+
  have e: "re_dos_vec ?R = list_vector dos_null" "re_to ?R = example_handler 100" "re_from ?R = example_handler 100"
    "he_time (example_handler 100) = 100" "he_write (example_handler 100) = sizeof_RequestInfo" "arp_spa (msg_data example_message) = 0x0900000A"
    by (simp_all add: example_round_def example_handler_def sizeof_RequestInfo_def example_message_def)
  have a: "admitted ?R (re_to ?R) (arp_spa (msg_data example_message)) ?dos"
     "admitted ?R (re_from ?R) (arp_spa (msg_data example_message)) (counted ?R (re_to ?R) (arp_spa (msg_data example_message)) ?to ?dos)"
    unfolding j(1) d(1) by (simp_all add: admitted_def counted_def e d AntiDOS_isOversized_def parameter_defs)
  have "re_recv ?R = Some (htons 0x0806, example_message)" by (simp add: example_round_def)
  from request_is_answered[OF example_round_ok b this h _ _ _ refl refl refl refl a] j show ?thesis
    by (simp add: example_both_def example_loaded_def example_round_def example_update_env_def example_job_def)
qed

end
