(* ===== verification/Startup.thy ===== *)
theory Startup
  imports System_Calls Sentinel
begin

text \<open>
  The start of the program: \<open>src/src/ip-sentinel.c\<close> (the functions before \<open>run\<close>, and \<open>main\<close>) and \<open>Worker_init\<close>
  of \<open>src/src/worker.c\<close>, as programs that issue system calls.
\<close>

section \<open>User and group\<close>

text \<open>
  \<open>strtol\<close> gives the number of characters it consumed; the whole string is a number when this is its length. User and
  group numbers are 32-bit unsigned, \<open>-1\<close> stands for no group.
\<close>

definition find_user :: "os_env \<Rightarrow> Arguments \<Rightarrow> passwd option sys" where
  "find_user os arguments =
     (let (v, n) = strtol 0 (a_user arguments) in
      if a_user arguments \<noteq> [] \<and> n = length (a_user arguments) then returnS (os_getpwuid os (of_int v))
      else bindS (Egetpwnam os (a_user arguments)) (\<lambda>pw. returnS (Some pw)))"

definition find_group :: "os_env \<Rightarrow> Arguments \<Rightarrow> u32 \<Rightarrow> u32 sys" where
  "find_group os arguments gid =
     (case a_group arguments of
        None \<Rightarrow> returnS gid
      | Some grp \<Rightarrow>
          (let (v, n) = strtol 0 grp in
           if grp = [] \<or> n \<noteq> length grp then Egetgrnam os grp else returnS (of_int v)))"

definition adjustUserGroup :: "os_env \<Rightarrow> Arguments \<Rightarrow> (u32 \<times> u32 \<times> Arguments) sys" where
  "adjustUserGroup os arguments =
     bindS (find_user os arguments) (\<lambda>pw_user.
     let (uid, gid, arguments) =
           (case pw_user of
              None \<Rightarrow> (of_int (fst (strtol 0 (a_user arguments))), - 1, arguments)
            | Some pw \<Rightarrow> (pw_uid pw, pw_gid pw,
                if a_chroot arguments = None then arguments\<lparr>a_chroot := Some (pw_dir pw)\<rparr> else arguments)) in
     bindS (find_group os arguments gid) (\<lambda>gid.
     if gid = - 1
     then bindS (emitS os (Vwrite 2 (''Failed to determine gid; perhaps you should use the '' @ [CHR 0x27] @ ''-g'' @ [CHR 0x27]
                   @ '' option. Aborting...'' @ [NL]))) (\<lambda>_. stopS (Exit 1))
     else returnS (uid, gid, arguments)))"

section \<open>The daemon\<close>

text \<open>The file modes are octal 600 and 755.\<close>

definition write_pid :: "fmt_ops \<Rightarrow> os_env \<Rightarrow> int \<Rightarrow> int \<Rightarrow> unit sys" where
  "write_pid F os pid_fd daemon_pid =
     bindS (emitS os (writeUInt F pid_fd (nat (daemon_pid mod 2 ^ 32)))) (\<lambda>_.
     bindS (Ewrite os pid_fd [NL]) (\<lambda>_. returnS ()))"

text \<open>The part of \<open>daemonize\<close> from the fork on.\<close>

definition daemonize_tail :: "fmt_ops \<Rightarrow> os_env \<Rightarrow> Arguments \<Rightarrow> int \<Rightarrow> int \<Rightarrow> int \<Rightarrow> Arguments sys" where
  "daemonize_tail F os arguments err_fd out_fd pid_fd =
     bindS (if a_do_fork arguments then Efork os else returnS 0) (\<lambda>daemon_pid.
     bindS (if daemon_pid = 0 then returnS ()
            else bindS (write_pid F os pid_fd daemon_pid) (\<lambda>_. stopS (if daemon_pid = - 1 then AssertFail else Exit 0))) (\<lambda>_.
     bindS (if a_do_fork arguments then Esetsid os else returnS 0) (\<lambda>_.
     bindS (Edup2 os out_fd 1) (\<lambda>_.
     bindS (Edup2 os err_fd 2) (\<lambda>_.
     bindS (if pid_fd \<noteq> - 1 then Eclose os pid_fd else returnS ()) (\<lambda>_.
     bindS (Eclose os out_fd) (\<lambda>_.
     bindS (Eclose os err_fd) (\<lambda>_.
     bindS (SETCLOEXEC os 1) (\<lambda>_.
     bindS (SETCLOEXEC os 2) (\<lambda>_.
     returnS arguments))))))))))"

definition daemonize :: "fmt_ops \<Rightarrow> os_env \<Rightarrow> Arguments \<Rightarrow> Arguments sys" where
  "daemonize F os arguments =
     bindS (Eopen os (a_errfile arguments) [O_WRONLY, O_CREAT, O_APPEND, O_NONBLOCK] 384) (\<lambda>err_fd.
     bindS (Eopen os (a_logfile arguments) [O_WRONLY, O_CREAT, O_APPEND, O_NONBLOCK] 384) (\<lambda>out_fd.
     bindS (if \<not> a_do_fork arguments then returnS (- 1)
            else Eopen os (a_pidfile arguments) [O_WRONLY, O_CREAT, O_TRUNC] 493) (\<lambda>pid_fd.
     bindS (adjustUserGroup os arguments) (\<lambda>(uid, gid, arguments).
     bindS (case a_chroot arguments of
              None \<Rightarrow> returnS ()
            | Some dir \<Rightarrow> bindS (Echdir os dir) (\<lambda>_. Echroot os dir)) (\<lambda>_.
     bindS (Esetgroups os [gid]) (\<lambda>_.
     bindS (Esetgid os gid) (\<lambda>_.
     bindS (Esetuid os uid) (\<lambda>_.
     bindS (Eclose os 0) (\<lambda>_.
     bindS (Eopen os (a_ipfile arguments) [O_RDONLY] 0) (\<lambda>aux.
     bindS (Eclose os aux) (\<lambda>_.
     daemonize_tail F os arguments err_fd out_fd pid_fd)))))))))))"

section \<open>The network interface\<close>

text \<open>
  \<open>IFNAMSIZ\<close> (16) bytes are copied from the command line, whatever the length of the name. The requests are \<open>SIOCGIFINDEX\<close>
  (0x8933) and \<open>SIOCGIFHWADDR\<close> (0x8927); \<open>ARPHRD_ETHER\<close> is 1. The result is the index and the new
  value of \<open>local_mac_address\<close>.
\<close>

definition initIfaceInformation :: "os_env \<Rightarrow> int \<Rightarrow> string \<Rightarrow> (int \<times> ether_addr) sys" where
  "initIfaceInformation os fd iface_name =
     (let memory = iface_name @ NUL # os_argv_tail os; ifr_name = take 16 memory in
      if length memory < 16 then stopS OutOfBounds
      else bindS (Eioctl os fd 0x8933) (\<lambda>_.
        let ifidx = os_ifindex os ifr_name in
        if ifidx < 0
        then bindS (emitS os (Vwrite 2 (''No such interface '' @ [CHR 0x27]) @ Vwrite 2 iface_name @ Vwrite 2 [CHR 0x27, NL])) (\<lambda>_. stopS (Exit 1))
        else bindS (Eioctl os fd 0x8927) (\<lambda>_.
          let (sa_family, sa_data) = os_hwaddr os ifr_name in
          if sa_family = 1 then returnS (ifidx, take 6 sa_data)
          else bindS (emitS os (Vwrite 2 (''unsupported hardware-address (MAC) family of used interface'' @ [NL]))) (\<lambda>_. stopS (Exit 1)))))"

text \<open>\<open>PF_PACKET\<close> and \<open>AF_PACKET\<close> are 17, \<open>SOCK_RAW\<close> is 3, \<open>ETH_P_ARP\<close> is 0x0806.\<close>

definition generateSocket :: "os_env \<Rightarrow> string \<Rightarrow> (int \<times> int \<times> ether_addr) sys" where
  "generateSocket os iface =
     bindS (Esocket os 17 3 (uint (htons 0x0806))) (\<lambda>sock.
     bindS (SETCLOEXEC os sock) (\<lambda>_.
     bindS (initIfaceInformation os sock iface) (\<lambda>(idx, lm).
     bindS (Ebind os sock (zero_address\<lparr>sll_family := 17, sll_protocol := htons 0x0806, sll_ifindex := idx\<rparr>)) (\<lambda>_.
     returnS (sock, idx, lm)))))"

section \<open>The worker process\<close>

text \<open>
  The fork leaves two processes, each with its own copy of \<open>struct Worker\<close>: the child runs \<open>Worker_run\<close>, the
  parent returns.
\<close>

datatype process_role = MainProcess Worker | WorkerProcess Worker

definition Worker_init :: "os_env \<Rightarrow> Arguments \<Rightarrow> int \<Rightarrow> int \<Rightarrow> process_role sys" where
  "Worker_init os args sock if_idx =
     bindS (Epipe os) (\<lambda>(fd0, fd1).
     let worker = (\<lambda>fd. \<lparr>w_fd = fd, w_do_poison = a_do_poison args, w_sock = sock, w_if_idx = if_idx,
                         w_llmac = a_llmac args, w_action_cmd = a_action_cmd args\<rparr>) in
     bindS (SETCLOEXEC os fd0) (\<lambda>_.
     bindS (SETCLOEXEC os fd1) (\<lambda>_.
     bindS (Efork os) (\<lambda>pid.
     if pid = 0
     then bindS (Eclose os fd1) (\<lambda>_. bindS (Esignal os 17 SIG_IGN) (\<lambda>_. returnS (WorkerProcess (worker fd0))))
     else bindS (Eclose os fd0) (\<lambda>_. returnS (MainProcess (worker fd1)))))))"

text \<open>\<open>Worker_free\<close> exists only for the test suite; the result of \<open>close\<close> is ignored.\<close>

definition Worker_free :: "os_env \<Rightarrow> Worker \<Rightarrow> unit sys" where
  "Worker_free os worker = bindS (callS os (Sys_close (w_fd worker))) (\<lambda>_. returnS ())"

text \<open>
  The program up to the point where each process enters its loop. \<open>local_mac_address\<close> is zero at the start. The
  signal handler is installed by the main process only.
\<close>

definition main_program :: "fmt_ops \<Rightarrow> os_env \<Rightarrow> build_defaults \<Rightarrow> Arguments \<Rightarrow> bool \<Rightarrow> string list \<Rightarrow> (Arguments \<times> process_role) sys" where
  "main_program F os D uninit posix argv =
     bindS (outS os (parseOptions (replicate 6 0) D uninit posix argv)) (\<lambda>arguments.
     bindS (generateSocket os (a_iface arguments)) (\<lambda>(sock, if_idx, lm).
     bindS (daemonize F os arguments) (\<lambda>arguments.
     let arguments = Arguments_fixupOptions lm arguments in
     bindS (Worker_init os arguments sock if_idx) (\<lambda>role.
     bindS (case role of WorkerProcess w \<Rightarrow> returnS 0 | MainProcess w \<Rightarrow> callS os (Sys_signal 1 HandlerSigHup)) (\<lambda>_.
     returnS (arguments, role))))))"

section \<open>Privileges\<close>

text \<open>The identity of a process, and what the calls that change it do.\<close>

record creds =
  cr_uid :: u32
  cr_gid :: u32
  cr_groups :: "u32 list"
  cr_root :: "string option"

fun cred_step :: "creds \<Rightarrow> syscall \<Rightarrow> creds" where
  "cred_step c (Sys_setuid u) = c\<lparr>cr_uid := u\<rparr>"
| "cred_step c (Sys_setgid g) = c\<lparr>cr_gid := g\<rparr>"
| "cred_step c (Sys_setgroups gs) = c\<lparr>cr_groups := gs\<rparr>"
| "cred_step c (Sys_chroot d) = c\<lparr>cr_root := Some d\<rparr>"
| "cred_step c _ = c"

fun privileged :: "syscall \<Rightarrow> bool" where
  "privileged (Sys_setuid u) = True"
| "privileged (Sys_setgid g) = True"
| "privileged (Sys_setgroups gs) = True"
| "privileged (Sys_chroot d) = True"
| "privileged (Sys_chdir d) = True"
| "privileged _ = False"

fun opens_file :: "syscall \<Rightarrow> bool" where
  "opens_file (Sys_open f fl m) = True"
| "opens_file _ = False"

definition daemon_opens :: "Arguments \<Rightarrow> syscall list" where
  "daemon_opens args =
     [Sys_open (a_errfile args) [O_WRONLY, O_CREAT, O_APPEND, O_NONBLOCK] 384,
      Sys_open (a_logfile args) [O_WRONLY, O_CREAT, O_APPEND, O_NONBLOCK] 384]
     @ (if a_do_fork args then [Sys_open (a_pidfile args) [O_WRONLY, O_CREAT, O_TRUNC] 493] else [])"

definition drop_calls :: "u32 \<Rightarrow> u32 \<Rightarrow> string option \<Rightarrow> syscall list" where
  "drop_calls uid gid dir = (case dir of None \<Rightarrow> [] | Some d \<Rightarrow> [Sys_chdir d, Sys_chroot d])
     @ [Sys_setgroups [gid], Sys_setgid gid, Sys_setuid uid]"

lemma quiet_user: "quietS (find_user os args)"
  by (auto simp: find_user_def Egetpwnam_def Let_def intro!: quietS_bind split: prod.split option.split)

lemma quiet_group: "quietS (find_group os args gid)"
  by (auto simp: find_group_def Egetgrnam_def Let_def split: prod.split option.split)

lemma quiet_adjust: "quietS (adjustUserGroup os args)"
  unfolding adjustUserGroup_def
  by (intro quietS_bind quiet_user) (auto simp: Let_def intro!: quietS_bind quiet_group split: prod.split)

lemma adjust_facts:
  assumes "adjustUserGroup os args tr = (Inr (uid, gid, args'), tr')"
  shows "gid \<noteq> - 1" "args' = args\<lparr>a_chroot := a_chroot args'\<rparr>" "a_chroot args \<noteq> None \<Longrightarrow> a_chroot args' = a_chroot args"
  using assms unfolding adjustUserGroup_def Let_def
  by (auto elim!: bindS_InrE split: prod.splits option.splits if_splits)

definition calm :: "syscall \<Rightarrow> bool" where
  "calm c \<longleftrightarrow> \<not> privileged c \<and> \<not> opens_file c"

lemma calm_simps [simp]:
  "calm (Sys_close fd)" "calm (Sys_dup2 a b)" "calm Sys_fork" "calm Sys_setsid" "calm (Sys_fcntl fd c a)"
  by (simp_all add: calm_def)

lemma calm_creds: "\<forall>c\<in>set cs. calm c \<Longrightarrow> foldl cred_step k cs = k"
proof (induction cs arbitrary: k)
  case (Cons c cs)
  then show ?case by (cases c) (auto simp: calm_def)
qed simp

text \<open>A program that issues only calls of this kind, with the property \<open>P\<close> of its result.\<close>

definition calmS :: "os_env \<Rightarrow> 'a sys \<Rightarrow> ('a \<Rightarrow> bool) \<Rightarrow> bool" where
  "calmS os m P \<longleftrightarrow> returnsS os m (\<lambda>x new. P x \<and> (\<forall>c\<in>set new. calm c))"

lemma calmS_return: "P x \<Longrightarrow> calmS os (returnS x) P"
  by (simp add: calmS_def returnsS_return)

lemma calmS_checked: "calm c \<Longrightarrow> calmS os (checked os c) (\<lambda>_. True)" "calm c \<Longrightarrow> calmS os (checkedU os c) (\<lambda>_. True)"
  by (auto simp: calmS_def intro: returnsS_checked returnsS_checkedU)

lemma calmS_stop: "calmS os (bindS m (\<lambda>_. stopS s)) P"
  by (auto simp: calmS_def returnsS_def elim!: bindS_InrE)

lemma calmS_if: "calmS os m P \<Longrightarrow> calmS os m' P \<Longrightarrow> calmS os (if b then m else m') P"
  by simp

lemma calmS_bind:
  assumes "calmS os m (\<lambda>_. True)" "\<And>x. calmS os (f x) P"
  shows "calmS os (bindS m f) P"
  unfolding calmS_def
proof (rule returnsS_bind[OF assms(1)[unfolded calmS_def]])
  fix x new assume "True \<and> (\<forall>c\<in>set new. calm c)"
  then show "returnsS os (f x) (\<lambda>y new'. P y \<and> (\<forall>c\<in>set (new @ new'). calm c))"
    using assms(2)[of x] unfolding calmS_def by (elim returnsS_conseq) auto
qed

lemmas calmS_intros = calmS_bind calmS_if calmS_stop calmS_checked calmS_return

lemma tail_calm: "calmS os (daemonize_tail F os args e out p) (\<lambda>args'. args' = args)"
  unfolding daemonize_tail_def wrapper_defs by (intro calmS_intros) simp_all

text \<open>The calls of \<open>daemonize\<close> when it returns.\<close>

definition daemon_calls :: "os_env \<Rightarrow> Arguments \<Rightarrow> Arguments \<Rightarrow> syscall list \<Rightarrow> bool" where
  "daemon_calls os args args' new \<longleftrightarrow> (\<exists>uid gid post.
     adjustUserGroup os args [] = (Inr (uid, gid, args'), [])
     \<and> new = daemon_opens args @ drop_calls uid gid (a_chroot args') @ Sys_close 0 # Sys_open (a_ipfile args) [O_RDONLY] 0 # post
     \<and> (\<forall>c\<in>set post. calm c))"

lemma chroot_returns:
  "returnsS os (case dir of None \<Rightarrow> returnS () | Some d \<Rightarrow> bindS (Echdir os d) (\<lambda>_. Echroot os d))
     (\<lambda>_ new. new = (case dir of None \<Rightarrow> [] | Some d \<Rightarrow> [Sys_chdir d, Sys_chroot d]))"
  by (cases dir) (auto simp: Echdir_def Echroot_def intro!: returnsS_return returnsS_checkedU_bind returnsS_checkedU)

lemma pidfile_returns:
  "returnsS os (if \<not> a_do_fork args then returnS (- 1) else Eopen os (a_pidfile args) [O_WRONLY, O_CREAT, O_TRUNC] 493)
     (\<lambda>_ new. new = (if a_do_fork args then [Sys_open (a_pidfile args) [O_WRONLY, O_CREAT, O_TRUNC] 493] else []))"
  by (auto simp: Eopen_def intro!: returnsS_return returnsS_checked)

lemma daemonize_returns: "returnsS os (daemonize F os args) (daemon_calls os args)"
proof -
  have tail: "returnsS os (daemonize_tail F os args' e out p)
      (\<lambda>args2 new. daemon_calls os args args2 (daemon_opens args @ drop_calls uid gid (a_chroot args') @
         [Sys_close 0, Sys_open (a_ipfile args') [O_RDONLY] 0, Sys_close aux] @ new))"
    if a: "adjustUserGroup os args [] = (Inr (uid, gid, args'), [])" for uid gid args' aux e out p
  proof (rule returnsS_conseq[OF tail_calm[unfolded calmS_def]])
    fix args2 new assume n: "args2 = args' \<and> (\<forall>c\<in>set new. calm c)"
    have "a_ipfile args' = a_ipfile args" using arg_cong[OF adjust_facts(2)[OF a], of a_ipfile] by simp
    with a n show "daemon_calls os args args2 (daemon_opens args @ drop_calls uid gid (a_chroot args') @
         [Sys_close 0, Sys_open (a_ipfile args') [O_RDONLY] 0, Sys_close aux] @ new)"
      unfolding daemon_calls_def by (intro exI[of _ uid] exI[of _ gid] exI[of _ "Sys_close aux # new"]) auto
  qed
  show ?thesis
    unfolding daemonize_def Eopen_def Esetgroups_def Esetgid_def Esetuid_def Eclose_def
    apply (rule returnsS_checked_bind returnsS_bind[OF pidfile_returns[unfolded Eopen_def]])+
    apply (rule returnsS_bind[OF quietS_returns[OF quiet_adjust]])
    apply (clarsimp split del: if_split)
    apply (rule returnsS_bind[OF chroot_returns])
    apply (rule returnsS_checkedU_bind returnsS_checked_bind)+
    apply (rule returnsS_conseq[OF tail])
     apply (auto simp: daemon_opens_def drop_calls_def)
    done
qed

lemma drop_calls_creds:
  "foldl cred_step k (drop_calls uid gid dir) = \<lparr>cr_uid = uid, cr_gid = gid, cr_groups = [gid], cr_root = (if dir = None then cr_root k else dir)\<rparr>"
  by (cases dir) (simp_all add: drop_calls_def)

lemma drop_calls_filter [simp]: "filter privileged (drop_calls uid gid dir) = drop_calls uid gid dir"
  by (cases dir) (simp_all add: drop_calls_def)

lemma dropWhile_drop_calls: "dropWhile (\<lambda>c. c \<noteq> Sys_setuid uid) (drop_calls uid gid dir @ cs) = Sys_setuid uid # cs"
  by (cases dir) (simp_all add: drop_calls_def)

lemma daemon_opens_dropWhile: "dropWhile (\<lambda>c. c \<noteq> Sys_setuid uid) (daemon_opens args @ cs) = dropWhile (\<lambda>c. c \<noteq> Sys_setuid uid) cs"
  by (simp add: daemon_opens_def)

lemma daemon_opens_facts [simp]: "filter privileged (daemon_opens args) = []" "foldl cred_step k (daemon_opens args) = k"
  by (simp_all add: daemon_opens_def)

lemma calm_filter: "\<forall>c\<in>set cs. calm c \<Longrightarrow> filter privileged cs = []"
  by (simp add: calm_def)

text \<open>The reasons to stop: a failed call, or the end of the parent of the daemon.\<close>

definition daemon_stop :: "fmt_ops \<Rightarrow> stop \<Rightarrow> syscall list \<Rightarrow> bool" where
  "daemon_stop F s tr \<longleftrightarrow> s = Exit 1
     \<or> s = Exit 0 \<and> (\<exists>pre fd pid. pid \<noteq> 0 \<and> pid \<noteq> - 1
         \<and> tr = pre @ [Sys_fork, Sys_write fd (fmt_uint F (nat (pid mod 2 ^ 32))), Sys_write fd [NL]])"

lemma stop_rules:
  "stopsS (daemon_stop F) (checked os c)" "stopsS (daemon_stop F) (checkedU os c)"
  by (simp_all add: stopsS_checked daemon_stop_def)

lemma user_group_stops:
  "stopsS (daemon_stop F) (find_user os args)" "stopsS (daemon_stop F) (find_group os args gid)" "stopsS (daemon_stop F) (adjustUserGroup os args)"
proof -
  show u: "stopsS (daemon_stop F) (find_user os args)" for args
    by (auto simp: find_user_def Egetpwnam_def Let_def daemon_stop_def intro!: stopsS_bind split: prod.split option.split)
  show g: "stopsS (daemon_stop F) (find_group os args gid)" for args gid
    by (auto simp: find_group_def Egetgrnam_def Let_def daemon_stop_def split: prod.split option.split)
  show "stopsS (daemon_stop F) (adjustUserGroup os args)"
    unfolding adjustUserGroup_def Let_def
    by (intro stopsS_bind u) (auto simp: daemon_stop_def intro!: stopsS_bind g split: prod.split option.split)
qed

lemma fork_stops:
  assumes "\<And>x. stopsS (daemon_stop F) (g x)"
  shows "stopsS (daemon_stop F) (bindS (if b then Efork os else returnS 0) (\<lambda>pid.
     bindS (if pid = 0 then returnS () else bindS (write_pid F os fd pid) (\<lambda>_. stopS (if pid = - 1 then AssertFail else Exit 0))) g))"
  unfolding stopsS_def
proof (intro allI impI, elim bindS_InlE)
  fix tr s tr' assume "(if b then Efork os else returnS 0) tr = (Inl s, tr')"
  then show "daemon_stop F s tr'" by (auto simp: Efork_def checked_eq daemon_stop_def split: if_splits)
next
  fix tr s tr' pid tr1 assume p: "(if b then Efork os else returnS 0) tr = (Inr pid, tr1)"
    and "(if pid = 0 then returnS () else bindS (write_pid F os fd pid) (\<lambda>_. stopS (if pid = - 1 then AssertFail else Exit 0))) tr1 = (Inl s, tr')"
  then have "s = Exit 1 \<or> s = Exit 0 \<and> pid \<noteq> 0 \<and> pid \<noteq> - 1
      \<and> tr' = tr @ [Sys_fork, Sys_write fd (fmt_uint F (nat (pid mod 2 ^ 32))), Sys_write fd [NL]]"
    by (auto simp: Efork_def checked_eq write_pid_def Ewrite_def writeUInt_def Vwrite_def split: if_splits elim!: bindS_InlE bindS_InrE)
  then show "daemon_stop F s tr'" unfolding daemon_stop_def by blast
next
  fix tr s tr' pid tr1 x tr2 assume "g x tr2 = (Inl s, tr')"
  then show "daemon_stop F s tr'" using assms unfolding stopsS_def by blast
qed

lemma daemonize_stops: "stopsS (daemon_stop F) (daemonize F os args)"
proof -
  have t: "stopsS (daemon_stop F) (daemonize_tail F os args e out p)" for args e out p
    unfolding daemonize_tail_def by (intro fork_stops) (auto simp: wrapper_defs intro!: stopsS_bind stop_rules)
  show ?thesis
    unfolding daemonize_def wrapper_defs
    by (intro stopsS_bind stop_rules) (auto intro!: stopsS_bind stop_rules user_group_stops t split: option.split)
qed

section \<open>Properties\<close>

text \<open>
  C8: when \<open>daemonize\<close> returns, all its system calls have succeeded and the process has given up its privileges: the only
  calls that change its identity are, in this order, the change to the new root directory (if there is one), the reduction of the supplementary groups to the
  chosen group, the change of the group and last the change of the user, to the identity that
  the options and the user database determine. Behind the change of the user no file is opened but the list of
  addresses, for reading.
\<close>

theorem privileges_dropped:
  assumes "daemonize F os args tr = (Inr args', tr')"
  shows "\<exists>uid gid new. tr' = tr @ new \<and> succeed os tr new
     \<and> adjustUserGroup os args [] = (Inr (uid, gid, args'), []) \<and> gid \<noteq> - 1
     \<and> filter privileged new = (case a_chroot args' of None \<Rightarrow> [] | Some dir \<Rightarrow> [Sys_chdir dir, Sys_chroot dir])
          @ [Sys_setgroups [gid], Sys_setgid gid, Sys_setuid uid]
     \<and> foldl cred_step k new = \<lparr>cr_uid = uid, cr_gid = gid, cr_groups = [gid],
          cr_root = (if a_chroot args' = None then cr_root k else a_chroot args')\<rparr>
     \<and> (\<forall>c\<in>set (dropWhile (\<lambda>c. c \<noteq> Sys_setuid uid) new). opens_file c \<longrightarrow> c = Sys_open (a_ipfile args) [O_RDONLY] 0)"
proof -
  obtain new where n: "tr' = tr @ new" "succeed os tr new" "daemon_calls os args args' new"
    using daemonize_returns assms unfolding returnsS_def by blast
  then obtain uid gid post where a: "adjustUserGroup os args [] = (Inr (uid, gid, args'), [])"
    and new: "new = daemon_opens args @ drop_calls uid gid (a_chroot args') @ Sys_close 0 # Sys_open (a_ipfile args) [O_RDONLY] 0 # post"
    and post: "\<forall>c\<in>set post. calm c" unfolding daemon_calls_def by blast
  have f: "filter privileged new = drop_calls uid gid (a_chroot args')"
    unfolding new by (simp add: calm_filter[OF post])
  have k: "foldl cred_step k new = \<lparr>cr_uid = uid, cr_gid = gid, cr_groups = [gid],
      cr_root = (if a_chroot args' = None then cr_root k else a_chroot args')\<rparr>"
    unfolding new by (simp add: drop_calls_creds calm_creds[OF post])
  have o: "\<forall>c\<in>set (dropWhile (\<lambda>c. c \<noteq> Sys_setuid uid) new). opens_file c \<longrightarrow> c = Sys_open (a_ipfile args) [O_RDONLY] 0"
    unfolding new daemon_opens_dropWhile dropWhile_drop_calls using post by (auto simp: calm_def)
  show ?thesis
    using n(1,2) a adjust_facts(1)[OF a] f k o unfolding drop_calls_def by (intro exI[of _ uid] exI[of _ gid] exI[of _ new]) simp
qed

definition example_os :: "int \<Rightarrow> os_env" where
  "example_os pid = \<lparr>os_answer = (\<lambda>tr c. case c of Sys_open f fl m \<Rightarrow> 5 | Sys_fork \<Rightarrow> pid | _ \<Rightarrow> 0), os_pipe = (6, 7),
     os_ifindex = (\<lambda>_. 2), os_hwaddr = (\<lambda>_. (1, [2, 0, 0, 0, 0, 1, 0, 0, 0, 0, 0, 0, 0, 0])),
     os_getpwnam = (\<lambda>n. if n = ''ip-sentinel'' then Some \<lparr>pw_uid = 500, pw_gid = 501, pw_dir = ''/home''\<rparr> else None),
     os_getpwuid = (\<lambda>_. None), os_getgrnam = (\<lambda>_. None), os_argv_tail = replicate 16 NUL\<rparr>"

lemma example_strtol: "strtol 0 ''ip-sentinel'' = (0, 0)"
  by code_simp

lemma example_adjust:
  "adjustUserGroup (example_os pid) default_arguments [] = (Inr (500, 501, default_arguments\<lparr>a_chroot := Some ''/home''\<rparr>), [])"
  by (simp add: adjustUserGroup_def find_user_def find_group_def Egetpwnam_def bindS_def example_strtol default_arguments_def example_os_def)

lemma example_daemon:
  "\<exists>tr'. daemonize F (example_os pid) default_arguments tr = (Inr (default_arguments\<lparr>a_chroot := Some ''/home''\<rparr>), tr')"
  by (simp add: daemonize_def daemonize_tail_def wrapper_defs bindS_def checked_eq checkedU_eq adjustUserGroup_def find_user_def find_group_def
      Egetpwnam_def example_strtol default_arguments_def example_os_def)

theorem privileges_dropped_witness:
  "\<exists>tr'. daemonize dec_ops (example_os 0) default_arguments [] = (Inr (default_arguments\<lparr>a_chroot := Some ''/home''\<rparr>), tr')
     \<and> filter privileged tr' = [Sys_chdir ''/home'', Sys_chroot ''/home'', Sys_setgroups [501], Sys_setgid 501, Sys_setuid 500]"
proof -
  obtain tr' where d: "daemonize dec_ops (example_os 0) default_arguments [] = (Inr (default_arguments\<lparr>a_chroot := Some ''/home''\<rparr>), tr')"
    using example_daemon by blast
  from privileges_dropped[OF d] show ?thesis unfolding d by (auto simp: example_adjust)
qed

text \<open>
  When \<open>daemonize\<close> does not return, the process has ended: with status 1 after a failed call or an
  unknown user or group, or with status 0 as the parent of the daemon, after it has written the number of the child and a newline to the process
  file. No failure leaves a process running with its privileges.
\<close>

theorem daemonize_stop_reasons:
  assumes "daemonize F os args tr = (Inl s, tr')"
  shows "s = Exit 1
     \<or> s = Exit 0 \<and> (\<exists>pre fd pid. pid \<noteq> 0 \<and> pid \<noteq> - 1
         \<and> tr' = pre @ [Sys_fork, Sys_write fd (fmt_uint F (nat (pid mod 2 ^ 32))), Sys_write fd [NL]])"
  using daemonize_stops assms unfolding stopsS_def daemon_stop_def by blast

theorem daemonize_stop_reasons_witness:
  "\<exists>tr'. daemonize dec_ops (example_os 77) (default_arguments\<lparr>a_do_fork := True\<rparr>) [] = (Inl (Exit 0), tr')
     \<and> (\<exists>fd buf. last tr' = Sys_write fd [NL] \<and> buf \<noteq> [] \<and> last (butlast tr') = Sys_write fd buf)"
proof -
  let ?d = "daemonize dec_ops (example_os 77) (default_arguments\<lparr>a_do_fork := True\<rparr>) []"
  have "\<exists>tr'. ?d = (Inl (Exit 0), tr')"
    by (simp add: daemonize_def daemonize_tail_def write_pid_def wrapper_defs bindS_def checked_eq checkedU_eq adjustUserGroup_def find_user_def find_group_def
      Egetpwnam_def example_strtol default_arguments_def example_os_def)
  then obtain tr' where d: "?d = (Inl (Exit 0), tr')" by blast
  have "fmt_uint dec_ops n \<noteq> []" for n unfolding dec_ops_def fmt_ops.select_convs by (subst dec.simps) simp
  moreover obtain pre fd pid where "tr' = pre @ [Sys_fork, Sys_write fd (fmt_uint dec_ops (nat (pid mod 2 ^ 32))), Sys_write fd [NL]]"
    using daemonize_stop_reasons[OF d] by auto
  ultimately have "last tr' = Sys_write fd [NL]" "last (butlast tr') = Sys_write fd (fmt_uint dec_ops (nat (pid mod 2 ^ 32)))"
    "fmt_uint dec_ops (nat (pid mod 2 ^ 32)) \<noteq> []" by (simp_all only: butlast_append) simp_all
  with d show ?thesis by blast
qed

lemma daemonize_macs:
  assumes "daemonize F os args tr = (Inr args', tr')"
  shows "a_mac args' = a_mac args" "a_llmac args' = a_llmac args"
proof -
  obtain uid gid where a: "adjustUserGroup os args [] = (Inr (uid, gid, args'), [])"
    using daemonize_returns assms unfolding returnsS_def daemon_calls_def by blast
  from arg_cong[OF adjust_facts(2)[OF a], of a_mac] arg_cong[OF adjust_facts(2)[OF a], of a_llmac]
  show "a_mac args' = a_mac args" "a_llmac args' = a_llmac args" by simp_all
qed

lemma iface_mac:
  assumes "generateSocket os iface tr = (Inr (sock, idx, lm), tr')" "\<forall>n. length (snd (os_hwaddr os n)) = 14"
  shows "wf_mac lm" "0 \<le> idx"
proof -
  have i: "initIfaceInformation os fd n tr1 = (Inr (i, m), tr2) \<Longrightarrow> wf_mac m \<and> 0 \<le> i" for fd n tr1 i m tr2
    using assms(2)[rule_format, of "take 16 (n @ NUL # os_argv_tail os)"] unfolding initIfaceInformation_def Let_def
    by (auto elim!: bindS_InrE simp: wf_mac_def split: if_splits prod.splits)
  show "wf_mac lm" "0 \<le> idx" using assms(1) unfolding generateSocket_def by (auto elim!: bindS_InrE dest: i)
qed

fun role_worker :: "process_role \<Rightarrow> Worker" where
  "role_worker (MainProcess w) = w"
| "role_worker (WorkerProcess w) = w"

definition pipe_end :: "os_env \<Rightarrow> process_role \<Rightarrow> int" where
  "pipe_end os role = (case role of MainProcess w \<Rightarrow> snd (os_pipe os) | WorkerProcess w \<Rightarrow> fst (os_pipe os))"

lemma Worker_init_facts:
  assumes "Worker_init os args sock idx tr = (Inr role, tr')"
  shows "w_llmac (role_worker role) = a_llmac args \<and> w_if_idx (role_worker role) = idx \<and> w_sock (role_worker role) = sock
     \<and> w_fd (role_worker role) = pipe_end os role \<and> w_do_poison (role_worker role) = a_do_poison args"
  using assms unfolding Worker_init_def Let_def Epipe_def by (auto simp: pipe_end_def elim!: bindS_InrE split: prod.splits if_splits)

lemma main_phases:
  assumes "main_program F os D u posix argv tr = (Inr (args, role), tr')"
  obtains a1 tr0 sock idx lm tr1 a2 tr2 tr3 where "snd (parseOptions (replicate 6 0) D u posix argv) = Inr a1"
    "generateSocket os (a_iface a1) tr0 = (Inr (sock, idx, lm), tr1)" "daemonize F os a1 tr1 = (Inr a2, tr2)"
    "args = Arguments_fixupOptions lm a2" "Worker_init os args sock idx tr2 = (Inr role, tr3)"
  using assms unfolding main_program_def Let_def outS_def by (auto elim!: bindS_InrE)

lemma fixup_facts:
  assumes "options_ok a" "wf_mac lm"
  shows "default_ok (Arguments_fixupOptions lm a)" "tm_type (a_llmac (Arguments_fixupOptions lm a)) \<noteq> mcLOCAL"
    "tm_type (a_llmac (Arguments_fixupOptions lm a)) = mcFIXED \<longrightarrow> wf_mac (tm_ether (a_llmac (Arguments_fixupOptions lm a)))"
  using assms
  by (cases "tm_type (a_mac a)"; cases "tm_type (a_llmac a)";
      auto simp: Arguments_fixupOptions_def fixupMac_def options_ok_def default_ok_def xether_aton_r_def)+

lemma startup_facts:
  assumes "main_program F os D u posix argv tr = (Inr (args, role), tr')" and "\<forall>n. length (snd (os_hwaddr os n)) = 14"
  shows "default_ok args \<and> w_llmac (role_worker role) = a_llmac args \<and> tm_type (a_llmac args) \<noteq> mcLOCAL
     \<and> (tm_type (a_llmac args) = mcFIXED \<longrightarrow> wf_mac (tm_ether (a_llmac args)))
     \<and> w_fd (role_worker role) = pipe_end os role \<and> 0 \<le> w_if_idx (role_worker role)"
proof -
  obtain a1 tr0 sock idx lm tr1 a2 tr2 tr3 where p: "snd (parseOptions (replicate 6 0) D u posix argv) = Inr a1"
    and g: "generateSocket os (a_iface a1) tr0 = (Inr (sock, idx, lm), tr1)" and d: "daemonize F os a1 tr1 = (Inr a2, tr2)"
    and a: "args = Arguments_fixupOptions lm a2" and w: "Worker_init os args sock idx tr2 = (Inr role, tr3)"
    using assms(1) by (rule main_phases)
  have "options_ok a1" using parseOptions_ok[OF _ p] by (simp add: wf_mac_def)
  then have "options_ok a2" using daemonize_macs[OF d] by (simp add: options_ok_def)
  with fixup_facts[OF this iface_mac(1)[OF g assms(2)]] Worker_init_facts[OF w] iface_mac(2)[OF g assms(2)] show ?thesis
    by (simp add: a)
qed

text \<open>
  C21: what the start of the program establishes for its two processes. The address for answers is random or a fixed one of six
  octets, as the blacklist needs it; the link-level address in the worker is never left as \<open>LOCAL\<close>, which the
  worker would refuse with an assertion; the worker process holds the reading end of the pipe and the main process the writing end,
  and the interface index is not negative.
\<close>

theorem startup_state:
  assumes "main_program F os D u posix argv tr = (Inr (args, role), tr')" and "\<forall>n. length (snd (os_hwaddr os n)) = 14"
  shows "default_ok args \<and> w_llmac (role_worker role) = a_llmac args \<and> tm_type (a_llmac args) \<noteq> mcLOCAL
     \<and> (tm_type (a_llmac args) = mcFIXED \<longrightarrow> wf_mac (tm_ether (a_llmac args)))
     \<and> w_fd (role_worker role) = pipe_end os role \<and> 0 \<le> w_if_idx (role_worker role)"
  using startup_facts[OF assms] .

lemma example_main:
  "\<exists>w tr'. main_program dec_ops (example_os 0) example_defaults uninit_arguments False [''ip-sentinel'', ''eth0'', ''-n''] [] = (Inr (example_args, WorkerProcess w), tr')"
proof -
  have s: "\<exists>tr1. generateSocket (example_os 0) ''eth0'' tr = (Inr (0, 2, [2, 0, 0, 0, 0, 1]), tr1)" for tr
    by (simp add: generateSocket_def initIfaceInformation_def wrapper_defs bindS_def checked_eq checkedU_eq example_os_def)
  have w: "\<exists>w tr3. Worker_init (example_os 0) args sock idx tr = (Inr (WorkerProcess w), tr3)" for args sock idx tr
    by (simp add: Worker_init_def wrapper_defs bindS_def checked_eq checkedU_eq example_os_def)
  have i: "a_iface default_arguments = ''eth0''" by (simp add: default_arguments_def)
  obtain tr1 where "generateSocket (example_os 0) ''eth0'' [] = (Inr (0, 2, [2, 0, 0, 0, 0, 1]), tr1)" using s by blast
  moreover obtain tr2 where "daemonize dec_ops (example_os 0) default_arguments tr1 = (Inr (default_arguments\<lparr>a_chroot := Some ''/home''\<rparr>), tr2)" using example_daemon by blast
  moreover have "Arguments_fixupOptions [2, 0, 0, 0, 0, 1] (default_arguments\<lparr>a_chroot := Some ''/home''\<rparr>) = example_args"
    by (simp add: Arguments_fixupOptions_def fixupMac_def xether_aton_r_def default_arguments_def example_args_def)
  moreover obtain w tr3 where "Worker_init (example_os 0) example_args 0 2 tr2
      = (Inr (WorkerProcess w), tr3)" using w by blast
  ultimately show ?thesis by (simp add: main_program_def outS_def returnO_def default_arguments_parsed bindS_def i Let_def)
qed

theorem startup_state_witness:
  "\<exists>w tr'. main_program dec_ops (example_os 0) example_defaults uninit_arguments False [''ip-sentinel'', ''eth0'', ''-n''] [] = (Inr (example_args, WorkerProcess w), tr')
     \<and> default_ok example_args \<and> w_fd w = 6"
proof -
  obtain w tr' where m: "main_program dec_ops (example_os 0) example_defaults uninit_arguments False [''ip-sentinel'', ''eth0'', ''-n''] [] = (Inr (example_args, WorkerProcess w), tr')"
    using example_main by blast
  from startup_state[OF m] m show ?thesis by (simp add: example_os_def pipe_end_def)
qed

end
