(* ===== verification/Two_Processes.thy ===== *)
theory Two_Processes
  imports Startup
begin

text \<open>
  The two processes together, as \<open>main\<close> of \<open>src/src/ip-sentinel.c\<close> starts them: the main process and the worker of
  \<open>Worker_init\<close>, connected by a pipe. They take their rounds in any order; a round of the worker that reads a job
  gets the oldest one that was not read yet. (A record of \<open>RequestInfo\<close> is shorter than \<open>PIPE_BUF\<close>, so that the
  system never splits or mixes records.)
\<close>

section \<open>The system\<close>

text \<open>
  The states of the two processes and the number of records the worker has read. The last two fields are history: the rounds of the main
  process, each with the state it ended in, and those of the worker, the last one first.
\<close>

record system =
  sy_main :: sentinel
  sy_worker :: worker_state
  sy_read :: nat
  sy_log :: "(round_env \<times> sentinel) list"
  sy_ticks :: "worker_tick list"

text \<open>The rounds of the worker that read a record from the pipe.\<close>

definition reads_job :: "worker_tick \<Rightarrow> bool" where
  "reads_job T \<longleftrightarrow> wt_select T \<noteq> - 1 \<and> wt_readable T \<and> wt_cnt T = sizeof_RequestInfo"

inductive system_run :: "dos_vector \<Rightarrow> Arguments \<Rightarrow> Worker \<Rightarrow> int \<Rightarrow> system \<Rightarrow> bool" for V args w where
  system_start: "run_start U V args = Inr s \<Longrightarrow> update_env_ok U \<Longrightarrow> vector_lib V \<Longrightarrow> default_ok args \<Longrightarrow> 0 \<le> t
    \<Longrightarrow> Worker_run H w [] = Inr p \<Longrightarrow> system_run V args w t \<lparr>sy_main = s, sy_worker = p, sy_read = 0, sy_log = [], sy_ticks = []\<rparr>"
| system_hup: "system_run V args w t y \<Longrightarrow> system_run V args w t (y\<lparr>sy_main := sigHup (sy_main y)\<rparr>)"
| system_main: "system_run V args w t y \<Longrightarrow> round_env_ok R \<Longrightarrow> re_dos_vec R = V \<Longrightarrow> t \<le> re_dos_time R
    \<Longrightarrow> re_dos_time R \<le> he_time (re_to R) \<Longrightarrow> he_time (re_to R) \<le> he_time (re_from R)
    \<Longrightarrow> run_round (a_arp_dir args) (sy_main y) R = Inr s
    \<Longrightarrow> system_run V args w (he_time (re_from R)) (y\<lparr>sy_main := s, sy_log := (R, s) # sy_log y\<rparr>)"
| system_idle: "system_run V args w t y \<Longrightarrow> \<not> reads_job T \<Longrightarrow> worker_step w (sy_worker y) T = Inr p
    \<Longrightarrow> system_run V args w t (y\<lparr>sy_worker := p, sy_ticks := T # sy_ticks y\<rparr>)"
| system_job: "system_run V args w t y \<Longrightarrow> reads_job T \<Longrightarrow> sy_read y < length (st_pipe (sy_main y))
    \<Longrightarrow> wt_request T = st_pipe (sy_main y) ! sy_read y \<Longrightarrow> worker_step w (sy_worker y) T = Inr p
    \<Longrightarrow> system_run V args w t (y\<lparr>sy_worker := p, sy_read := sy_read y + 1, sy_ticks := T # sy_ticks y\<rparr>)"

text \<open>The main process of the system is a run of its own: the worker never writes to it.\<close>

lemma system_main_run: "system_run V args w t y \<Longrightarrow> main_run V args t (sy_main y)"
  by (induction rule: system_run.induct) (auto intro: main_run.intros)

text \<open>So is the worker, for the rounds of its history.\<close>

lemma system_worker_run: "system_run V args w t y \<Longrightarrow> \<exists>H. Worker_run H w (rev (sy_ticks y)) = Inr (sy_worker y)"
  by (induction rule: system_run.induct) (auto intro: Worker_run_snoc)

section \<open>Packets and the jobs they answer\<close>

text \<open>The packets a worker makes of a job: the answer, now or repeated, and the poison packet.\<close>

definition packet_for :: "Worker \<Rightarrow> RequestInfo \<Rightarrow> ScheduleInfo \<Rightarrow> bool" where
  "packet_for w rq j \<longleftrightarrow> (\<exists>t r u at job. Worker_fillPacket t r w u rq = Inr job
     \<and> (j = job \<or> j = job\<lparr>schedule_time := at\<rparr>
        \<or> w_do_poison w \<and> rq_type rq = jobSRC \<and> j = (fst (Worker_poisonJob job rq))\<lparr>schedule_time := at\<rparr>))"

definition packets_of :: "Worker \<Rightarrow> RequestInfo \<Rightarrow> nat" where
  "packets_of w rq = (if w_do_poison w \<and> rq_type rq = jobSRC then 6 else 4)"

lemma repeats_packets:
  assumes "Worker_fillPacket t r w u rq = Inr job"
  shows "size (repeats_of w job rq now) + 1 = packets_of w rq" "\<forall>j\<in>#add_mset job (repeats_of w job rq now). packet_for w rq j"
proof -
  show "size (repeats_of w job rq now) + 1 = packets_of w rq" by (simp add: repeats_of_def packets_of_def)
  have "packet_for w rq job" "packet_for w rq (job\<lparr>schedule_time := at\<rparr>)" for at
    unfolding packet_for_def using assms by blast+
  moreover have "w_do_poison w \<and> rq_type rq = jobSRC \<Longrightarrow> packet_for w rq ((fst (Worker_poisonJob job rq))\<lparr>schedule_time := at\<rparr>)" for at
    unfolding packet_for_def using assms by blast
  ultimately show "\<forall>j\<in>#add_mset job (repeats_of w job rq now). packet_for w rq j"
    by (auto simp: repeats_of_def split: if_splits)
qed

text \<open>All packets of a worker, sent or waiting.\<close>

definition worker_packets :: "worker_state \<Rightarrow> ScheduleInfo multiset" where
  "worker_packets p = mset (map fst (ws_sent p)) + pq_elems (ws_queue p)"

lemma step_packets:
  assumes "worker_step w p T = Inr p'" "pq_inv (ws_queue p)"
  shows "pq_inv (ws_queue p') \<and> (\<exists>new. worker_packets p' = new + worker_packets p
    \<and> (if reads_job T then size new = packets_of w (wt_request T) \<and> (\<forall>j\<in>#new. packet_for w (wt_request T) j) else new = {#}))"
proof -
  obtain answer due new where q: "pq_inv (ws_queue p')" and e: "round_effect w T p p' answer due new"
    using step_effect[OF assms] by blast
  have eq: "mset due + pq_elems (ws_queue p') = new + pq_elems (ws_queue p)" using e by (simp add: round_effect_def)
  have "worker_packets p' = mset (map fst (ws_sent p)) + mset answer + (mset due + pq_elems (ws_queue p'))"
    using e by (simp add: worker_packets_def round_effect_def)
  also have "\<dots> = (mset answer + new) + worker_packets p" unfolding eq by (simp add: worker_packets_def)
  finally have s: "worker_packets p' = (mset answer + new) + worker_packets p" .
  show ?thesis
  proof (cases "reads_job T")
    case True
    then obtain job where job: "Worker_fillPacket (wt_rand_time T) (wt_rand T) w (wt_uninit_job T) (wt_request T) = Inr job"
      and a: "answer = [job]" "new = repeats_of w job (wt_request T) (wt_job_time T)"
      using e by (auto simp: round_effect_def reads_job_def)
    from q s a True repeats_packets[OF job] show ?thesis by (intro conjI exI[of _ "mset answer + new"]) auto
  next
    case False
    with q s e show ?thesis by (intro conjI exI[of _ "{#}"]) (auto simp: round_effect_def reads_job_def)
  qed
qed

lemma start_packets: "Worker_run H w [] = Inr p \<Longrightarrow> pq_inv (ws_queue p) \<and> worker_packets p = {#}"
  by (auto simp: Worker_run_def worker_packets_def elim!: bindR_InrE dest: queue_init)

section \<open>Rounds of the main process and the packets they cause\<close>

definition receives_request :: "round_env \<Rightarrow> bool" where
  "receives_request R \<longleftrightarrow> (case re_recv R of None \<Rightarrow> False
     | Some (proto, msg) \<Rightarrow> htons proto = 0x0806 \<and> htons (ar_op (msg_data msg)) = 1)"

text \<open>A round justifies a job if it received the request of the job, and the job is authorised by the list the round ended with.\<close>

fun justifies :: "Arguments \<Rightarrow> RequestInfo \<Rightarrow> round_env \<times> sentinel \<Rightarrow> bool" where
  "justifies args rq (R, s) \<longleftrightarrow> known_type rq \<and> receives_request R
     \<and> (\<exists>proto msg. re_recv R = Some (proto, msg)
        \<and> (bs_error_count (st_bl s) = 0 \<longrightarrow> authorised (a_arp_dir args) (bs_list (st_bl s)) msg rq
             \<and> wf_mac (rq_mac rq) \<and> wf_mac (arp_sha (rq_request rq))))"

lemma authorised_wf:
  "authorised dir lst msg rq \<Longrightarrow> bl_wf lst \<Longrightarrow> wf_message msg \<Longrightarrow> wf_mac (rq_mac rq) \<and> wf_mac (arp_sha (rq_request rq))"
  by (auto simp: authorised_def wf_message_def dest: listed_wf)

lemma round_justified:
  assumes "run_round (a_arp_dir args) s R = Inr s'" "round_env_ok R" "bl_state_ok (st_bl s)" "bl_wf (bs_list (st_bl s'))"
  shows "\<exists>new. st_pipe s' = st_pipe s @ new \<and> (\<forall>rq\<in>set new. justifies args rq (R, s'))"
proof -
  obtain new where n: "st_pipe s' = st_pipe s @ new"
    "\<forall>rq\<in>set new. known_type rq \<and> (\<exists>proto msg. re_recv R = Some (proto, msg) \<and> htons proto = 0x0806 \<and> htons (ar_op (msg_data msg)) = 1
          \<and> (bs_error_count (st_bl s') = 0 \<longrightarrow> authorised (a_arp_dir args) (bs_list (st_bl s')) msg rq))"
    using round_jobs[OF assms(1-3)] by blast
  have "justifies args rq (R, s')" if rq: "rq \<in> set new" for rq
  proof -
    obtain proto msg where m: "known_type rq" "re_recv R = Some (proto, msg)" "htons proto = 0x0806" "htons (ar_op (msg_data msg)) = 1"
      "bs_error_count (st_bl s') = 0 \<longrightarrow> authorised (a_arp_dir args) (bs_list (st_bl s')) msg rq" using bspec[OF n(2) rq] by blast
    have "wf_message msg" using assms(2) m(2) by (simp add: round_env_ok_def)
    then have "bs_error_count (st_bl s') = 0 \<longrightarrow> wf_mac (rq_mac rq) \<and> wf_mac (arp_sha (rq_request rq))"
      using m(5) authorised_wf assms(4) by blast
    with m show ?thesis by (simp add: receives_request_def)
  qed
  with n(1) show ?thesis by blast
qed

lemma request_packets:
  assumes "handle_request dir R msg s = Inr s'" "round_env_ok R" "bl_state_ok (st_bl s)"
  shows "\<exists>new. st_pipe s' = st_pipe s @ new \<and> sum_list (map (packets_of w) new) \<le> 10"
proof -
  obtain s1 s2 where s1: "update_post s s1"
    and s2: "if dir \<noteq> dirFROM then handler_post R (re_to R) (arp_spa (msg_data msg)) (job_to (re_ip_vec R) (re_to R) (bs_list (st_bl s1)) msg) s1 s2 else s2 = s1"
    and s3: "if dir \<noteq> dirTO then handler_post R (re_from R) (arp_spa (msg_data msg)) (job_from (re_ip_vec R) (re_from R) (bs_list (st_bl s2)) msg) s2 s' else s' = s2"
    using handle_requestE[OF assms] by blast
  obtain n1 where n1: "st_pipe s2 = st_pipe s1 @ n1" "length n1 \<le> 1" "\<forall>rq\<in>set n1. rq_type rq = jobDST"
    using phase_pipe[OF s2] by (auto simp: job_to_def)
  obtain n2 where n2: "st_pipe s' = st_pipe s2 @ n2" "length n2 \<le> 1"
    using phase_pipe[OF s3] by auto
  have "sum_list (map (packets_of w) n1) \<le> 4" using n1(2,3) by (cases n1) (auto simp: packets_of_def jobSRC_def jobDST_def)
  moreover have "sum_list (map (packets_of w) n2) \<le> 6" using n2(2) by (cases n2) (auto simp: packets_of_def)
  ultimately show ?thesis using n1(1) n2(1) s1 by (intro exI[of _ "n1 @ n2"]) (simp add: update_post_def)
qed

lemma round_packets:
  assumes "run_round dir s R = Inr s'" "round_env_ok R" "bl_state_ok (st_bl s)"
  shows "\<exists>new. st_pipe s' = st_pipe s @ new \<and> sum_list (map (packets_of w) new) \<le> 10 * of_bool (receives_request R)"
proof (cases "receives_request R")
  case True
  then obtain proto msg where "re_recv R = Some (proto, msg)" "htons proto = 0x0806" "htons (ar_op (msg_data msg)) = 1"
    by (auto simp: receives_request_def split: option.splits)
  with assms(1) have "handle_request dir R msg (s\<lparr>st_dos := AntiDOS_update (re_dos_vec R) (re_dos_time R) (st_dos s), st_recv_errors := 0\<rparr>) = Inr s'"
    by (simp add: run_round_def Let_def)
  from request_packets[OF this assms(2)] assms(3) True show ?thesis by simp
next
  case False
  then have "st_pipe s' = st_pipe s"
    using assms(1) by (auto simp: run_round_def receives_request_def Let_def split: option.splits if_splits)
  then show ?thesis by (intro exI[of _ "[]"]) simp
qed

text \<open>The rounds of a history that had a list without a pending error.\<close>

definition healthy :: "(round_env \<times> sentinel) list \<Rightarrow> bool" where
  "healthy l \<longleftrightarrow> list_all (\<lambda>(R, s). bs_error_count (st_bl s) = 0) l"

section \<open>The invariant of the system\<close>

definition system_inv :: "Arguments \<Rightarrow> Worker \<Rightarrow> system \<Rightarrow> bool" where
  "system_inv args w y \<longleftrightarrow> (let pipe = st_pipe (sy_main y); packets = worker_packets (sy_worker y) in
     pq_inv (ws_queue (sy_worker y)) \<and> sy_read y \<le> length pipe
   \<and> size packets = sum_list (map (packets_of w) (take (sy_read y) pipe))
   \<and> (\<forall>j\<in>#packets. \<exists>rq\<in>set (take (sy_read y) pipe). packet_for w rq j)
   \<and> (\<forall>rq\<in>set pipe. \<exists>l\<in>set (sy_log y). justifies args rq l)
   \<and> sum_list (map (packets_of w) pipe) \<le> 10 * length (filter (receives_request \<circ> fst) (sy_log y)))"

lemma system_inv_worker:
  assumes "system_inv args w y" "worker_step w (sy_worker y) T = Inr p"
    and "reads_job T \<Longrightarrow> sy_read y < length (st_pipe (sy_main y)) \<and> wt_request T = st_pipe (sy_main y) ! sy_read y"
  shows "system_inv args w (y\<lparr>sy_worker := p, sy_read := sy_read y + of_bool (reads_job T), sy_ticks := T # sy_ticks y\<rparr>)"
proof -
  have "pq_inv (ws_queue (sy_worker y))" using assms(1) by (simp add: system_inv_def Let_def)
  from step_packets[OF assms(2) this] obtain new where q: "pq_inv (ws_queue p)" and n: "worker_packets p = new + worker_packets (sy_worker y)"
    "if reads_job T then size new = packets_of w (wt_request T) \<and> (\<forall>j\<in>#new. packet_for w (wt_request T) j) else new = {#}" by blast
  show ?thesis
  proof (cases "reads_job T")
    case True
    with assms(3) have r: "sy_read y < length (st_pipe (sy_main y))" "take (Suc (sy_read y)) (st_pipe (sy_main y)) = take (sy_read y) (st_pipe (sy_main y)) @ [wt_request T]"
      by (simp_all add: take_Suc_conv_app_nth)
    show ?thesis using assms(1) q n True r by (auto simp: system_inv_def Let_def)
  next
    case False
    with assms(1) q n show ?thesis by (auto simp: system_inv_def Let_def)
  qed
qed

lemma system_inv_main:
  assumes "system_inv args w y" "run_round (a_arp_dir args) (sy_main y) R = Inr s" "round_env_ok R" "bl_state_ok (st_bl (sy_main y))"
    "bl_wf (bs_list (st_bl s))"
  shows "system_inv args w (y\<lparr>sy_main := s, sy_log := (R, s) # sy_log y\<rparr>)"
proof -
  obtain new where n: "st_pipe s = st_pipe (sy_main y) @ new" "\<forall>rq\<in>set new. justifies args rq (R, s)"
    using round_justified[OF assms(2-5)] by blast
  have "sum_list (map (packets_of w) new) \<le> 10 * of_bool (receives_request R)"
    using round_packets[OF assms(2-4), of w] n(1) by auto
  then have "sum_list (map (packets_of w) (st_pipe s)) \<le> 10 * length (filter (receives_request \<circ> fst) ((R, s) # sy_log y))"
    using assms(1) n(1) by (cases "receives_request R") (simp_all add: system_inv_def Let_def del: sum_list_eq_0_iff)
  with n show ?thesis using assms(1) by (auto simp: system_inv_def Let_def simp del: justifies.simps sum_list_eq_0_iff filter.simps)
qed

lemma system_run_inv: "system_run V args w t y \<Longrightarrow> system_inv args w y"
proof (induction rule: system_run.induct)
  case (system_start U s t H p)
  then have "st_pipe s = []" by (auto simp: run_start_def elim!: bindR_InrE)
  with start_packets[OF system_start(6)] show ?case by (simp add: system_inv_def)
next
  case (system_hup t y)
  then show ?case by (simp add: system_inv_def sigHup_def Let_def)
next
  case (system_main t y R s)
  have "bl_state_ok (st_bl (sy_main y))" using main_run_inv[OF system_main_run[OF system_main(1)]] by (simp add: sentinel_inv_def)
  moreover have "bl_wf (bs_list (st_bl s))"
    using main_run_inv[OF main_round[OF system_main_run[OF system_main(1)] system_main(2-7)]] by (simp add: sentinel_inv_def bl_state_ok_def)
  ultimately show ?case using system_main by (intro system_inv_main) auto
next
  case (system_idle t y T p)
  then show ?case using system_inv_worker[of args w y T p] by simp
next
  case (system_job t y T p)
  then show ?case using system_inv_worker[of args w y T p] by simp
qed

section \<open>An example\<close>

text \<open>The main process has answered the example's request, the worker has not read the job yet.\<close>

definition example_waiting :: "worker_state \<Rightarrow> system" where
  "example_waiting p = \<lparr>sy_main = example_answered, sy_worker = p, sy_read = 0, sy_log = [(example_round 100 5, example_answered)],
     sy_ticks = []\<rparr>"

definition example_job_tick :: worker_tick where
  "example_job_tick = (example_tick 100 True)\<lparr>wt_request := example_job\<rparr>"

lemma example_waiting_run:
  assumes "Worker_run H w [] = Inr p"
  shows "system_run (list_vector dos_null) example_args w 100 (example_waiting p)"
proof -
  have s: "system_run (list_vector dos_null) example_args w 100 \<lparr>sy_main = example_loaded, sy_worker = p, sy_read = 0, sy_log = [], sy_ticks = []\<rparr>"
    by (rule system_start[OF example_start _ _ _ _ assms])
      (simp_all add: example_round_def example_update_env_ok list_vector_lib default_ok_def wf_mac_def example_args_def default_arguments_def)
  have "system_run (list_vector dos_null) example_args w (he_time (re_from (example_round 100 5)))
      (\<lparr>sy_main = example_loaded, sy_worker = p, sy_read = 0, sy_log = [], sy_ticks = []\<rparr>\<lparr>sy_main := example_answered, sy_log := [(example_round 100 5, example_answered)]\<rparr>)"
    using system_main[OF s example_round_ok example_dos_vec, of 100 5 example_answered] example_first_round
    by (simp add: example_round_def example_handler_def example_args_def default_arguments_def)
  then show ?thesis by (simp add: example_waiting_def example_round_def example_handler_def)
qed

lemma example_worker_started:
  "\<exists>p. Worker_run (wt_heap (example_tick 0 True)) w [] = Inr p \<and> ws_sent p = [] \<and> room 5 (ws_queue p)"
proof -
  have "specR {} (Worker_run (wt_heap (example_tick 0 True)) w []) (\<lambda>p. ws_sent p = [] \<and> room 5 (ws_queue p))"
    by (simp add: Worker_run_def PriorityQueue_init_def powify_1023 sizeof_ScheduleInfo_def Let_def
        Emalloc_Inr address_space_def example_tick_def room_def)
  then show ?thesis using specR_total by blast
qed

lemma example_reads: "reads_job example_job_tick" "tick_ok example_job_tick" "wt_request example_job_tick = example_job"
  by (simp_all add: reads_job_def example_job_tick_def example_tick_def sizeof_RequestInfo_def tick_ok_def sizeof_ArpMessage_def)

lemma example_pipe: "st_pipe (sy_main (example_waiting p)) = [example_job]"
  by (simp add: example_waiting_def example_answered_def)

lemma example_hwaddr: "\<forall>n. length (snd (os_hwaddr (example_os 0) n)) = 14"
  by (simp add: example_os_def)

text \<open>The round that reads the job sends one packet, since the repetitions are not due yet.\<close>

lemma example_first_packet:
  assumes "round_effect w example_job_tick p0 p answer due new" "ws_sent p0 = []" "pq_elems (ws_queue p0) = {#}"
  shows "length (map fst (ws_sent p)) = 1"
proof -
  have t: "wt_job_time example_job_tick = 100" "wt_due_time example_job_tick = 100" by (simp_all add: example_job_tick_def example_tick_def)
  have e: "map fst (ws_sent p) = answer @ due" "mset due + pq_elems (ws_queue p) = new" "\<forall>j\<in>set due. schedule_time j \<le> 100"
    using assms t by (simp_all add: round_effect_def)
  obtain job where a: "answer = [job]" and "new = repeats_of w job example_job 100"
    using assms(1) example_reads t by (auto simp: round_effect_def reads_job_def)
  then have "100 < schedule_time j" if "j \<in># new" for j using that by (auto simp: repeats_of_def split: if_splits)
  moreover have "j \<in># new" if "j \<in> set due" for j using that e(2) by (metis set_mset_mset union_iff)
  ultimately have "due = []" using e(3) by (cases due) force+
  with e(1) a show ?thesis by simp
qed

text \<open>The worker of the program has read the job, and sent its first packet.\<close>

lemma example_worker_round:
  assumes "main_program dec_ops (example_os 0) example_defaults uninit_arguments False [''ip-sentinel'', ''eth0'', ''-n''] [] = (Inr (example_args, WorkerProcess w), calls)"
    and "Worker_run H w [] = Inr p0" "room 5 (ws_queue p0)" "ws_sent p0 = []"
  shows "\<exists>p j ret. worker_step w p0 example_job_tick = Inr p \<and> ws_sent p = [(j, ret)]
     \<and> system_run (list_vector dos_null) example_args w 100 (example_waiting p\<lparr>sy_read := 1, sy_ticks := [example_job_tick]\<rparr>)"
proof -
  let ?y = "example_waiting p0"
  note y = example_waiting_run[OF assms(2)]
  have w: "tm_type (w_llmac w) \<noteq> mcLOCAL" using startup_facts[OF assms(1) example_hwaddr] by simp
  have q: "pq_inv (ws_queue p0)" using start_packets[OF assms(2)] by simp
  have k: "wt_cnt example_job_tick = sizeof_RequestInfo" "known_type (wt_request example_job_tick)"
    using example_reads by (simp_all add: reads_job_def known_type_def example_job_def)
  obtain p where p: "worker_step w p0 example_job_tick = Inr p" using step_returns[OF example_reads(2) q assms(3) k w] by blast
  obtain answer due new where "round_effect w example_job_tick p0 p answer due new" using step_effect[OF p q] by blast
  then have "length (map fst (ws_sent p)) = 1"
    using example_first_packet start_packets[OF assms(2)] assms(4) by (simp add: worker_packets_def)
  then obtain j ret where j: "ws_sent p = [(j, ret)]" by (auto simp: length_Suc_conv)
  have "system_run (list_vector dos_null) example_args w 100 (?y\<lparr>sy_worker := p, sy_read := sy_read ?y + 1, sy_ticks := example_job_tick # sy_ticks ?y\<rparr>)"
    by (rule system_job[OF y example_reads(1)]) (use p example_pipe example_reads(3) in \<open>simp_all add: example_waiting_def\<close>)
  then have "system_run (list_vector dos_null) example_args w 100 (example_waiting p\<lparr>sy_read := 1, sy_ticks := [example_job_tick]\<rparr>)" by (simp add: example_waiting_def)
  with p j show ?thesis by blast
qed

text \<open>The program of the example, its state after this round, and a packet that was sent.\<close>

definition example_ran :: "worker_state \<Rightarrow> system" where
  "example_ran p = example_waiting p\<lparr>sy_read := 1, sy_ticks := [example_job_tick]\<rparr>"

lemma example_ran_simps [simp]:
  "sy_main (example_ran p) = example_answered" "sy_worker (example_ran p) = p" "sy_read (example_ran p) = 1"
  "sy_log (example_ran p) = [(example_round 100 5, example_answered)]" "sy_ticks (example_ran p) = [example_job_tick]"
  by (simp_all add: example_ran_def example_waiting_def)

lemma example_system:
  obtains w calls p j ret where
    "main_program dec_ops (example_os 0) example_defaults uninit_arguments False [''ip-sentinel'', ''eth0'', ''-n''] [] = (Inr (example_args, WorkerProcess w), calls)"
    "system_run (list_vector dos_null) example_args w 100 (example_ran p)" "ws_sent p = [(j, ret)]"
proof -
  obtain w calls where m: "main_program dec_ops (example_os 0) example_defaults uninit_arguments False [''ip-sentinel'', ''eth0'', ''-n''] [] = (Inr (example_args, WorkerProcess w), calls)"
    using example_main by blast
  obtain p0 where "Worker_run (wt_heap (example_tick 0 True)) w [] = Inr p0" "room 5 (ws_queue p0)" "ws_sent p0 = []" using example_worker_started by blast
  from example_worker_round[OF m this] obtain p j ret where
    "system_run (list_vector dos_null) example_args w 100 (example_ran p)" "ws_sent p = [(j, ret)]" unfolding example_ran_def by blast
  with m show thesis by (rule that)
qed

lemma example_ran_facts:
  "st_pipe example_answered = [example_job]" "packets_of w example_job = 4" "wt_job_time example_job_tick = 100" "healthy [(example_round 100 5, example_answered)]"
  by (simp_all add: example_answered_def packets_of_def example_job_def jobSRC_def jobDST_def example_job_tick_def example_tick_def
      healthy_def example_loaded_def)

section \<open>What a packet says, and why it was sent\<close>

lemma packet_bytes:
  assumes "packet_for w rq j" "known_type rq" "tm_type (w_llmac w) \<noteq> mcLOCAL"
  shows "\<exists>t r. message_bytes (job_message j) = reply_bytes (link_dest rq) (link_source t r w rq) (rq_mac rq) (arp_tpa (rq_request rq))
             (arp_sha (rq_request rq)) (arp_spa (rq_request rq))
     \<or> w_do_poison w \<and> rq_type rq = jobSRC
        \<and> message_bytes (job_message j) = reply_bytes BCAST_MAC (link_source t r w rq) (if rq_poison_f rq then rq_poison_v rq else rq_mac rq)
             (arp_spa (rq_request rq)) BCAST_MAC 0"
proof -
  obtain t r u at job where f: "Worker_fillPacket t r w u rq = Inr job" and j: "j = job \<or> j = job\<lparr>schedule_time := at\<rparr>
        \<or> w_do_poison w \<and> rq_type rq = jobSRC \<and> j = (fst (Worker_poisonJob job rq))\<lparr>schedule_time := at\<rparr>"
    using assms(1) unfolding packet_for_def by blast
  show ?thesis using j fill_bytes[OF f assms(2,3)] poison_bytes[OF f _ assms(3)] by (intro exI[of _ t] exI[of _ r]) auto
qed

lemma packet_justified:
  assumes "system_run V args w t y" "healthy (sy_log y)" "j \<in># worker_packets (sy_worker y)"
  shows "\<exists>rq R s proto msg. packet_for w rq j \<and> known_type rq \<and> (R, s) \<in> set (sy_log y) \<and> receives_request R
     \<and> re_recv R = Some (proto, msg) \<and> authorised (a_arp_dir args) (bs_list (st_bl s)) msg rq
     \<and> wf_mac (rq_mac rq) \<and> wf_mac (arp_sha (rq_request rq))"
proof -
  have i: "system_inv args w y" by (rule system_run_inv[OF assms(1)])
  then obtain rq where rq: "rq \<in> set (take (sy_read y) (st_pipe (sy_main y)))" "packet_for w rq j"
    using assms(3) unfolding system_inv_def Let_def by blast
  then have "rq \<in> set (st_pipe (sy_main y))" by (blast dest: in_set_takeD)
  with i obtain R s where "(R, s) \<in> set (sy_log y)" "justifies args rq (R, s)" unfolding system_inv_def Let_def by (metis prod.collapse)
  moreover from this assms(2) have "bs_error_count (st_bl s) = 0" by (auto simp: healthy_def list_all_iff)
  ultimately have "known_type rq \<and> (R, s) \<in> set (sy_log y) \<and> receives_request R
      \<and> (\<exists>proto msg. re_recv R = Some (proto, msg) \<and> authorised (a_arp_dir args) (bs_list (st_bl s)) msg rq)
      \<and> wf_mac (rq_mac rq) \<and> wf_mac (arp_sha (rq_request rq))" by auto
  with rq(2) show ?thesis by blast
qed

end
