(* ===== verification/Deliveries.thy ===== *)
theory Deliveries
  imports Two_Processes
begin

text \<open>
  What the worker of \<open>src/src/worker.c\<close> has made of the jobs it has read: the exact packets, by the rounds of its history, the calls of
  \<open>sendto\<close> for them, and the calls that have sent the whole packet. A packet whose call fails is not sent again.
\<close>

section \<open>The packets of a history\<close>

text \<open>The packets that a round adds: the answer to the request it reads, and its repetitions.\<close>

definition packets_made :: "Worker \<Rightarrow> worker_tick \<Rightarrow> ScheduleInfo multiset" where
  "packets_made w T =
     (if reads_job T
      then (case Worker_fillPacket (wt_rand_time T) (wt_rand T) w (wt_uninit_job T) (wt_request T) of
              Inl _ \<Rightarrow> {#}
            | Inr job \<Rightarrow> add_mset job (repeats_of w job (wt_request T) (wt_job_time T)))
      else {#})"

definition packets_due :: "Worker \<Rightarrow> worker_tick list \<Rightarrow> ScheduleInfo multiset" where
  "packets_due w Ts = sum_list (map (packets_made w) Ts)"

text \<open>The requests a history has read, in their order; the latest round is the first of the list.\<close>

definition requests_read :: "worker_tick list \<Rightarrow> RequestInfo list" where
  "requests_read Ts = map wt_request (filter reads_job (rev Ts))"

text \<open>The packets that were handed to \<open>sendto\<close>, and those that were sent completely.\<close>

definition attempted :: "worker_state \<Rightarrow> ScheduleInfo multiset" where
  "attempted s = mset (map fst (ws_sent s))"

definition delivered :: "worker_state \<Rightarrow> ScheduleInfo multiset" where
  "delivered s = mset (map fst (filter (\<lambda>(j, ret). ret = sizeof_ArpMessage) (ws_sent s)))"

definition sends_ok :: "worker_tick \<Rightarrow> bool" where
  "sends_ok T \<longleftrightarrow> (\<forall>n. wt_sendto T n = sizeof_ArpMessage)"

lemma tick_sends_ok: "tick_ok T \<Longrightarrow> sends_ok T"
  by (simp add: tick_ok_def sends_ok_def)

lemma worker_packets_attempted: "worker_packets s = attempted s + pq_elems (ws_queue s)"
  by (simp add: worker_packets_def attempted_def)

lemma step_made:
  assumes "worker_step w p T = Inr p'" "pq_inv (ws_queue p)"
  shows "worker_packets p' = packets_made w T + worker_packets p"
proof -
  obtain answer due new where e: "round_effect w T p p' answer due new" using step_effect[OF assms] by blast
  have eq: "mset due + pq_elems (ws_queue p') = new + pq_elems (ws_queue p)" using e by (simp add: round_effect_def)
  have "worker_packets p' = mset (map fst (ws_sent p)) + mset answer + (mset due + pq_elems (ws_queue p'))"
    using e by (simp add: worker_packets_def round_effect_def)
  also have "\<dots> = (mset answer + new) + worker_packets p" unfolding eq by (simp add: worker_packets_def)
  also have "mset answer + new = packets_made w T"
    using e by (auto simp: round_effect_def packets_made_def reads_job_def split: if_splits)
  finally show ?thesis .
qed

lemma system_queue: "system_run V args w t y \<Longrightarrow> pq_inv (ws_queue (sy_worker y))"
  using system_run_inv by (simp add: system_inv_def Let_def)

lemma system_made: "system_run V args w t y \<Longrightarrow> worker_packets (sy_worker y) = packets_due w (sy_ticks y)"
proof (induction rule: system_run.induct)
  case (system_start U s t H p)
  with start_packets[OF system_start(6)] show ?case by (simp add: packets_due_def)
next
  case (system_idle t y T p)
  then show ?case using step_made[OF system_idle(3) system_queue[OF system_idle(1)]] by (simp add: packets_due_def)
next
  case (system_job t y T p)
  then show ?case using step_made[OF system_job(5) system_queue[OF system_job(1)]] by (simp add: packets_due_def)
qed simp_all

lemma system_requests: "system_run V args w t y \<Longrightarrow> requests_read (sy_ticks y) = take (sy_read y) (st_pipe (sy_main y))"
proof (induction rule: system_run.induct)
  case (system_main t y R s)
  have "sy_read y \<le> length (st_pipe (sy_main y))" using system_run_inv[OF system_main(1)] by (simp add: system_inv_def Let_def)
  moreover obtain new where "st_pipe s = st_pipe (sy_main y) @ new"
    using round_jobs[OF system_main(7,2)] main_run_inv[OF system_main_run[OF system_main(1)]] by (auto simp: sentinel_inv_def)
  ultimately show ?case using system_main.IH by simp
qed (auto simp: requests_read_def sigHup_def take_Suc_conv_app_nth)

section \<open>Results of the calls\<close>

definition all_sent :: "worker_state \<Rightarrow> bool" where
  "all_sent s \<longleftrightarrow> list_all (\<lambda>(j, ret). ret = sizeof_ArpMessage) (ws_sent s)"

lemma all_sent_delivered: "all_sent s \<Longrightarrow> delivered s = attempted s"
  by (simp add: all_sent_def delivered_def attempted_def list_all_iff)

lemma drain_all_sent: "worker_drain T now s = Inr s' \<Longrightarrow> sends_ok T \<Longrightarrow> all_sent s \<Longrightarrow> all_sent s'"
proof (induction T now s rule: worker_drain.induct)
  case (1 T now s)
  show ?case
  proof (cases "\<exists>j. PriorityQueue_max (ws_queue s) = Some j \<and> schedule_time j \<le> now")
    case False
    then have "s' = s" using "1.prems"(1) by (subst (asm) worker_drain.simps) (auto split: option.splits if_splits)
    then show ?thesis using "1.prems"(3) by simp
  next
    case True
    then obtain j where j: "PriorityQueue_max (ws_queue s) = Some j" "schedule_time j \<le> now" by blast
    then obtain s1 where s1: "Worker_executeJob T s j = Inr s1"
      "worker_drain T now (s1\<lparr>ws_queue := PriorityQueue_extract (ws_queue s)\<rparr>) = Inr s'"
      using "1.prems"(1) by (subst (asm) worker_drain.simps) (auto simp: run_simps)
    have "all_sent s1" using executeJob_spec[OF s1(1)] "1.prems"(2,3) by (simp add: all_sent_def sends_ok_def)
    then show ?thesis using "1.IH"[OF j(1) _ s1(2) "1.prems"(2)] j(2) by (simp add: all_sent_def)
  qed
qed

lemma schedule_all_sent:
  assumes "Worker_scheduleNewJob T w s now = Inr s'" "pq_inv (ws_queue s)" "sends_ok T" "all_sent s"
  shows "all_sent s'"
  using assms
  by (auto simp: Worker_scheduleNewJob_def run_simps Let_def all_sent_def sends_ok_def split: if_splits
      dest!: executeJob_spec printJob_spec warn_overload_spec schedule_repeats_spec)

lemma step_all_sent:
  assumes "worker_step w s T = Inr s'" "pq_inv (ws_queue s)" "sends_ok T" "all_sent s"
  shows "all_sent s'"
proof (cases "wt_select T = - 1")
  case True
  with assms show ?thesis by (auto simp: worker_step_def run_simps all_sent_def)
next
  case False
  then obtain s1 s2 where s1: "(if wt_readable T then Worker_scheduleNewJob T w s (wt_job_time T) else Inr s) = Inr s1"
    and s2: "worker_drain T (wt_due_time T) s1 = Inr s2" "s' = s2\<lparr>ws_run_errors := 0\<rparr>"
    using assms(1) by (auto simp: worker_step_def elim!: bindR_InrE)
  have "all_sent s1" using s1 schedule_all_sent[OF _ assms(2-4)] assms(4) by (auto split: if_splits)
  with drain_all_sent[OF s2(1) assms(3)] s2(2) show ?thesis by (simp add: all_sent_def)
qed

lemma system_all_sent: "system_run V args w t y \<Longrightarrow> list_all sends_ok (sy_ticks y) \<Longrightarrow> all_sent (sy_worker y)"
proof (induction rule: system_run.induct)
  case (system_start U s t H p)
  then show ?case by (auto simp: Worker_run_def all_sent_def elim!: bindR_InrE)
next
  case (system_idle t y T p)
  then show ?case using step_all_sent[OF system_idle(3) system_queue[OF system_idle(1)]] by simp
next
  case (system_job t y T p)
  then show ?case using step_all_sent[OF system_job(5) system_queue[OF system_job(1)]] by simp
qed simp_all

text \<open>With an empty queue every packet was handed to \<open>sendto\<close>, once; all were sent if no call has failed.\<close>

lemma system_empty_attempted:
  assumes "system_run V args w t y" "PriorityQueue_count (ws_queue (sy_worker y)) = 0"
  shows "attempted (sy_worker y) = packets_due w (sy_ticks y)"
    "list_all sends_ok (sy_ticks y) \<Longrightarrow> delivered (sy_worker y) = packets_due w (sy_ticks y)"
proof -
  have "pq_elems (ws_queue (sy_worker y)) = {#}" using assms(2) by (simp add: pq_elems_def PriorityQueue_count_def)
  then show a: "attempted (sy_worker y) = packets_due w (sy_ticks y)"
    using system_made[OF assms(1)] by (simp add: worker_packets_attempted)
  show "delivered (sy_worker y) = packets_due w (sy_ticks y)" if "list_all sends_ok (sy_ticks y)"
    using all_sent_delivered[OF system_all_sent[OF assms(1) that]] a by simp
qed

text \<open>How many packets these are.\<close>

lemma system_due_size:
  assumes "system_run V args w t y"
  shows "size (packets_due w (sy_ticks y)) = sum_list (map (packets_of w) (take (sy_read y) (st_pipe (sy_main y))))"
  using system_made[OF assms] system_run_inv[OF assms] by (simp add: system_inv_def Let_def)

end
