(* ===== verification/Quiet_Worker.thy ===== *)
theory Quiet_Worker
  imports Deliveries
begin

text \<open>
  The worker of \<open>src/src/worker.c\<close> in time: when packets are due, how long it sleeps in \<open>select\<close>, and what happens when no new
  job arrives. The heap order of the queue is not used (extraction does not keep it), only what \<open>PriorityQueue_max\<close> returns.
\<close>

section \<open>When packets are due\<close>

definition due_by :: "int \<Rightarrow> worker_state \<Rightarrow> bool" where
  "due_by t s \<longleftrightarrow> (\<forall>j\<in>#pq_elems (ws_queue s). schedule_time j \<le> t)"

lemma repeats_due: "j \<in># repeats_of w job rq now \<Longrightarrow> schedule_time j \<le> now + 60"
  by (auto simp: repeats_of_def split: if_splits)

text \<open>A round adds packets for at most sixty seconds after the time it reads the job.\<close>

lemma step_due_by:
  assumes "worker_step w s T = Inr s'" "pq_inv (ws_queue s)" "due_by t s" "reads_job T \<Longrightarrow> wt_job_time T + 60 \<le> t"
  shows "due_by t s'"
proof -
  obtain answer due new where e: "round_effect w T s s' answer due new" using step_effect[OF assms(1,2)] by blast
  have n: "schedule_time j \<le> t" if "j \<in># new" for j
    using e that repeats_due[of j w _ "wt_request T" "wt_job_time T"] assms(4) unfolding round_effect_def reads_job_def
    by (fastforce split: if_splits)
  have "mset due + pq_elems (ws_queue s') = new + pq_elems (ws_queue s)" using e by (simp add: round_effect_def)
  then have "j \<in># new \<or> j \<in># pq_elems (ws_queue s)" if "j \<in># pq_elems (ws_queue s')" for j
    using that by (metis union_iff)
  with n assms(3) show ?thesis by (auto simp: due_by_def)
qed

text \<open>Over a run: the rounds that read jobs decide.\<close>

definition jobs_by :: "int \<Rightarrow> worker_tick list \<Rightarrow> bool" where
  "jobs_by t Ts \<longleftrightarrow> list_all (\<lambda>T. reads_job T \<longrightarrow> wt_job_time T \<le> t) Ts"

lemma fold_due_by:
  "foldR (worker_step w) s Ts = Inr s' \<Longrightarrow> pq_inv (ws_queue s) \<Longrightarrow> due_by (t + 60) s \<Longrightarrow> jobs_by t Ts
   \<Longrightarrow> pq_inv (ws_queue s') \<and> due_by (t + 60) s'"
proof (induction Ts arbitrary: s)
  case (Cons T Ts)
  obtain s1 where s1: "worker_step w s T = Inr s1" "foldR (worker_step w) s1 Ts = Inr s'" using Cons.prems(1) by (auto elim!: bindR_InrE)
  have "due_by (t + 60) s1" using step_due_by[OF s1(1) Cons.prems(2,3)] Cons.prems(4) by (simp add: jobs_by_def)
  with Cons.IH[OF s1(2)] step_effect[OF s1(1) Cons.prems(2)] Cons.prems(4) show ?case by (simp add: jobs_by_def)
qed simp

lemma run_due_by:
  assumes "Worker_run H w Ts = Inr s" "jobs_by t Ts"
  shows "pq_inv (ws_queue s) \<and> due_by (t + 60) s"
proof -
  obtain q where q: "PriorityQueue_init H Worker_jobCompare 1023 sizeof_ScheduleInfo = Inr q"
    "foldR (worker_step w) \<lparr>ws_queue = q, ws_exec_errors = 0, ws_read_errors = 0, ws_run_errors = 0, ws_sent = [], ws_out = [],
        ws_actions = [], ws_slept = 0\<rparr> Ts = Inr s"
    using assms(1) unfolding Worker_run_def by (elim bindR_InrE)
  from fold_due_by[OF q(2) _ _ assms(2)] queue_init[OF q(1)] show ?thesis by (simp add: due_by_def)
qed

section \<open>Sleeping and waking up\<close>

text \<open>
  A round in which \<open>select\<close> returns after its timeout: nothing is readable, and the clock has advanced by the timeout at least. (Without
  a timeout \<open>select\<close> returns for a job only.)
\<close>

definition wakes_up :: "worker_state \<Rightarrow> worker_tick \<Rightarrow> bool" where
  "wakes_up s T \<longleftrightarrow> tick_ok T \<and> \<not> wt_readable T
     \<and> (case select_timeout s (wt_now T) of None \<Rightarrow> False | Some d \<Rightarrow> wt_now T + d \<le> wt_due_time T)"

inductive quiet_run :: "Worker \<Rightarrow> worker_state \<Rightarrow> worker_tick list \<Rightarrow> worker_state \<Rightarrow> bool" for w where
  quiet_stop: "quiet_run w s [] s"
| quiet_wake: "quiet_run w s Ts s1 \<Longrightarrow> wakes_up s1 T \<Longrightarrow> worker_step w s1 T = Inr s' \<Longrightarrow> quiet_run w s (Ts @ [T]) s'"

lemma select_timeout_bounds:
  assumes "pq_inv (ws_queue s)" "due_by t s" "PriorityQueue_count (ws_queue s) \<noteq> 0"
  shows "\<exists>d j. select_timeout s now = Some d \<and> 0 \<le> d \<and> now + d \<le> max now t
     \<and> PriorityQueue_max (ws_queue s) = Some j \<and> schedule_time j \<le> now + d"
proof -
  obtain j where j: "PriorityQueue_max (ws_queue s) = Some j" using assms(3) by (simp add: PriorityQueue_max_def)
  then have "schedule_time j \<le> t" using pq.top_in[OF assms(1)] assms(2) by (simp add: due_by_def)
  with j show ?thesis by (auto simp: select_timeout_def)
qed

text \<open>A worker that wakes up sends at least one packet.\<close>

lemma wake_step:
  assumes "wakes_up s T" "pq_inv (ws_queue s)"
  shows "\<exists>s'. worker_step w s T = Inr s' \<and> PriorityQueue_count (ws_queue s') < PriorityQueue_count (ws_queue s)"
proof -
  have q: "wt_select T \<noteq> - 1" "\<not> wt_readable T" "tick_ok T" using assms(1) by (simp_all add: wakes_up_def tick_ok_def)
  obtain d where d: "worker_drain T (wt_due_time T) s = Inr d" using specR_total[OF drain_returns[OF q(3)]] by blast
  obtain j where j: "PriorityQueue_max (ws_queue s) = Some j" "schedule_time j \<le> wt_due_time T"
    using assms(1) by (auto simp: wakes_up_def select_timeout_def split: option.splits if_splits)
  obtain js where js: "drains PriorityQueue_max PriorityQueue_extract (\<lambda>j. schedule_time j \<le> wt_due_time T) (ws_queue s) js (ws_queue d)"
    using drain_drains[OF d] by blast
  have m: "pq_inv (ws_queue d)" "mset js + pq_elems (ws_queue d) = pq_elems (ws_queue s)"
    using pq.drains_conserves[OF js assms(2)] by simp_all
  have c: "size (pq_elems (ws_queue x)) = PriorityQueue_count (ws_queue x)" if "pq_inv (ws_queue x)" for x :: worker_state
    using that by (simp add: PriorityQueue_count_def pq_inv_def size_pq_elems)
  have "js \<noteq> []" using js j by (auto elim: drains_NilE)
  then have "size (pq_elems (ws_queue d)) < size (pq_elems (ws_queue s))" unfolding m(2)[symmetric] by (cases js) simp_all
  then show ?thesis using d q c[OF m(1)] c[OF assms(2)] by (auto simp: worker_step_def)
qed

text \<open>
  A quiet worker comes to rest: each time it wakes up, the queue gets shorter; while it is not empty, the next timeout is
  over at most sixty seconds after the last job was read, and the round after it returns.
\<close>

lemma quiet_run_spec:
  "quiet_run w s Ts s' \<Longrightarrow> pq_inv (ws_queue s) \<Longrightarrow> due_by t s
   \<Longrightarrow> pq_inv (ws_queue s') \<and> due_by t s' \<and> PriorityQueue_count (ws_queue s') + length Ts \<le> PriorityQueue_count (ws_queue s)"
proof (induction rule: quiet_run.induct)
  case (quiet_wake s Ts s1 T s')
  then have s1: "pq_inv (ws_queue s1)" "due_by t s1" "PriorityQueue_count (ws_queue s1) + length Ts \<le> PriorityQueue_count (ws_queue s)" by simp_all
  have "\<not> reads_job T" using quiet_wake(2) by (simp add: wakes_up_def reads_job_def)
  then have "due_by t s'" using step_due_by[OF quiet_wake(3) s1(1,2)] by simp
  moreover have "PriorityQueue_count (ws_queue s') < PriorityQueue_count (ws_queue s1)"
    using wake_step[OF quiet_wake(2) s1(1), of w] quiet_wake(3) by auto
  ultimately show ?case using step_effect[OF quiet_wake(3) s1(1)] s1(3) by simp
qed simp

lemma quiet_run_system:
  assumes "quiet_run w s Ts s'" "system_run V args w t y" "sy_worker y = s"
  shows "system_run V args w t (y\<lparr>sy_worker := s', sy_ticks := rev Ts @ sy_ticks y\<rparr>) \<and> list_all (\<lambda>T. \<not> reads_job T \<and> tick_ok T) Ts"
  using assms
proof (induction rule: quiet_run.induct)
  case (quiet_wake s Ts s1 T s')
  let ?y = "y\<lparr>sy_worker := s1, sy_ticks := rev Ts @ sy_ticks y\<rparr>"
  have T: "\<not> reads_job T" "tick_ok T" using quiet_wake(2) by (simp_all add: wakes_up_def reads_job_def)
  have y: "system_run V args w t ?y" "list_all (\<lambda>T. \<not> reads_job T \<and> tick_ok T) Ts" using quiet_wake.IH quiet_wake.prems by simp_all
  from system_idle[OF y(1) T(1), of s'] quiet_wake(3) y(2) T show ?case by simp
qed auto

text \<open>The rounds without a new job make no packets.\<close>

lemma quiet_ticks:
  assumes "list_all (\<lambda>T. \<not> reads_job T \<and> tick_ok T) Qs"
  shows "packets_due w (rev Qs @ Ts) = packets_due w Ts" "list_all sends_ok Qs"
proof -
  show "packets_due w (rev Qs @ Ts) = packets_due w Ts"
    using assms by (induction Qs arbitrary: Ts) (simp_all add: packets_due_def packets_made_def)
  show "list_all sends_ok Qs" using assms tick_sends_ok by (auto simp: list_all_iff)
qed

section \<open>Properties\<close>

lemma system_due_by:
  assumes "system_run V args w t y" "jobs_by t0 (sy_ticks y)"
  shows "pq_inv (ws_queue (sy_worker y)) \<and> due_by (t0 + 60) (sy_worker y)"
proof -
  obtain H where "Worker_run H w (rev (sy_ticks y)) = Inr (sy_worker y)" using system_worker_run[OF assms(1)] by blast
  moreover have "jobs_by t0 (rev (sy_ticks y))" using assms(2) by (simp add: jobs_by_def list_all_iff)
  ultimately show ?thesis by (rule run_due_by)
qed

text \<open>
  C13: a worker without new jobs finishes. In any state of the two processes, let the worker only wake up after the timeouts it gives to
  \<open>select\<close>, while \<open>sendto\<close> works. It wakes up at most as often as packets are waiting. While some are waiting, it has asked for a timeout that
  is over at most sixty seconds after it has read its last job, and the round after this timeout returns. When none is waiting, exactly the packets of
  all jobs it has read (the requests of the pipe, in order) have been handed to \<open>sendto\<close>, each once. They have all been sent completely if the calls in the
  earlier rounds worked, too; a packet whose call fails is not sent again.
\<close>

theorem quiet_worker_finishes:
  assumes "system_run V args w t y" and "jobs_by t0 (sy_ticks y)" and "quiet_run w (sy_worker y) Qs s"
  shows "length Qs + PriorityQueue_count (ws_queue s) \<le> PriorityQueue_count (ws_queue (sy_worker y))
     \<and> requests_read (sy_ticks y) = take (sy_read y) (st_pipe (sy_main y))
     \<and> (if PriorityQueue_count (ws_queue s) = 0
        then attempted s = packets_due w (sy_ticks y) \<and> (list_all sends_ok (sy_ticks y) \<longrightarrow> delivered s = packets_due w (sy_ticks y))
        else \<exists>d. select_timeout s (wt_now T) = Some d \<and> 0 \<le> d \<and> wt_now T + d \<le> max (wt_now T) (t0 + 60)
           \<and> (tick_ok T \<and> \<not> wt_readable T \<and> wt_now T + d \<le> wt_due_time T \<longrightarrow> (\<exists>s'. quiet_run w (sy_worker y) (Qs @ [T]) s')))"
proof -
  note y = system_due_by[OF assms(1,2)] and r = system_requests[OF assms(1)]
  note q = quiet_run_spec[OF assms(3) conjunct1[OF y] conjunct2[OF y]]
  show ?thesis
  proof (cases "PriorityQueue_count (ws_queue s) = 0")
    case True
    note e = quiet_run_system[OF assms(3,1) refl]
    from system_empty_attempted[OF conjunct1[OF e]] True q r show ?thesis by (simp add: quiet_ticks[OF conjunct2[OF e]])
  next
    case False
    with select_timeout_bounds[of s "t0 + 60" "wt_now T"] q obtain d where
      d: "select_timeout s (wt_now T) = Some d" "0 \<le> d" "wt_now T + d \<le> max (wt_now T) (t0 + 60)" by blast
    have "\<exists>s'. quiet_run w (sy_worker y) (Qs @ [T]) s'" if "tick_ok T \<and> \<not> wt_readable T \<and> wt_now T + d \<le> wt_due_time T"
    proof -
      have "wakes_up s T" using that d(1) by (simp add: wakes_up_def)
      with wake_step[of s T w] q quiet_wake[OF assms(3)] show ?thesis by blast
    qed
    with False d q r show ?thesis by auto
  qed
qed

text \<open>In the example one packet is sent and three are waiting. The round after sixty seconds returns, and fewer packets are waiting then.\<close>

theorem quiet_worker_finishes_witness:
  "\<exists>w y s. system_run (list_vector dos_null) example_args w 100 y \<and> PriorityQueue_count (ws_queue (sy_worker y)) = 3
     \<and> quiet_run w (sy_worker y) [example_tick 160 False] s \<and> PriorityQueue_count (ws_queue s) < 3"
proof -
  obtain w calls p j ret where m: "main_program dec_ops (example_os 0) example_defaults uninit_arguments False [''ip-sentinel'', ''eth0'', ''-n''] [] = (Inr (example_args, WorkerProcess w), calls)"
    and y: "system_run (list_vector dos_null) example_args w 100 (example_ran p)" and j: "ws_sent p = [(j, ret)]" by (rule example_system)
  let ?y = "example_ran p" and ?T = "example_tick 160 False"
  have "size (worker_packets p) = 4" using system_run_inv[OF y] by (simp add: system_inv_def Let_def example_ran_facts)
  moreover have "pq_wf (ws_queue p)" using system_run_inv[OF y] by (simp add: system_inv_def Let_def pq_inv_def)
  ultimately have c: "PriorityQueue_count (ws_queue (sy_worker ?y)) = 3"
    using j by (simp add: worker_packets_def pq_elems_def pq_wf_def PriorityQueue_count_def)
  have t: "jobs_by 100 (sy_ticks ?y)" by (simp add: jobs_by_def example_job_tick_def example_tick_def)
  have k: "tick_ok ?T" "\<not> wt_readable ?T" "wt_now ?T = 160" "wt_due_time ?T = 160"
    by (simp_all add: tick_ok_def example_tick_def sizeof_ArpMessage_def)
  obtain s where s: "quiet_run w (sy_worker ?y) [?T] s"
    using quiet_worker_finishes[OF y t quiet_stop, of ?T] c k by (auto split: if_splits)
  then have "PriorityQueue_count (ws_queue s) < 3" using conjunct1[OF quiet_worker_finishes[OF y t s]] c by simp
  with y c s show ?thesis by blast
qed

end
