(* ===== verification/Frames.thy ===== *)
theory Frames
  imports Two_Processes
begin

text \<open>
  The main process on the frames it receives (\<open>run\<close> of \<open>src/src/ip-sentinel.c\<close>): one iteration of the loop with the bytes of a
  frame and the receive buffer, over the step function \<open>run_round\<close> that takes the received structure. What one daemon
  sends and another one receives.
\<close>

section \<open>A round on a frame\<close>

text \<open>
  The result of \<open>recvfrom\<close> is the link-level protocol with the bytes of the frame, or nothing if it fails; the buffer is left as
  it is then.
\<close>

definition frame_round :: "direction \<Rightarrow> round_env \<Rightarrow> (u16 \<times> u8 list) option \<Rightarrow> sentinel \<times> u8 list \<Rightarrow> (sentinel \<times> u8 list) run" where
  "frame_round dir R recv st =
     (case st of (s, buffer) \<Rightarrow>
      case recv of
        None \<Rightarrow> bindR (run_round dir s (R\<lparr>re_recv := None\<rparr>)) (\<lambda>s. Inr (s, buffer))
      | Some (protocol, frame) \<Rightarrow>
          (let buffer = recv_frame buffer frame; msg = read_message buffer in
           bindR (run_round dir s (R\<lparr>re_recv := Some (protocol, msg)\<rparr>)) (\<lambda>s. Inr (s, buffer))))"

text \<open>The environment of a round, without what is received.\<close>

definition frame_env_ok :: "round_env \<Rightarrow> bool" where
  "frame_env_ok R \<longleftrightarrow> vector_lib (re_dos_vec R) \<and> update_env_ok (re_update R)"

text \<open>The reachable states of the process with its buffer, whose first contents are arbitrary.\<close>

inductive frame_run :: "dos_vector \<Rightarrow> Arguments \<Rightarrow> int \<Rightarrow> sentinel \<times> u8 list \<Rightarrow> bool" for V args where
  frame_start: "run_start U V args = Inr s \<Longrightarrow> update_env_ok U \<Longrightarrow> vector_lib V \<Longrightarrow> default_ok args \<Longrightarrow> 0 \<le> t
    \<Longrightarrow> length buffer = RECV_BUFFER_SIZE \<Longrightarrow> frame_run V args t (s, buffer)"
| frame_hup: "frame_run V args t (s, buffer) \<Longrightarrow> frame_run V args t (sigHup s, buffer)"
| frame_step: "frame_run V args t st \<Longrightarrow> frame_env_ok R \<Longrightarrow> re_dos_vec R = V \<Longrightarrow> t \<le> re_dos_time R
    \<Longrightarrow> re_dos_time R \<le> he_time (re_to R) \<Longrightarrow> he_time (re_to R) \<le> he_time (re_from R) \<Longrightarrow> frame_round (a_arp_dir args) R recv st = Inr st'
    \<Longrightarrow> frame_run V args (he_time (re_from R)) st'"

lemma frame_roundE:
  assumes "frame_round dir R recv (s, buffer) = Inr (s', buffer')" "length buffer = RECV_BUFFER_SIZE" "frame_env_ok R"
  obtains m where "run_round dir s (R\<lparr>re_recv := m\<rparr>) = Inr s'" "round_env_ok (R\<lparr>re_recv := m\<rparr>)" "length buffer' = RECV_BUFFER_SIZE"
proof (cases recv)
  case None
  with assms show ?thesis by (intro that[of None]) (auto simp: frame_round_def frame_env_ok_def round_env_ok_def elim!: bindR_InrE)
next
  case (Some pf)
  obtain p f where pf: "pf = (p, f)" by (cases pf)
  have l: "length (recv_frame buffer f) = RECV_BUFFER_SIZE" using assms(2) by simp
  then have "wf_message (read_message (recv_frame buffer f))" by (intro read_message_wf) (simp add: RECV_BUFFER_SIZE_def)
  with assms Some pf l show ?thesis
    by (intro that[of "Some (p, read_message (recv_frame buffer f))"])
      (auto simp: frame_round_def frame_env_ok_def round_env_ok_def Let_def elim!: bindR_InrE)
qed

text \<open>Each state of the process with its buffer is a state of the process as the other theories have it.\<close>

lemma frame_run_main: "frame_run V args t st \<Longrightarrow> main_run V args t (fst st) \<and> length (snd st) = RECV_BUFFER_SIZE"
proof (induction rule: frame_run.induct)
  case (frame_step t st R recv st')
  obtain s buffer s' buffer' where st: "st = (s, buffer)" "st' = (s', buffer')" by (cases st; cases st')
  obtain m where "run_round (a_arp_dir args) s (R\<lparr>re_recv := m\<rparr>) = Inr s'" "round_env_ok (R\<lparr>re_recv := m\<rparr>)" "length buffer' = RECV_BUFFER_SIZE"
    using frame_step frame_roundE[of "a_arp_dir args" R recv s buffer s' buffer'] st by auto
  then show ?case using frame_step st main_round[of V args t s "R\<lparr>re_recv := m\<rparr>" s'] by simp
qed (auto intro: main_run.intros)

section \<open>What is received\<close>

lemma recv_message:
  "wf_message m \<Longrightarrow> read_message (recv_frame buffer (message_bytes m)) = m"
proof -
  assume m: "wf_message m"
  then have "length (message_bytes m) = 61"
    by (simp add: wf_message_def wf_mac_def message_bytes_def arp_bytes_def)
  then have "recv_frame buffer (message_bytes m) = message_bytes m @ drop 61 buffer" by (simp add: recv_frame_def RECV_BUFFER_SIZE_def)
  then show ?thesis by (simp add: read_message_bytes[OF m])
qed

text \<open>A frame shorter than the Ethernet header leaves the ARP data of the frame before.\<close>

lemma recv_short:
  assumes "length frame \<le> 14" "length buffer = RECV_BUFFER_SIZE"
  shows "msg_data (read_message (recv_frame buffer frame)) = msg_data (read_message buffer)"
proof -
  have n: "recv_frame buffer frame ! i = buffer ! i" if "14 \<le> i" "i < 4096" for i
    using that assms by (simp add: recv_frame_def RECV_BUFFER_SIZE_def Let_def nth_append)
  have d: "drop i (recv_frame buffer frame) = drop i buffer" if "14 \<le> i" for i
    using that assms by (simp add: recv_frame_def RECV_BUFFER_SIZE_def Let_def)
  show ?thesis by (simp add: read_message_def read_arp_def u16_at_def u32_at_def bytes_at_def n d)
qed

text \<open>Only the ARP data of a message matter.\<close>

lemma handlers_data:
  assumes "msg_data m = msg_data m'"
  shows "generateJobToIntruder (R\<lparr>re_recv := x\<rparr>) h m s = generateJobToIntruder (R\<lparr>re_recv := y\<rparr>) h m' s"
    "generateJobFromIntruder (R\<lparr>re_recv := x\<rparr>) h m s = generateJobFromIntruder (R\<lparr>re_recv := y\<rparr>) h m' s"
  using assms
  by (simp_all add: generateJobToIntruder_def generateJobFromIntruder_def warn_oversized_def Let_def cong: if_cong option.case_cong)

lemma handle_request_data:
  "msg_data m = msg_data m' \<Longrightarrow> handle_request dir (R\<lparr>re_recv := x\<rparr>) m s = handle_request dir (R\<lparr>re_recv := y\<rparr>) m' s"
  by (simp add: handle_request_def run_update_def handlers_data[where m = m and m' = m' and R = R and x = x and y = y] cong: if_cong)

lemma run_round_data:
  "msg_data m = msg_data m' \<Longrightarrow> run_round dir s (R\<lparr>re_recv := Some (p, m)\<rparr>) = run_round dir s (R\<lparr>re_recv := Some (p, m')\<rparr>)"
  by (simp add: run_round_def Let_def handle_request_data[where m = m and m' = m' and R = R and x = "Some (p, m)" and y = "Some (p, m')"])

text \<open>The operation of a frame is found behind the two addresses, whatever follows.\<close>

lemma recv_op:
  assumes "wf_mac (ether_dhost m)" "wf_mac (ether_shost m)"
  shows "ar_op (msg_data (read_message (recv_frame buffer (message_bytes m)))) = ar_op (msg_data m)"
proof -
  have l: "22 \<le> length (message_bytes m)" using assms by (simp add: message_bytes_def arp_bytes_def wf_mac_def)
  then have "recv_frame buffer (message_bytes m) ! i = message_bytes m ! i" if "i < 22" for i
    using that by (simp add: recv_frame_def RECV_BUFFER_SIZE_def Let_def nth_append)
  then have "u16_at (recv_frame buffer (message_bytes m)) 20 = u16_at (message_bytes m) 20" by (simp add: u16_at_def)
  also have "\<dots> = ar_op (msg_data m)"
    using assms by (simp add: message_bytes_def arp_bytes_def wf_mac_def read_fields)
  finally show ?thesis by (simp add: read_message_def read_arp_def)
qed

text \<open>The packets of a worker are replies, behind two addresses of six octets.\<close>

lemma link_source_wf:
  "wf_mac (rq_mac rq) \<Longrightarrow> (tm_type (w_llmac w) = mcFIXED \<longrightarrow> wf_mac (tm_ether (w_llmac w))) \<Longrightarrow> wf_mac (link_source t r w rq)"
  by (auto simp: link_source_def split: mac_type.splits)

lemma packet_header:
  assumes "packet_for w rq j" "known_type rq" "tm_type (w_llmac w) \<noteq> mcLOCAL"
    "tm_type (w_llmac w) = mcFIXED \<longrightarrow> wf_mac (tm_ether (w_llmac w))" "wf_mac (rq_mac rq)" "wf_mac (arp_sha (rq_request rq))"
  shows "wf_mac (ether_dhost (job_message j)) \<and> wf_mac (ether_shost (job_message j)) \<and> ar_op (msg_data (job_message j)) = htons 2"
proof -
  obtain t r u at job where f: "Worker_fillPacket t r w u rq = Inr job" and j: "j = job \<or> j = job\<lparr>schedule_time := at\<rparr>
        \<or> w_do_poison w \<and> rq_type rq = jobSRC \<and> j = (fst (Worker_poisonJob job rq))\<lparr>schedule_time := at\<rparr>"
    using assms(1) unfolding packet_for_def by blast
  have "wf_mac (ether_dhost (job_message job)) \<and> wf_mac (ether_shost (job_message job)) \<and> ar_op (msg_data (job_message job)) = htons 2"
    using f assms(6) fill_hosts_ok[OF assms(2,3), of t r] link_source_wf[OF assms(5,4), of t r]
    by (auto simp: Worker_fillPacket_def Let_def wf_mac_def zero_message_def link_dest_def BCAST_MAC_def)
  with j show ?thesis by (auto simp: Worker_poisonJob_def Let_def wf_mac_def BCAST_MAC_def)
qed

text \<open>A reply makes no job.\<close>

lemma reply_ignored:
  assumes "ar_op (msg_data msg) = htons 2"
  shows "run_round dir s (R\<lparr>re_recv := Some (p, msg)\<rparr>)
     = Inr (s\<lparr>st_dos := AntiDOS_update (re_dos_vec R) (re_dos_time R) (st_dos s), st_recv_errors := 0\<rparr>)"
proof -
  have "htons (htons 2) \<noteq> 1" by code_simp
  with assms show ?thesis by (simp add: run_round_def Let_def)
qed

section \<open>Properties\<close>

text \<open>
  C14: daemons do not answer each other. Whatever packet the worker has sent, a daemon that receives it, this one or another one in the network, in
  any state and with any contents of its receive buffer, writes no job for it: its round only expires old
  counters. (Rounds with a pending error of the list are excluded.)
\<close>

theorem own_packets_ignored:
  assumes "main_program F os D u posix argv [] = (Inr (args, WorkerProcess w), calls)"
    and "\<forall>n. length (snd (os_hwaddr os n)) = 14"
    and "system_run V args w t y" and "healthy (sy_log y)" and "(j, ret) \<in> set (ws_sent (sy_worker y))"
  shows "\<exists>buffer'. frame_round dir R (Some (protocol, message_bytes (job_message j))) (s, buffer)
     = Inr (s\<lparr>st_dos := AntiDOS_update (re_dos_vec R) (re_dos_time R) (st_dos s), st_recv_errors := 0\<rparr>, buffer')"
proof -
  have w: "tm_type (w_llmac w) \<noteq> mcLOCAL" "tm_type (w_llmac w) = mcFIXED \<longrightarrow> wf_mac (tm_ether (w_llmac w))"
    using startup_facts[OF assms(1,2)] by auto
  have "j \<in># worker_packets (sy_worker y)" using assms(5) by (force simp: worker_packets_def)
  from packet_justified[OF assms(3,4) this] obtain rq where
    "packet_for w rq j" "known_type rq" "wf_mac (rq_mac rq)" "wf_mac (arp_sha (rq_request rq))" by blast
  from packet_header[OF this(1,2) w this(3,4)]
  have "ar_op (msg_data (read_message (recv_frame buffer (message_bytes (job_message j))))) = htons 2" using recv_op by simp
  then show ?thesis by (simp add: frame_round_def Let_def reply_ignored)
qed

theorem own_packets_ignored_witness:
  "\<exists>w y j. system_run (list_vector dos_null) example_args w 100 y \<and> j \<in> set (map fst (ws_sent (sy_worker y)))
     \<and> (\<exists>s' buffer'. frame_round dirBOTH (example_round 100 5) (Some (htons 0x0806, message_bytes (job_message j))) (example_loaded, replicate 4096 0)
          = Inr (s', buffer') \<and> st_pipe s' = [])"
proof -
  obtain w calls p j ret where m: "main_program dec_ops (example_os 0) example_defaults uninit_arguments False [''ip-sentinel'', ''eth0'', ''-n''] [] = (Inr (example_args, WorkerProcess w), calls)"
    and y: "system_run (list_vector dos_null) example_args w 100 (example_ran p)" and j: "ws_sent p = [(j, ret)]" by (rule example_system)
  let ?y = "example_ran p"
  have l: "healthy (sy_log ?y)" "(j, ret) \<in> set (ws_sent (sy_worker ?y))"
    using j by (simp_all add: example_ran_facts)
  then have "j \<in> set (map fst (ws_sent (sy_worker ?y)))" by force
  moreover obtain buffer' where "frame_round dirBOTH (example_round 100 5) (Some (htons 0x0806, message_bytes (job_message j))) (example_loaded, replicate 4096 0)
     = Inr (example_loaded\<lparr>st_dos := AntiDOS_update (re_dos_vec (example_round 100 5)) (re_dos_time (example_round 100 5)) (st_dos example_loaded), st_recv_errors := 0\<rparr>, buffer')"
    using own_packets_ignored[OF m example_hwaddr y l] by blast
  ultimately show ?thesis using y by (fastforce simp: example_loaded_def)
qed

text \<open>
  C22: a frame is handled as it was sent. Whatever the receive buffer holds, a frame with the bytes of a message
  makes the same round as the message itself.
\<close>

theorem received_as_sent:
  assumes "wf_message m"
  shows "frame_round dir R (Some (protocol, message_bytes m)) (s, buffer)
     = bindR (run_round dir s (R\<lparr>re_recv := Some (protocol, m)\<rparr>)) (\<lambda>s. Inr (s, recv_frame buffer (message_bytes m)))"
  using assms by (simp add: frame_round_def Let_def recv_message)

lemma example_message_wf: "wf_message example_message"
  by (simp add: example_message_def wf_message_def wf_mac_def zero_message_def zero_arp_def)

lemma example_frame_env: "(example_round 100 5)\<lparr>re_recv := Some (htons 0x0806, example_message)\<rparr> = example_round 100 5"
  by (simp add: example_round_def)

theorem received_as_sent_witness:
  "\<exists>buffer. frame_round dirBOTH (example_round 100 5) (Some (htons 0x0806, message_bytes example_message)) (example_loaded, replicate 4096 0)
     = Inr (example_answered, buffer)"
  by (simp add: received_as_sent[OF example_message_wf] example_frame_env example_first_round)

text \<open>
  C15: the length of a frame is never looked at. A frame that is not longer than an Ethernet header, received after the
  frame of a message, makes the same round as if this message had been received again.
\<close>

theorem short_frame_repeats:
  assumes "wf_message m" and "length frame \<le> 14" and "length buffer = RECV_BUFFER_SIZE"
  shows "frame_round dir R (Some (protocol, frame)) (s, recv_frame buffer (message_bytes m))
     = bindR (run_round dir s (R\<lparr>re_recv := Some (protocol, m)\<rparr>)) (\<lambda>s. Inr (s, recv_frame (recv_frame buffer (message_bytes m)) frame))"
proof -
  have "msg_data (read_message (recv_frame (recv_frame buffer (message_bytes m)) frame)) = msg_data m"
    using recv_short[OF assms(2), of "recv_frame buffer (message_bytes m)"] assms(1,3) by (simp add: recv_message)
  from run_round_data[OF this, where dir = dir and s = s and R = R and p = protocol] show ?thesis by (simp add: frame_round_def Let_def)
qed

lemma example_second_round: "\<exists>s. run_round dirBOTH example_answered (example_round 200 5) = Inr s \<and> st_pipe s = [example_job, example_job]"
proof -
  have "AntiDOS_update (list_vector dos_null) 200 (st_dos example_answered) = \<lparr>dos_min_time = 200, dos_data = []\<rparr>" by code_simp
  from example_round_answers[OF this] show ?thesis by (simp add: example_answered_def example_loaded_def)
qed

theorem short_frame_repeats_witness:
  "\<exists>s buffer. frame_round dirBOTH (example_round 200 5) (Some (htons 0x0806, replicate 14 0))
       (example_answered, recv_frame (replicate 4096 0) (message_bytes example_message)) = Inr (s, buffer)
     \<and> st_pipe s = [example_job, example_job]"
proof -
  have e: "(example_round 200 5)\<lparr>re_recv := Some (htons 0x0806, example_message)\<rparr> = example_round 200 5" by (simp add: example_round_def)
  obtain s where s: "run_round dirBOTH example_answered (example_round 200 5) = Inr s" "st_pipe s = [example_job, example_job]"
    using example_second_round by blast
  have "length (replicate 14 (0::u8)) \<le> 14" "length (replicate 4096 (0::u8)) = RECV_BUFFER_SIZE" by (simp_all add: RECV_BUFFER_SIZE_def)
  from short_frame_repeats[OF example_message_wf this, of dirBOTH "example_round 200 5"] s show ?thesis by (simp add: e)
qed

end
