(* ===== verification/Signals.thy ===== *)
theory Signals
  imports Sentinel
begin

text \<open>
  Signals inside of a round of the main process (\<open>run\<close> and \<open>sigHup\<close> of \<open>src/src/ip-sentinel.c\<close>). The body of the loop is
  cut into steps between which the handler may run; \<open>do_reload\<close> is the only variable the handler writes, and only the test and the
  assignment of the loop access it, so that each step is atomic for the handler. The rounds with signals reach the states of
  \<open>main_run\<close>, where signals are handled between the rounds. (A signal may also cut a \<open>sleep\<close> short; the times slept are upper bounds then.)
\<close>

section \<open>The body of the loop in steps\<close>

datatype int_point =
    At_top
  | At_test ArpMessage
  | At_soft ArpMessage
  | At_force ArpMessage
  | At_clear ArpMessage
  | At_to ArpMessage
  | At_from ArpMessage
  | At_end

fun atomic_step :: "direction \<Rightarrow> round_env \<Rightarrow> int_point \<Rightarrow> sentinel \<Rightarrow> (int_point \<times> sentinel) run" where
  "atomic_step dir R At_top s =
     (let s = s\<lparr>st_dos := AntiDOS_update (re_dos_vec R) (re_dos_time R) (st_dos s)\<rparr> in
      case re_recv R of
        None \<Rightarrow> (let c = st_recv_errors s + 1 in
                 if c > of_nat MAX_ERRORS then Inl (Exit 1) else Inr (At_end, s\<lparr>st_recv_errors := c\<rparr>))
      | Some (protocol, msg) \<Rightarrow>
          (let s = s\<lparr>st_recv_errors := 0\<rparr> in
           if htons protocol \<noteq> 0x0806 then Inr (At_end, s)
           else if htons (ar_op (msg_data msg)) \<noteq> 1 then Inr (At_end, s)
           else Inr (At_test msg, s)))"
| "atomic_step dir R (At_test msg) s = Inr (if \<not> st_do_reload s then At_soft msg else At_force msg, s)"
| "atomic_step dir R (At_soft msg) s =
     bindR (BlackList_softUpdate (re_update R) (st_bl s)) (\<lambda>(bl, slept, w).
     Inr (At_to msg, s\<lparr>st_bl := bl, st_slept := st_slept s + slept, st_out := st_out s @ w\<rparr>))"
| "atomic_step dir R (At_force msg) s =
     bindR (BlackList_update (re_update R) (st_bl s)) (\<lambda>(bl, slept, w).
     Inr (At_clear msg, s\<lparr>st_bl := bl, st_slept := st_slept s + slept, st_out := st_out s @ w\<rparr>))"
| "atomic_step dir R (At_clear msg) s = Inr (At_to msg, s\<lparr>st_do_reload := False\<rparr>)"
| "atomic_step dir R (At_to msg) s =
     bindR (if dir \<noteq> dirFROM then generateJobToIntruder R (re_to R) msg s else Inr s) (\<lambda>s. Inr (At_from msg, s))"
| "atomic_step dir R (At_from msg) s =
     bindR (if dir \<noteq> dirTO then generateJobFromIntruder R (re_from R) msg s else Inr s) (\<lambda>s. Inr (At_end, s))"
| "atomic_step dir R At_end s = Inr (At_end, s)"

text \<open>What can happen in an iteration: its steps in their order, and signals at any point.\<close>

inductive interrupted :: "direction \<Rightarrow> round_env \<Rightarrow> sentinel \<Rightarrow> int_point \<Rightarrow> sentinel \<Rightarrow> bool" for dir R s where
  int_start: "interrupted dir R s At_top s"
| int_step: "interrupted dir R s p s1 \<Longrightarrow> atomic_step dir R p s1 = Inr (p', s2) \<Longrightarrow> interrupted dir R s p' s2"
| int_signal: "interrupted dir R s p s1 \<Longrightarrow> interrupted dir R s p (sigHup s1)"

text \<open>The states the process reaches when signals may arrive inside of the rounds.\<close>

inductive signal_run :: "dos_vector \<Rightarrow> Arguments \<Rightarrow> int \<Rightarrow> sentinel \<Rightarrow> bool" for V args where
  signal_start: "run_start U V args = Inr s \<Longrightarrow> update_env_ok U \<Longrightarrow> vector_lib V \<Longrightarrow> default_ok args \<Longrightarrow> 0 \<le> t \<Longrightarrow> signal_run V args t s"
| signal_hup: "signal_run V args t s \<Longrightarrow> signal_run V args t (sigHup s)"
| signal_round: "signal_run V args t s \<Longrightarrow> round_env_ok R \<Longrightarrow> re_dos_vec R = V \<Longrightarrow> t \<le> re_dos_time R
    \<Longrightarrow> re_dos_time R \<le> he_time (re_to R) \<Longrightarrow> he_time (re_to R) \<le> he_time (re_from R)
    \<Longrightarrow> interrupted (a_arp_dir args) R s At_end s' \<Longrightarrow> signal_run V args (he_time (re_from R)) s'"

section \<open>The rest of an iteration without signals\<close>

primrec rank :: "int_point \<Rightarrow> nat" where
  "rank At_top = 6" | "rank (At_test m) = 5" | "rank (At_soft m) = 3" | "rank (At_force m) = 4" | "rank (At_clear m) = 3"
| "rank (At_to m) = 2" | "rank (At_from m) = 1" | "rank At_end = 0"

lemma step_rank: "atomic_step dir R p s = Inr (p', s') \<Longrightarrow> p \<noteq> At_end \<Longrightarrow> rank p' < rank p"
  by (cases p) (auto simp: Let_def split: option.splits if_splits prod.splits elim!: bindR_InrE)

function finish :: "direction \<Rightarrow> round_env \<Rightarrow> int_point \<Rightarrow> sentinel \<Rightarrow> sentinel run" where
  "finish dir R p s =
     (if p = At_end then Inr s
      else case atomic_step dir R p s of Inl e \<Rightarrow> Inl e | Inr (p', s') \<Rightarrow> finish dir R p' s')"
  by pat_completeness auto
termination
  by (relation "measure (\<lambda>(dir, R, p, s). rank p)") (auto dest: step_rank)

declare finish.simps [simp del]

lemma finish_end [simp]: "finish dir R At_end s = Inr s"
  by (simp add: finish.simps)

lemma finish_step: "atomic_step dir R p s = Inr (p', s') \<Longrightarrow> finish dir R p s = finish dir R p' s'"
  by (cases "p = At_end") (auto simp: finish.simps[of dir R p])

lemma finish_stop: "atomic_step dir R p s = Inl e \<Longrightarrow> finish dir R p s = Inl e"
  by (cases "p = At_end") (auto simp: finish.simps[of dir R p])

lemma finish_bind:
  "p \<noteq> At_end \<Longrightarrow> finish dir R p s = bindR (atomic_step dir R p s) (\<lambda>(p', s'). finish dir R p' s')"
  by (auto simp: finish.simps[of dir R p] split: sum.splits)

lemma bindR_assoc: "bindR (bindR r f) g = bindR r (\<lambda>x. bindR (f x) g)"
  by (cases r) simp_all

lemma bindR_Inr_id [simp]: "bindR r (\<lambda>x. Inr x) = r"
  by (cases r) simp_all

text \<open>From the top it is the round as the other theories have it.\<close>

lemma finish_handlers:
  "finish dir R (At_to msg) s =
     bindR (if dir \<noteq> dirFROM then generateJobToIntruder R (re_to R) msg s else Inr s) (\<lambda>s.
     if dir \<noteq> dirTO then generateJobFromIntruder R (re_from R) msg s else Inr s)"
  by (simp add: finish_bind bindR_assoc cong: if_cong)

lemma finish_test: "finish dir R (At_test msg) s = handle_request dir R msg s"
  by (simp add: finish_bind[of "At_test msg"] finish_bind[of "At_soft msg"] finish_bind[of "At_force msg"] finish_bind[of "At_clear msg"]
      handle_request_def run_update_def finish_handlers bindR_assoc case_prod_unfold)

lemma finish_top: "finish dir R At_top s = run_round dir s R"
  by (simp add: finish_bind[of At_top] run_round_def Let_def finish_test split: option.split)

section \<open>Signals and steps\<close>

definition then_hup :: "sentinel run \<Rightarrow> sentinel run" where
  "then_hup r = bindR r (\<lambda>s. Inr (sigHup s))"

lemma then_hup_simps [simp]:
  "then_hup (Inr s) = Inr (sigHup s)" "then_hup (Inl e) = Inl e" "then_hup (then_hup r) = then_hup r" "sigHup (sigHup s) = sigHup s"
  by (cases r; simp add: then_hup_def sigHup_def)+

lemma then_hup_trans: "a \<in> {b, then_hup b} \<Longrightarrow> b \<in> {r, then_hup r} \<Longrightarrow> a \<in> {r, then_hup r}"
  by auto

lemma then_hup_bind:
  "then_hup (bindR r f) = bindR r (\<lambda>x. then_hup (f x))" "bindR (then_hup q) g = bindR q (\<lambda>s. g (sigHup s))"
  by (simp_all add: then_hup_def bindR_assoc)

lemma sigHup_fields [simp]:
  "st_bl (sigHup s) = st_bl s" "st_dos (sigHup s) = st_dos s" "st_out (sigHup s) = st_out s" "st_slept (sigHup s) = st_slept s"
  "st_recv_errors (sigHup s) = st_recv_errors s" "st_send_errors (sigHup s) = st_send_errors s" "st_pipe (sigHup s) = st_pipe s"
  "st_oversize_sleep (sigHup s) = st_oversize_sleep s" "st_do_reload (sigHup s)"
  by (simp_all add: sigHup_def)

lemma sigHup_updates [simp]:
  "(sigHup s)\<lparr>st_bl := b\<rparr> = sigHup (s\<lparr>st_bl := b\<rparr>)" "(sigHup s)\<lparr>st_dos := d\<rparr> = sigHup (s\<lparr>st_dos := d\<rparr>)"
  "(sigHup s)\<lparr>st_out := w\<rparr> = sigHup (s\<lparr>st_out := w\<rparr>)" "(sigHup s)\<lparr>st_slept := n\<rparr> = sigHup (s\<lparr>st_slept := n\<rparr>)"
  "(sigHup s)\<lparr>st_recv_errors := c\<rparr> = sigHup (s\<lparr>st_recv_errors := c\<rparr>)" "(sigHup s)\<lparr>st_send_errors := c\<rparr> = sigHup (s\<lparr>st_send_errors := c\<rparr>)"
  "(sigHup s)\<lparr>st_pipe := p\<rparr> = sigHup (s\<lparr>st_pipe := p\<rparr>)" "(sigHup s)\<lparr>st_oversize_sleep := x\<rparr> = sigHup (s\<lparr>st_oversize_sleep := x\<rparr>)"
  "(sigHup s)\<lparr>st_do_reload := False\<rparr> = s\<lparr>st_do_reload := False\<rparr>"
  by (simp_all add: sigHup_def)

text \<open>The handlers do not look at \<open>do_reload\<close>.\<close>

lemma sendJob_hup: "Worker_sendJob ret (sigHup s) rq = then_hup (Worker_sendJob ret s rq)"
  by (simp add: Worker_sendJob_def then_hup_bind)

lemma warn_hup: "warn_oversized R (sigHup s) ip = then_hup (warn_oversized R s ip)"
  by (simp add: warn_oversized_def then_hup_bind)

lemma handlers_hup:
  "generateJobToIntruder R h msg (sigHup s) = then_hup (generateJobToIntruder R h msg s)"
  "generateJobFromIntruder R h msg (sigHup s) = then_hup (generateJobFromIntruder R h msg s)"
  by (auto simp: generateJobToIntruder_def generateJobFromIntruder_def Let_def then_hup_bind case_prod_unfold sendJob_hup warn_hup
      intro!: arg_cong[where f = "bindR _"] split: option.split)

text \<open>Where a signal arrives behind the test, it is seen behind the round, or it is lost.\<close>

lemma finish_hup:
  assumes "p \<noteq> At_top" "\<forall>m. p \<noteq> At_test m"
  shows "finish dir R p (sigHup s) \<in> {finish dir R p s, then_hup (finish dir R p s)}"
proof -
  have from_hup: "finish dir R (At_from m) (sigHup s) = then_hup (finish dir R (At_from m) s)" for dir m s
    by (simp add: finish_bind[of "At_from m"] handlers_hup then_hup_bind bindR_assoc)
  have to_hup: "finish dir R (At_to m) (sigHup s) = then_hup (finish dir R (At_to m) s)" for m s
    by (simp add: finish_bind[of "At_to m"] handlers_hup then_hup_bind bindR_assoc from_hup)
  have soft: "finish dir R (At_soft m) (sigHup s) = then_hup (finish dir R (At_soft m) s)" for m
    by (simp add: finish_bind[of "At_soft m"] then_hup_bind bindR_assoc to_hup case_prod_unfold)
  have clear: "finish dir R (At_clear m) (sigHup s) = finish dir R (At_clear m) s" for m s
    by (simp add: finish_bind[of "At_clear m"])
  have force: "finish dir R (At_force m) (sigHup s) = finish dir R (At_force m) s" for m
    by (simp add: finish_bind[of "At_force m"] clear bindR_assoc case_prod_unfold)
  show ?thesis using assms by (cases p) (simp_all add: from_hup to_hup soft clear force)
qed

lemma top_hup: "atomic_step dir R At_top s = Inr (At_test m, s') \<Longrightarrow> atomic_step dir R At_top (sigHup s) = Inr (At_test m, sigHup s')"
  by (auto simp: Let_def split: option.splits if_splits)

lemma step_targets:
  "atomic_step dir R p s = Inr (p', s') \<Longrightarrow> p' \<noteq> At_top \<and> (\<forall>m. p' = At_test m \<longrightarrow> p = At_top)"
  by (cases p) (auto simp: Let_def split: option.splits if_splits prod.splits elim!: bindR_InrE)

text \<open>What is left of an interrupted iteration: the rest of a round that started without signals, or right behind one.\<close>

definition signal_inv :: "direction \<Rightarrow> round_env \<Rightarrow> sentinel \<Rightarrow> int_point \<Rightarrow> sentinel \<Rightarrow> bool" where
  "signal_inv dir R s p s' \<longleftrightarrow>
     (\<exists>s0\<in>{s, sigHup s}. finish dir R p s' \<in> {run_round dir s0 R, then_hup (run_round dir s0 R)}
        \<and> (p = At_top \<longrightarrow> s' = s0) \<and> (\<forall>m. p = At_test m \<longrightarrow> atomic_step dir R At_top s0 = Inr (p, s')))"

lemma signal_inv_hup:
  assumes "signal_inv dir R s p s'"
  shows "signal_inv dir R s p (sigHup s')"
proof -
  obtain s0 where s0: "s0 \<in> {s, sigHup s}" "finish dir R p s' \<in> {run_round dir s0 R, then_hup (run_round dir s0 R)}"
    "p = At_top \<Longrightarrow> s' = s0" "\<And>m. p = At_test m \<Longrightarrow> atomic_step dir R At_top s0 = Inr (p, s')"
    using assms unfolding signal_inv_def by blast
  have h: "sigHup s0 \<in> {s, sigHup s}" using s0(1) by auto
  consider "p = At_top" | m where "p = At_test m" | "p \<noteq> At_top" "\<forall>m. p \<noteq> At_test m" by blast
  then show ?thesis
  proof cases
    case 1
    then show ?thesis using h s0(3) unfolding signal_inv_def by (intro bexI[OF _ h]) (simp add: finish_top)
  next
    case 2
    then have "atomic_step dir R At_top (sigHup s0) = Inr (p, sigHup s')" using top_hup s0(4)[OF 2] by simp
    with finish_step[OF this] 2 show ?thesis unfolding signal_inv_def by (intro bexI[OF _ h]) (simp add: finish_top)
  next
    case 3
    have "finish dir R p (sigHup s') \<in> {run_round dir s0 R, then_hup (run_round dir s0 R)}"
      by (rule then_hup_trans[OF finish_hup[OF 3] s0(2)])
    with 3 s0(1) show ?thesis unfolding signal_inv_def by blast
  qed
qed

lemma interrupted_inv: "interrupted dir R s p s' \<Longrightarrow> signal_inv dir R s p s'"
proof (induction rule: interrupted.induct)
  case int_start
  show ?case by (simp add: signal_inv_def finish_top)
next
  case (int_step p s1 p' s2)
  obtain s0 where s0: "s0 \<in> {s, sigHup s}" "finish dir R p s1 \<in> {run_round dir s0 R, then_hup (run_round dir s0 R)}"
    "p = At_top \<Longrightarrow> s1 = s0" using int_step(3) unfolding signal_inv_def by blast
  have "finish dir R p' s2 \<in> {run_round dir s0 R, then_hup (run_round dir s0 R)}" using finish_step[OF int_step(2)] s0(2) by simp
  moreover have "atomic_step dir R At_top s0 = Inr (p', s2)" if "p' = At_test m" for m
    using that step_targets[OF int_step(2)] s0(3) int_step(2) by simp
  ultimately show ?case using s0(1) step_targets[OF int_step(2)] unfolding signal_inv_def by blast
next
  case (int_signal p s1)
  then show ?case by (simp add: signal_inv_hup)
qed

lemma interrupted_finish: "interrupted dir R s p s1 \<Longrightarrow> finish dir R p s1 = Inr s' \<Longrightarrow> interrupted dir R s At_end s'"
proof (induction dir R p s1 rule: finish.induct)
  case (1 dir R p s1)
  show ?case
  proof (cases "p = At_end")
    case True
    then show ?thesis using 1(2,3) by simp
  next
    case False
    then obtain p' s2 where "atomic_step dir R p s1 = Inr (p', s2)"
      using 1(3) by (auto simp: finish_bind elim!: bindR_InrE)
    with 1 False show ?thesis using finish_step int_step by fastforce
  qed
qed

section \<open>Properties\<close>

text \<open>
  C17: signals may arrive at any point. The states that the process reaches when the handler of SIGHUP runs between any two steps of a
  round are those it reaches when the handler runs between the rounds only.
\<close>

theorem signals_between_rounds: "signal_run V args t s \<longleftrightarrow> main_run V args t s"
proof
  show "signal_run V args t s \<Longrightarrow> main_run V args t s"
  proof (induction rule: signal_run.induct)
    case (signal_round t s R s')
    from interrupted_inv[OF signal_round(7)] obtain s0 where s0: "s0 \<in> {s, sigHup s}"
      "Inr s' \<in> {run_round (a_arp_dir args) s0 R, then_hup (run_round (a_arp_dir args) s0 R)}" by (auto simp: signal_inv_def)
    then obtain s1 where s1: "run_round (a_arp_dir args) s0 R = Inr s1" "s' = s1 \<or> s' = sigHup s1"
      by (cases "run_round (a_arp_dir args) s0 R") auto
    have "main_run V args t s0" using s0(1) signal_round(8) main_hup by auto
    from main_round[OF this signal_round(2-6) s1(1)] s1(2) main_hup show ?case by auto
  qed (auto intro: main_run.intros)
  show "main_run V args t s \<Longrightarrow> signal_run V args t s"
  proof (induction rule: main_run.induct)
    case (main_round t s R s')
    then show ?case by (intro signal_round interrupted_finish[OF int_start]) (simp_all add: finish_top)
  qed (auto intro: signal_run.intros)
qed

text \<open>
  C18: a request to reload can be lost. A signal that arrives when a forced update has read the file, before \<open>do_reload\<close> is
  cleared, has no effect: the iteration goes on as if there had been none, and if the file has changed meanwhile without
  a new time of modification, its new contents are not read by the rounds that follow.
\<close>

theorem reload_request_lost:
  assumes "bl_state_ok (st_bl s)" and "BlackList_update (re_update R) (st_bl s) = Inr (bl, slept, w)" and "bs_error_count bl = 0"
  shows "\<exists>s1 s2. atomic_step dir R (At_force msg) s = Inr (At_clear msg, s1) \<and> st_bl s2 = bl
     \<and> atomic_step dir R (At_clear msg) (sigHup s1) = Inr (At_to msg, s2) \<and> atomic_step dir R (At_clear msg) s1 = Inr (At_to msg, s2)
     \<and> (\<forall>R'. ue_stat (re_update R') = ue_stat (re_update R) \<longrightarrow> run_update R' s2 = Inr s2)"
proof -
  let ?s1 = "s\<lparr>st_bl := bl, st_slept := st_slept s + slept, st_out := st_out s @ w\<rparr>"
  have "bs_error_count (st_bl s) + 1 \<noteq> 0"
  proof
    assume "bs_error_count (st_bl s) + 1 = 0"
    then have "bs_error_count (st_bl s) = - 1" by (simp add: eq_neg_iff_add_eq_0)
    with assms(1) have "(- 1 :: u32) \<le> 6" by (simp add: bl_state_ok_def parameter_defs)
    moreover have "\<not> (- 1 :: u32) \<le> 6" by code_simp
    ultimately show False by blast
  qed
  then have "ue_stat (re_update R) = Some (bl_last_mtime (bs_list bl))"
    using assms(2,3) by (auto simp: BlackList_update_def BlackList_softUpdate_def softUpdate_open_def softUpdate_read_def Let_def
        split: option.splits if_splits elim!: bindR_InrE)
  then have "run_update R' (?s1\<lparr>st_do_reload := False\<rparr>) = Inr (?s1\<lparr>st_do_reload := False\<rparr>)"
    if "ue_stat (re_update R') = ue_stat (re_update R)" for R'
    using that update_unchanged[of "re_update R'" bl] assms(3) by (simp add: run_update_def)
  then show ?thesis using assms(2) by (intro exI[of _ ?s1] exI[of _ "?s1\<lparr>st_do_reload := False\<rparr>"]) simp
qed

text \<open>A round in which the file has other contents with the same time of modification.\<close>

definition example_changed :: round_env where
  "example_changed = (example_round 200 5)\<lparr>re_update := example_update_env (Some 5) (Some (example_file [''10.0.0.2 2:0:0:0:0:8''] []))\<rparr>"

theorem reload_request_lost_witness:
  "\<exists>s1 s2. atomic_step dirBOTH (example_round 100 5) (At_force example_message) (sigHup example_loaded) = Inr (At_clear example_message, s1)
     \<and> atomic_step dirBOTH (example_round 100 5) (At_clear example_message) (sigHup s1) = Inr (At_to example_message, s2)
     \<and> run_update example_changed s2 = Inr s2"
proof -
  have "case BlackList_update (re_update (example_round 100 5)) (st_bl example_loaded) of Inl _ \<Rightarrow> False | Inr (bl, _) \<Rightarrow> bs_error_count bl = 0"
    by code_simp
  then obtain bl slept w where b: "BlackList_update (re_update (example_round 100 5)) (st_bl (sigHup example_loaded)) = Inr (bl, slept, w)" "bs_error_count bl = 0"
    by (auto split: sum.splits)
  have ok: "bl_state_ok (st_bl (sigHup example_loaded))" using example_loaded_ok by simp
  have "ue_stat (re_update example_changed) = ue_stat (re_update (example_round 100 5))"
    by (simp add: example_changed_def example_round_def example_update_env_def)
  then show ?thesis using reload_request_lost[OF ok b, of dirBOTH example_message] by blast
qed

end
