(* ===== verification/Queue_Bytes.thy ===== *)
theory Queue_Bytes
  imports Prioqueue
begin

text \<open>
  The priority queue of \<open>src/src/prioqueue.c\<close> on the bytes of its memory block: the elements are copied with \<open>memcpy\<close> between
  addresses that \<open>addr\<close> computes, and the comparison function gets pointers to them. Every access is checked
  against the block. The operations refine those of \<open>Prioqueue\<close>, whatever the bytes of an element mean.
\<close>

section \<open>The memory block\<close>

text \<open>A pointer into the block is its distance from the start; the product is computed in \<open>size_t\<close>.\<close>

definition addr :: "nat \<Rightarrow> nat \<Rightarrow> nat \<Rightarrow> nat" where
  "addr base pos elem_size = base + (pos * elem_size) mod 2 ^ 64"

definition load_bytes :: "u8 list \<Rightarrow> nat \<Rightarrow> nat \<Rightarrow> u8 list run" where
  "load_bytes m src n = (if src + n \<le> length m then Inr (take n (drop src m)) else Inl OutOfBounds)"

definition store_bytes :: "u8 list \<Rightarrow> nat \<Rightarrow> u8 list \<Rightarrow> u8 list run" where
  "store_bytes m dst bs = (if dst + length bs \<le> length m then Inr (take dst m @ bs @ drop (dst + length bs) m) else Inl OutOfBounds)"

text \<open>\<open>memcpy\<close> within the block; overlapping regions are undefined in C.\<close>

definition memcpy_bytes :: "u8 list \<Rightarrow> nat \<Rightarrow> nat \<Rightarrow> nat \<Rightarrow> u8 list run" where
  "memcpy_bytes m dst src n =
     (if dst + n \<le> src \<or> src + n \<le> dst then bindR (load_bytes m src n) (store_bytes m dst) else Inl OutOfBounds)"

section \<open>The operations on bytes\<close>

record byte_queue =
  bq_data :: "u8 list"
  bq_count :: nat
  bq_allocated :: nat
  bq_elem_size :: nat
  bq_cmp_func :: "u8 list \<Rightarrow> u8 list \<Rightarrow> int"

text \<open>A call of the comparison function on two slots.\<close>

definition compare_slots :: "byte_queue \<Rightarrow> nat \<Rightarrow> nat \<Rightarrow> int run" where
  "compare_slots q i j =
     (let e = bq_elem_size q in
      bindR (load_bytes (bq_data q) (addr 0 i e) e) (\<lambda>x.
      bindR (load_bytes (bq_data q) (addr 0 j e) e) (\<lambda>y. Inr (bq_cmp_func q x y))))"

definition heapify_largest_bytes :: "byte_queue \<Rightarrow> nat \<Rightarrow> nat run" where
  "heapify_largest_bytes q pos =
     (let l = left pos; r = right pos; c = bq_count q in
      bindR (if l < c then bindR (compare_slots q l r) (\<lambda>d. Inr (if d > 0 then l else pos)) else Inr pos) (\<lambda>largest.
      if r < c then bindR (compare_slots q r largest) (\<lambda>d. Inr (if d > 0 then r else largest)) else Inr largest))"

text \<open>The swap of two slots through an auxiliary buffer on the stack.\<close>

definition swap_bytes :: "byte_queue \<Rightarrow> nat \<Rightarrow> nat \<Rightarrow> byte_queue run" where
  "swap_bytes q pos largest =
     (let e = bq_elem_size q in
      bindR (load_bytes (bq_data q) (addr 0 pos e) e) (\<lambda>aux.
      bindR (memcpy_bytes (bq_data q) (addr 0 pos e) (addr 0 largest e) e) (\<lambda>m.
      bindR (store_bytes m (addr 0 largest e) aux) (\<lambda>m. Inr (q\<lparr>bq_data := m\<rparr>)))))"

lemma heapify_largest_bytes_bound:
  "heapify_largest_bytes q pos = Inr k \<Longrightarrow> k \<noteq> pos \<Longrightarrow> pos < k \<and> k < bq_count q"
  by (auto simp: heapify_largest_bytes_def Let_def left_def right_def elim!: bindR_InrE split: if_splits)

lemma swap_bytes_count: "swap_bytes q i j = Inr q' \<Longrightarrow> bq_count q' = bq_count q"
  by (auto simp: swap_bytes_def Let_def elim!: bindR_InrE)

function heapify_bytes :: "byte_queue \<Rightarrow> nat \<Rightarrow> byte_queue run" where
  "heapify_bytes q pos =
     (case heapify_largest_bytes q pos of
        Inl s \<Rightarrow> Inl s
      | Inr largest \<Rightarrow>
          if largest \<noteq> pos
          then (case swap_bytes q pos largest of Inl s \<Rightarrow> Inl s | Inr q \<Rightarrow> heapify_bytes q largest)
          else Inr q)"
  by pat_completeness auto
termination
  by (relation "measure (\<lambda>(q, pos). bq_count q - pos)")
    (auto dest!: heapify_largest_bytes_bound swap_bytes_count simp: diff_less_mono2)

declare heapify_bytes.simps [simp del]

definition extract_bytes :: "byte_queue \<Rightarrow> byte_queue run" where
  "extract_bytes q =
     (if bq_count q = 0 then Inr q
      else let q = q\<lparr>bq_count := bq_count q - 1\<rparr>; e = bq_elem_size q in
        if bq_count q > 0
        then bindR (memcpy_bytes (bq_data q) 0 (addr 0 (bq_count q) e) e) (\<lambda>m. heapify_bytes (q\<lparr>bq_data := m\<rparr>) 0)
        else Inr q)"

function insert_sift_bytes :: "byte_queue \<Rightarrow> u8 list \<Rightarrow> nat \<Rightarrow> (u8 list \<times> nat) run" where
  "insert_sift_bytes q key i =
     (if i = 0 then Inr (bq_data q, 0)
      else let e = bq_elem_size q; aux = addr 0 (parent i) e in
        case load_bytes (bq_data q) aux e of
          Inl s \<Rightarrow> Inl s
        | Inr x \<Rightarrow>
            if bq_cmp_func q x key \<ge> 0 then Inr (bq_data q, i)
            else (case memcpy_bytes (bq_data q) (addr 0 i e) aux e of
                    Inl s \<Rightarrow> Inl s
                  | Inr m \<Rightarrow> insert_sift_bytes (q\<lparr>bq_data := m\<rparr>) key (parent i)))"
  by pat_completeness auto
termination
  by (relation "measure (\<lambda>(q, key, i). i)") (auto simp: parent_less)

declare insert_sift_bytes.simps [simp del]

definition insertInternal_bytes :: "byte_queue \<Rightarrow> u8 list \<Rightarrow> byte_queue run" where
  "insertInternal_bytes q key =
     bindR (insert_sift_bytes q key (bq_count q)) (\<lambda>(m, i).
     bindR (store_bytes m (addr 0 i (bq_elem_size q)) key) (\<lambda>m.
     Inr (q\<lparr>bq_data := m, bq_count := bq_count q + 1\<rparr>)))"

text \<open>Blocks are allocated as bytes: \<open>n * elem_size\<close> of them, computed in \<open>size_t\<close>.\<close>

definition insert_bytes :: "u8 heap_env \<Rightarrow> byte_queue \<Rightarrow> u8 list \<Rightarrow> byte_queue run" where
  "insert_bytes H q key =
     (if bq_count q = bq_allocated q then
        (let new_size = (bq_allocated q * 2 + 1) mod 2 ^ 64 in
         if new_size < bq_allocated q then Inl (Exit 1)
         else bindR (Erealloc H (bq_data q) (alloc_bytes new_size (bq_elem_size q)) 1) (\<lambda>block.
              insertInternal_bytes (q\<lparr>bq_allocated := new_size, bq_data := block\<rparr>) key))
      else insertInternal_bytes q key)"

definition init_bytes :: "u8 heap_env \<Rightarrow> (u8 list \<Rightarrow> u8 list \<Rightarrow> int) \<Rightarrow> nat \<Rightarrow> nat \<Rightarrow> byte_queue run" where
  "init_bytes H cmp_func cnt elem_size =
     assertR (0 < elem_size)
       (let cnt' = powify cnt in
        bindR (Emalloc H (alloc_bytes cnt' elem_size) 1) (\<lambda>block.
        Inr \<lparr>bq_data = block, bq_count = 0, bq_allocated = cnt', bq_elem_size = elem_size, bq_cmp_func = cmp_func\<rparr>))"

section \<open>Slots\<close>

text \<open>The bytes of a slot, and what they stand for.\<close>

definition slot :: "nat \<Rightarrow> u8 list \<Rightarrow> nat \<Rightarrow> u8 list" where
  "slot e m i = take e (drop (i * e) m)"

definition slots :: "(u8 list \<Rightarrow> 'a) \<Rightarrow> nat \<Rightarrow> u8 list \<Rightarrow> nat \<Rightarrow> 'a list" where
  "slots dec e m n = map (\<lambda>i. dec (slot e m i)) [0..<n]"

definition represents :: "(u8 list \<Rightarrow> 'a) \<Rightarrow> byte_queue \<Rightarrow> 'a PriorityQueue \<Rightarrow> bool" where
  "represents dec b q \<longleftrightarrow>
     0 < bq_elem_size b \<and> 0 < bq_allocated b \<and> bq_allocated b * bq_elem_size b \<le> address_space \<and> length (bq_data b) = bq_allocated b * bq_elem_size b
   \<and> pq_data q = slots dec (bq_elem_size b) (bq_data b) (bq_allocated b) \<and> pq_count q = bq_count b \<and> bq_count b \<le> bq_allocated b
   \<and> pq_allocated q = bq_allocated b \<and> pq_elem_size q = bq_elem_size b
   \<and> bq_cmp_func b = (\<lambda>x y. pq_cmp_func q (dec x) (dec y))"

text \<open>A block of \<open>n\<close> slots that fits into the address space: addresses do not wrap around.\<close>

definition block :: "nat \<Rightarrow> nat \<Rightarrow> u8 list \<Rightarrow> bool" where
  "block e n m \<longleftrightarrow> 0 < e \<and> n * e \<le> address_space \<and> length m = n * e"

lemma slot_end: "(i::nat) < n \<Longrightarrow> i * e + e \<le> n * e"
  by (metis Suc_leI add.commute mult_Suc mult_le_mono1)

lemma slots_apart: "(i::nat) < j \<Longrightarrow> i * e + e \<le> j * e"
  by (rule slot_end)

lemma addr_block: "block e n m \<Longrightarrow> i < n \<Longrightarrow> addr 0 i e = i * e"
  using slot_end[of i n e] by (simp add: addr_def block_def address_space_def)

lemma load_block: "block e n m \<Longrightarrow> i < n \<Longrightarrow> load_bytes m (i * e) e = Inr (slot e m i)"
  using slot_end[of i n e] by (simp add: load_bytes_def block_def slot_def)

definition put_slot :: "nat \<Rightarrow> u8 list \<Rightarrow> nat \<Rightarrow> u8 list \<Rightarrow> u8 list" where
  "put_slot e m i bs = take (i * e) m @ bs @ drop (i * e + e) m"

lemma store_block: "block e n m \<Longrightarrow> i < n \<Longrightarrow> length bs = e \<Longrightarrow> store_bytes m (i * e) bs = Inr (put_slot e m i bs)"
  using slot_end[of i n e] by (simp add: store_bytes_def block_def put_slot_def)

lemma put_block: "block e n m \<Longrightarrow> i < n \<Longrightarrow> length bs = e \<Longrightarrow> block e n (put_slot e m i bs)"
  using slot_end[of i n e] by (simp add: block_def put_slot_def)

lemma length_slot: "block e n m \<Longrightarrow> i < n \<Longrightarrow> length (slot e m i) = e"
  using slot_end[of i n e] by (simp add: slot_def block_def)

lemma slot_put:
  assumes "block e n m" "i < n" "j < n" "length bs = e"
  shows "slot e (put_slot e m i bs) j = (if j = i then bs else slot e m j)"
proof -
  have l: "length m = n * e" "i * e + e \<le> n * e" "j * e + e \<le> n * e" using assms slot_end by (auto simp: block_def)
  consider "j = i" | "j < i" | "i < j" by linarith
  then show ?thesis
  proof cases
    case 1
    have "min (n * e) (i * e) = i * e" using l by linarith
    with 1 show ?thesis using l assms(4) by (simp add: slot_def put_slot_def)
  next
    case 2
    then have "min e (i * e - j * e) = e" "min (n * e) (i * e) = i * e" "j * e + e \<le> i * e" using l slots_apart[OF 2, of e] by linarith+
    with 2 show ?thesis using l assms(4) by (simp add: slot_def put_slot_def drop_take)
  next
    case 3
    then have "i * e + e \<le> j * e" by (rule slots_apart)
    moreover from this have "j * e + i * e - min (n * e) (i * e) = j * e" using l by linarith
    ultimately show ?thesis using 3 l assms(4) by (simp add: slot_def put_slot_def)
  qed
qed

lemma slots_put:
  assumes "block e n m" "i < n" "length bs = e"
  shows "slots dec e (put_slot e m i bs) n = (slots dec e m n)[i := dec bs]"
  using assms by (intro nth_equalityI) (auto simp: slots_def slot_put nth_list_update)

lemma slots_nth: "i < n \<Longrightarrow> slots dec e m n ! i = dec (slot e m i)" "length (slots dec e m n) = n"
  by (simp_all add: slots_def)

lemma memcpy_block:
  assumes "block e n m" "i < n" "j < n" "i \<noteq> j"
  shows "memcpy_bytes m (i * e) (j * e) e = Inr (put_slot e m i (slot e m j))"
proof -
  have "i * e + e \<le> j * e \<or> j * e + e \<le> i * e" using assms(4) slots_apart[of i j e] slots_apart[of j i e] by linarith
  then show ?thesis using assms by (simp add: memcpy_bytes_def load_block store_block[OF assms(1,2) length_slot[OF assms(1,3)]])
qed

section \<open>Refinement\<close>

text \<open>Two calls that stop for the same reason, or return related values.\<close>

definition refinesR :: "('a \<Rightarrow> 'b \<Rightarrow> bool) \<Rightarrow> 'a run \<Rightarrow> 'b run \<Rightarrow> bool" where
  "refinesR R r r' \<longleftrightarrow> (case r of Inl s \<Rightarrow> r' = Inl s | Inr x \<Rightarrow> (case r' of Inl _ \<Rightarrow> False | Inr y \<Rightarrow> R x y))"

lemma refinesR_simps [simp]:
  "refinesR R (Inr x) (Inr y) = R x y" "refinesR R (Inl s) (Inl t) \<longleftrightarrow> s = t"
  "\<not> refinesR R (Inl s) (Inr y)" "\<not> refinesR R (Inr x) (Inl t)"
  by (auto simp: refinesR_def)

lemma refinesR_bind:
  assumes "refinesR R r r'" "\<And>x y. R x y \<Longrightarrow> refinesR S (f x) (g y)"
  shows "refinesR S (bindR r f) (bindR r' g)"
  using assms by (cases r; cases r') auto

lemma represents_block: "represents dec b q \<Longrightarrow> block (bq_elem_size b) (bq_allocated b) (bq_data b)"
  by (simp add: represents_def block_def)

lemma represents_slot:
  "represents dec b q \<Longrightarrow> i < bq_allocated b \<Longrightarrow> pq_data q ! i = dec (slot (bq_elem_size b) (bq_data b) i)"
  by (simp add: represents_def slots_nth)

text \<open>One slot is replaced.\<close>

lemma represents_put:
  assumes "represents dec b q" "i < bq_allocated b" "length bs = bq_elem_size b"
  shows "represents dec (b\<lparr>bq_data := put_slot (bq_elem_size b) (bq_data b) i bs\<rparr>) (q\<lparr>pq_data := (pq_data q)[i := dec bs]\<rparr>)"
  using assms put_block[OF represents_block[OF assms(1)] assms(2,3)] slots_put[OF represents_block[OF assms(1)] assms(2,3), where dec = dec]
  by (simp add: represents_def block_def)

lemma load_slot:
  "represents dec b q \<Longrightarrow> i < bq_allocated b \<Longrightarrow>
   load_bytes (bq_data b) (addr 0 i (bq_elem_size b)) (bq_elem_size b) = Inr (slot (bq_elem_size b) (bq_data b) i)"
  using addr_block load_block represents_block by metis

lemma copy_slot:
  assumes "represents dec b q" "i < bq_allocated b" "j < bq_allocated b" "i \<noteq> j"
  shows "memcpy_bytes (bq_data b) (addr 0 i (bq_elem_size b)) (addr 0 j (bq_elem_size b)) (bq_elem_size b)
       = Inr (put_slot (bq_elem_size b) (bq_data b) i (slot (bq_elem_size b) (bq_data b) j))"
    "represents dec (b\<lparr>bq_data := put_slot (bq_elem_size b) (bq_data b) i (slot (bq_elem_size b) (bq_data b) j)\<rparr>)
       (q\<lparr>pq_data := (pq_data q)[i := pq_data q ! j]\<rparr>)"
proof -
  note bl = represents_block[OF assms(1)]
  show "memcpy_bytes (bq_data b) (addr 0 i (bq_elem_size b)) (addr 0 j (bq_elem_size b)) (bq_elem_size b)
       = Inr (put_slot (bq_elem_size b) (bq_data b) i (slot (bq_elem_size b) (bq_data b) j))"
    using memcpy_block[OF bl assms(2-4)] addr_block[OF bl assms(2)] addr_block[OF bl assms(3)] by simp
  show "represents dec (b\<lparr>bq_data := put_slot (bq_elem_size b) (bq_data b) i (slot (bq_elem_size b) (bq_data b) j)\<rparr>)
       (q\<lparr>pq_data := (pq_data q)[i := pq_data q ! j]\<rparr>)"
    using represents_put[OF assms(1,2) length_slot[OF bl assms(3)]] represents_slot[OF assms(1,3)] by simp
qed

lemma compare_slots_refine:
  "represents dec b q \<Longrightarrow> i < bq_allocated b \<Longrightarrow> j < bq_allocated b \<Longrightarrow>
   compare_slots b i j = Inr (pq_cmp_func q (pq_data q ! i) (pq_data q ! j))"
  by (simp add: compare_slots_def Let_def load_slot represents_slot) (simp add: represents_def)

lemma heapify_largest_refine:
  assumes "represents dec b q" "bq_count b < bq_allocated b"
  shows "heapify_largest_bytes b pos = Inr (heapify_largest q pos)"
proof -
  have c: "pq_count q = bq_count b" using assms(1) by (simp add: represents_def)
  have cmp: "compare_slots b i j = Inr (pq_cmp_func q (pq_data q ! i) (pq_data q ! j))" if "i \<le> bq_count b" "j \<le> bq_count b" for i j
    by (rule compare_slots_refine[OF assms(1)]) (use that assms(2) in simp_all)
  show ?thesis
    by (auto simp: heapify_largest_bytes_def heapify_largest_def Let_def c cmp left_def right_def)
qed

lemma swap_refine:
  assumes "represents dec b q" "i < bq_allocated b" "j < bq_allocated b" "i \<noteq> j"
  shows "\<exists>b'. swap_bytes b i j = Inr b' \<and> represents dec b' (q\<lparr>pq_data := swap_slots (pq_data q) i j\<rparr>)
     \<and> bq_count b' = bq_count b \<and> bq_allocated b' = bq_allocated b"
proof -
  note bl = represents_block[OF assms(1)]
  let ?e = "bq_elem_size b"
  let ?b = "b\<lparr>bq_data := put_slot ?e (bq_data b) i (slot ?e (bq_data b) j)\<rparr>"
  have l: "length (slot ?e (bq_data b) i) = bq_elem_size ?b" using length_slot[OF bl assms(2)] by simp
  have s: "store_bytes (bq_data ?b) (addr 0 j ?e) (slot ?e (bq_data b) i) = Inr (put_slot ?e (bq_data ?b) j (slot ?e (bq_data b) i))"
    using store_block[OF represents_block[OF copy_slot(2)[OF assms]], of j "slot ?e (bq_data b) i"] addr_block[OF bl assms(3)] assms(3) l by simp
  have "represents dec (?b\<lparr>bq_data := put_slot ?e (bq_data ?b) j (slot ?e (bq_data b) i)\<rparr>) (q\<lparr>pq_data := swap_slots (pq_data q) i j\<rparr>)"
    using represents_put[OF copy_slot(2)[OF assms] _ l, of j] assms(3) represents_slot[OF assms(1,2)] by (simp add: swap_slots_def)
  with s show ?thesis by (auto simp: swap_bytes_def Let_def load_slot[OF assms(1,2)] copy_slot(1)[OF assms])
qed

lemma heapify_refine:
  "represents dec b q \<Longrightarrow> bq_count b < bq_allocated b \<Longrightarrow>
   \<exists>b'. heapify_bytes b pos = Inr b' \<and> represents dec b' (PriorityQueue_heapify q pos)"
proof (induction q pos arbitrary: b rule: PriorityQueue_heapify.induct)
  case (1 q pos)
  let ?k = "heapify_largest q pos"
  note k = heapify_largest_refine[OF "1.prems", of pos]
  show ?case
  proof (cases "?k = pos")
    case True
    then show ?thesis using k "1.prems"(1)
      by (subst heapify_bytes.simps, subst PriorityQueue_heapify.simps) (simp add: Let_def)
  next
    case False
    have "pq_count q = bq_count b" using "1.prems"(1) by (simp add: represents_def)
    with heapify_largest_bound[OF False] "1.prems"(2) have "pos < bq_allocated b" "?k < bq_allocated b" by simp_all
    from swap_refine[OF "1.prems"(1) this] False obtain b' where
      b': "swap_bytes b pos ?k = Inr b'" "represents dec b' (q\<lparr>pq_data := swap_slots (pq_data q) pos ?k\<rparr>)"
      "bq_count b' < bq_allocated b'" using "1.prems"(2) by auto
    from "1.IH"[OF refl False b'(2,3)] show ?thesis
      using k b'(1) False by (subst heapify_bytes.simps, subst PriorityQueue_heapify.simps) (simp add: Let_def)
  qed
qed

lemma extract_refine:
  assumes "represents dec b q"
  shows "\<exists>b'. extract_bytes b = Inr b' \<and> represents dec b' (PriorityQueue_extract q)"
proof -
  have c: "pq_count q = bq_count b" "bq_count b \<le> bq_allocated b" using assms by (simp_all add: represents_def)
  let ?n = "bq_count b - 1"
  let ?b = "b\<lparr>bq_count := ?n\<rparr>" and ?q = "q\<lparr>pq_count := ?n\<rparr>"
  have r: "represents dec ?b ?q" using assms by (auto simp: represents_def)
  consider "bq_count b = 0" | "bq_count b = 1" | "0 < ?n" by linarith
  then show ?thesis
  proof cases
    case 3
    then have n: "0 < bq_allocated ?b" "?n < bq_allocated ?b" "0 \<noteq> ?n" using c(2) by auto
    note cp = copy_slot[OF r n]
    have "addr 0 0 (bq_elem_size b) = 0" by (simp add: addr_def)
    with heapify_refine[OF cp(2), of 0] cp(1) n(2) 3 show ?thesis
      by (auto simp: extract_bytes_def PriorityQueue_extract_def Let_def c(1))
  qed (use assms r c in \<open>auto simp: extract_bytes_def PriorityQueue_extract_def Let_def\<close>)
qed

lemma insert_sift_refine:
  "represents dec b q \<Longrightarrow> i < bq_allocated b \<Longrightarrow>
   \<exists>m k. insert_sift_bytes b key i = Inr (m, k) \<and> k < bq_allocated b
     \<and> insert_sift (pq_cmp_func q) (pq_data q) (dec key) i = (slots dec (bq_elem_size b) m (bq_allocated b), k)
     \<and> length m = bq_allocated b * bq_elem_size b"
proof (induction b key i arbitrary: q rule: insert_sift_bytes.induct)
  case (1 b key i)
  let ?e = "bq_elem_size b"
  show ?case
  proof (cases i)
    case 0
    then show ?thesis using "1.prems" by (subst insert_sift_bytes.simps) (simp add: represents_def)
  next
    case (Suc k)
    then have p: "parent i < i" "parent i < bq_allocated b" "i \<noteq> parent i" using parent_less[of i] "1.prems"(2) by auto
    note ld = load_slot[OF "1.prems"(1) p(2)]
    have cmp: "bq_cmp_func b (slot ?e (bq_data b) (parent i)) key = pq_cmp_func q (pq_data q ! parent i) (dec key)"
      using represents_slot[OF "1.prems"(1) p(2)] "1.prems"(1) by (simp add: represents_def)
    note cp = copy_slot[OF "1.prems" p(2,3)]
    show ?thesis
    proof (cases "0 \<le> pq_cmp_func q (pq_data q ! parent i) (dec key)")
      case True
      then show ?thesis using "1.prems" Suc ld cmp by (subst insert_sift_bytes.simps) (simp add: Let_def represents_def)
    next
      case False
      from "1.IH"[OF _ refl refl ld _ cp(1) cp(2)] Suc cmp False p(2) show ?thesis
        using ld cp(1) by (subst insert_sift_bytes.simps) (simp add: Let_def)
    qed
  qed
qed

lemma insertInternal_refine:
  assumes "represents dec b q" "bq_count b < bq_allocated b" "length key = bq_elem_size b"
  shows "\<exists>b'. insertInternal_bytes b key = Inr b' \<and> represents dec b' (PriorityQueue_insertInternal q (dec key))"
proof -
  have c: "pq_count q = bq_count b" using assms(1) by (simp add: represents_def)
  obtain m k where s: "insert_sift_bytes b key (bq_count b) = Inr (m, k)" "k < bq_allocated b"
    "insert_sift (pq_cmp_func q) (pq_data q) (dec key) (bq_count b) = (slots dec (bq_elem_size b) m (bq_allocated b), k)"
    "length m = bq_allocated b * bq_elem_size b" using insert_sift_refine[OF assms(1,2), of key] by blast
  let ?b = "b\<lparr>bq_data := m\<rparr>" and ?q = "q\<lparr>pq_data := slots dec (bq_elem_size b) m (bq_allocated b)\<rparr>"
  have r: "represents dec ?b ?q" using assms(1) s(4) by (simp add: represents_def)
  have k: "k < bq_allocated ?b" "length key = bq_elem_size ?b" using s(2) assms(3) by simp_all
  have "store_bytes m (addr 0 k (bq_elem_size b)) key = Inr (put_slot (bq_elem_size b) m k key)"
    using store_block[OF represents_block[OF r] k] addr_block[OF represents_block[OF r] k(1)] by simp
  moreover have "represents dec (?b\<lparr>bq_data := put_slot (bq_elem_size b) m k key, bq_count := bq_count b + 1\<rparr>)
      (?q\<lparr>pq_data := (pq_data ?q)[k := dec key], pq_count := bq_count b + 1\<rparr>)"
    using represents_put[OF r k] assms(2) by (simp add: represents_def)
  ultimately show ?thesis using s(1,3) c by (simp add: insertInternal_bytes_def PriorityQueue_insertInternal_def)
qed

text \<open>The allocator on elements that an allocator of bytes gives.\<close>

definition element_env :: "(u8 list \<Rightarrow> 'a) \<Rightarrow> nat \<Rightarrow> u8 heap_env \<Rightarrow> 'a heap_env" where
  "element_env dec e H = \<lparr>env_oom = env_oom H, env_mem = (\<lambda>i. dec (map (env_mem H) [i * e..<i * e + e]))\<rparr>"

lemma Erealloc_fails: "alloc_fails H n e \<Longrightarrow> alloc_bytes n e \<noteq> 0 \<Longrightarrow> Erealloc H ptr n e = Inl (Exit 1)"
  by (simp add: Erealloc_def)

lemma fresh_slot:
  assumes "i < n"
  shows "take e (drop (i * e) (map f [0..<n * e])) = map f [i * e..<i * e + e]"
  using slot_end[OF assms, of e] by (simp add: take_map drop_map)

text \<open>A block grows by slots that hold what the allocator left there.\<close>

lemma grown_slots:
  assumes "length m = a * e" "a \<le> n"
  shows "slots dec e (m @ map f [a * e..<n * e]) n = slots dec e m a @ map (\<lambda>i. dec (map f [i * e..<i * e + e])) [a..<n]"
proof (rule nth_equalityI)
  show "length (slots dec e (m @ map f [a * e..<n * e]) n) = length (slots dec e m a @ map (\<lambda>i. dec (map f [i * e..<i * e + e])) [a..<n])"
    using assms(2) by (simp add: slots_def)
  fix i assume "i < length (slots dec e (m @ map f [a * e..<n * e]) n)"
  then have i: "i < n" by (simp add: slots_def)
  have "slot e (m @ map f [a * e..<n * e]) i = (if i < a then slot e m i else map f [i * e..<i * e + e])"
  proof (cases "i < a")
    case True
    then show ?thesis using assms(1) slot_end[OF True, of e] by (simp add: slot_def)
  next
    case False
    then have le: "a * e \<le> i * e" "i * e + e \<le> n * e" using slot_end[OF i, of e] by simp_all
    have "drop (i * e) (m @ map f [a * e..<n * e]) = map f [i * e..<n * e]"
      using le(1) assms(1) by (simp add: drop_map)
    then show ?thesis using False le(2) by (simp add: slot_def take_map)
  qed
  then show "slots dec e (m @ map f [a * e..<n * e]) n ! i = (slots dec e m a @ map (\<lambda>i. dec (map f [i * e..<i * e + e])) [a..<n]) ! i"
    using i assms(2) nth_upt[of a "i - a" n] by (cases "i < a") (simp_all add: slots_nth nth_append)
qed

text \<open>The call of \<open>realloc\<close> for a block with more slots.\<close>

lemma grow_refine:
  assumes "length m = a * e" "0 < e" "a < n" "n * e \<le> 4 * address_space"
  shows "refinesR (\<lambda>m' xs. length m' = n * e \<and> n * e \<le> address_space \<and> xs = slots dec e m' n)
     (Erealloc H m (alloc_bytes n e) 1) (Erealloc (element_env dec e H) (slots dec e m a) n e)"
proof -
  let ?E = "element_env dec e H"
  have ab: "alloc_bytes n e = n * e" "alloc_bytes (n * e) 1 = n * e" "0 < n * e"
    using alloc_bytes_exact[OF assms(2,4)] assms by (simp_all add: alloc_bytes_def address_space_def)
  have le: "a * e \<le> n * e" using assms(3) by simp
  show ?thesis
  proof (cases "env_oom H \<or> address_space < n * e")
    case True
    then have "alloc_fails H (n * e) 1" "alloc_fails ?E n e" using ab by (auto simp: alloc_fails_def element_env_def)
    moreover have "alloc_bytes (n * e) 1 \<noteq> 0" "alloc_bytes n e \<noteq> 0" using ab by simp_all
    ultimately show ?thesis by (simp add: Erealloc_fails ab(1))
  next
    case False
    then have "Erealloc H m (n * e) 1 = Inr (m @ map (env_mem H) [a * e..<n * e])"
      using assms(1) ab(3) le by (subst Erealloc_Inr_iff) simp_all
    moreover have "Erealloc ?E (slots dec e m a) n e = Inr (slots dec e (m @ map (env_mem H) [a * e..<n * e]) n)"
      using False assms grown_slots[OF assms(1), of n dec "env_mem H"] by (subst Erealloc_Inr_iff) (simp_all add: element_env_def slots_def)
    ultimately show ?thesis using False assms(1) ab(1) le by simp
  qed
qed

lemma insert_refine:
  assumes "represents dec b q" "length key = bq_elem_size b"
  shows "refinesR (represents dec) (insert_bytes H b key) (PriorityQueue_insert (element_env dec (bq_elem_size b) H) q (dec key))"
proof (cases "bq_count b = bq_allocated b")
  case False
  then have lt: "bq_count b < bq_allocated b" "pq_count q \<noteq> pq_allocated q" using assms(1) by (auto simp: represents_def)
  from insertInternal_refine[OF assms(1) lt(1) assms(2)] False lt(2) show ?thesis by (auto simp: insert_bytes_def PriorityQueue_insert_def)
next
  case True
  let ?e = "bq_elem_size b" and ?a = "bq_allocated b"
  define n where "n = 2 * ?a + 1"
  have r: "0 < ?e" "0 < ?a" "?a * ?e \<le> address_space" "length (bq_data b) = ?a * ?e" "pq_count q = pq_allocated q" "pq_allocated q = ?a"
    "pq_elem_size q = ?e" "pq_data q = slots dec ?e (bq_data b) ?a" using assms(1) True by (simp_all add: represents_def)
  have "?a \<le> address_space" "?e \<le> address_space" using r(1-3) by (auto intro: order_trans[OF _ r(3)])
  moreover have "n * ?e = 2 * (?a * ?e) + ?e" by (simp add: n_def algebra_simps)
  ultimately have n64: "n < 2 ^ 64" "n * ?e \<le> 4 * address_space" using r(3) by (simp add: address_space_def n_def, linarith)
  have new: "(?a * 2 + 1) mod 2 ^ 64 = n" "?a < n" using n64(1) by (simp_all add: n_def mult.commute)
  have "refinesR (represents dec)
      (bindR (Erealloc H (bq_data b) (alloc_bytes n ?e) 1) (\<lambda>block. insertInternal_bytes (b\<lparr>bq_allocated := n, bq_data := block\<rparr>) key))
      (bindR (Erealloc (element_env dec ?e H) (pq_data q) n ?e) (\<lambda>xs. Inr (PriorityQueue_insertInternal (q\<lparr>pq_allocated := n, pq_data := xs\<rparr>) (dec key))))"
    unfolding r(8)
  proof (rule refinesR_bind[OF grow_refine[OF r(4,1) new(2) n64(2)]])
    fix m xs assume "length m = n * ?e \<and> n * ?e \<le> address_space \<and> xs = slots dec ?e m n"
    then have "represents dec (b\<lparr>bq_allocated := n, bq_data := m\<rparr>) (q\<lparr>pq_allocated := n, pq_data := xs\<rparr>)"
      using assms(1) new(2) by (simp add: represents_def)
    from insertInternal_refine[OF this, of key] True assms(2) new(2)
    show "refinesR (represents dec) (insertInternal_bytes (b\<lparr>bq_allocated := n, bq_data := m\<rparr>) key)
        (Inr (PriorityQueue_insertInternal (q\<lparr>pq_allocated := n, pq_data := xs\<rparr>) (dec key)))" by auto
  qed
  then show ?thesis using True r(5-7) new by (simp add: insert_bytes_def PriorityQueue_insert_def Let_def)
qed

section \<open>Sequences of operations\<close>

datatype 'k queue_op = Insert 'k | Extract

primrec run_op :: "'a heap_env \<Rightarrow> 'a PriorityQueue \<Rightarrow> 'a queue_op \<Rightarrow> 'a PriorityQueue run" where
  "run_op H q (Insert k) = PriorityQueue_insert H q k"
| "run_op H q Extract = Inr (PriorityQueue_extract q)"

primrec run_op_bytes :: "u8 heap_env \<Rightarrow> byte_queue \<Rightarrow> u8 list queue_op \<Rightarrow> byte_queue run" where
  "run_op_bytes H q (Insert k) = insert_bytes H q k"
| "run_op_bytes H q Extract = extract_bytes q"

text \<open>Keys have the size of an element.\<close>

primrec key_ok :: "nat \<Rightarrow> u8 list queue_op \<Rightarrow> bool" where
  "key_ok e (Insert k) \<longleftrightarrow> length k = e"
| "key_ok e Extract \<longleftrightarrow> True"

lemma heapify_elem_size: "pq_elem_size (PriorityQueue_heapify q pos) = pq_elem_size q"
  by (induction q pos rule: PriorityQueue_heapify.induct) (subst PriorityQueue_heapify.simps, simp add: Let_def)

lemma run_op_elem_size: "run_op H q x = Inr q' \<Longrightarrow> pq_elem_size q' = pq_elem_size q"
  by (cases x)
    (auto simp: PriorityQueue_insert_def PriorityQueue_insertInternal_def PriorityQueue_extract_def heapify_elem_size Let_def
      elim!: bindR_InrE split: if_splits prod.splits)

lemma run_op_refine:
  assumes "represents dec b q" "key_ok (pq_elem_size q) x"
  shows "refinesR (represents dec) (run_op_bytes H b x) (run_op (element_env dec (pq_elem_size q) H) q (map_queue_op dec x))"
proof -
  have "bq_elem_size b = pq_elem_size q" using assms(1) by (simp add: represents_def)
  then show ?thesis using insert_refine[OF assms(1), of _ H] extract_refine[OF assms(1)] assms(2) by (cases x) auto
qed

lemma run_ops_refine:
  "represents dec b q \<Longrightarrow> list_all (key_ok (pq_elem_size q)) xs \<Longrightarrow>
   refinesR (represents dec) (foldR (run_op_bytes H) b xs) (foldR (run_op (element_env dec (pq_elem_size q) H)) q (map (map_queue_op dec) xs))"
proof (induction xs arbitrary: b q)
  case (Cons x xs)
  let ?H = "element_env dec (pq_elem_size q) H"
  have r: "refinesR (represents dec) (run_op_bytes H b x) (run_op ?H q (map_queue_op dec x))"
    using run_op_refine[OF Cons.prems(1)] Cons.prems(2) by simp
  show ?case
  proof (cases "run_op_bytes H b x")
    case (Inl s)
    with r have "run_op ?H q (map_queue_op dec x) = Inl s" by (simp add: refinesR_def)
    with Inl show ?thesis by simp
  next
    case (Inr b')
    with r obtain q' where q': "run_op ?H q (map_queue_op dec x) = Inr q'" "represents dec b' q'" by (auto simp: refinesR_def split: sum.splits)
    with Cons.IH[OF q'(2)] Cons.prems(2) run_op_elem_size[OF q'(1)] Inr show ?thesis by simp
  qed
qed simp

text \<open>The queue on elements never stops for an access outside of its block.\<close>

lemma op_never: "run_op H q x \<noteq> Inl OutOfBounds"
  by (cases x) (auto simp: PriorityQueue_insert_def Erealloc_def FatalErrnoError_def Let_def run_simps)

lemma fold_never: "foldR (run_op H) q xs \<noteq> Inl OutOfBounds"
proof (induction xs arbitrary: q)
  case (Cons x xs)
  then show ?case using op_never[of H q x] by (cases "run_op H q x") auto
qed simp

lemma init_refine:
  assumes "0 < powify cnt" "powify cnt * e \<le> address_space" "0 < e" "cmp_func = (\<lambda>x y. cmp (dec x) (dec y))"
  shows "refinesR (represents dec) (init_bytes H cmp_func cnt e) (PriorityQueue_init (element_env dec e H) cmp cnt e)"
proof -
  have a: "alloc_bytes (powify cnt) e = powify cnt * e" "alloc_bytes (powify cnt * e) 1 = powify cnt * e"
    using alloc_bytes_exact[OF assms(3)] assms(2) by (simp_all add: alloc_bytes_def address_space_def)
  show ?thesis
  proof (cases "env_oom H")
    case True
    then show ?thesis using assms a
      by (simp add: init_bytes_def PriorityQueue_init_def Let_def Emalloc_def alloc_fails_def element_env_def)
  next
    case False
    then have "Emalloc H (powify cnt * e) 1 = Inr (map (env_mem H) [0..<powify cnt * e])"
      "Emalloc (element_env dec e H) (powify cnt) e = Inr (map (env_mem (element_env dec e H)) [0..<powify cnt])"
      using assms(2,3) by (simp_all add: Emalloc_Inr element_env_def)
    moreover have "map (env_mem (element_env dec e H)) [0..<powify cnt] = slots dec e (map (env_mem H) [0..<powify cnt * e]) (powify cnt)"
      by (simp add: slots_def slot_def element_env_def fresh_slot)
    ultimately show ?thesis using assms a
      by (simp add: init_bytes_def PriorityQueue_init_def Let_def represents_def)
  qed
qed

text \<open>
  C16: the queue on bytes behaves like the queue on elements. Whatever the bytes of an element mean, a queue that is created on a
  fresh block and worked on by any sequence of insertions and extractions stops exactly when the queue on elements does, and for the same
  reason; otherwise each slot of its block holds the bytes of the element at this position. The queue on elements never
  stops for an access outside of its block, so no copy or comparison reads or writes outside of the block, and none copies overlapping regions.
\<close>

theorem queue_bytes_refine:
  assumes "0 < powify cnt" and "powify cnt * e \<le> address_space" and "0 < e" and "list_all (key_ok e) xs"
    and "cmp_func = (\<lambda>x y. cmp (dec x) (dec y))"
  shows "refinesR (represents dec)
     (bindR (init_bytes H cmp_func cnt e) (\<lambda>b. foldR (run_op_bytes H) b xs))
     (bindR (PriorityQueue_init (element_env dec e H) cmp cnt e) (\<lambda>q. foldR (run_op (element_env dec e H)) q (map (map_queue_op dec) xs)))
   \<and> bindR (init_bytes H cmp_func cnt e) (\<lambda>b. foldR (run_op_bytes H) b xs) \<noteq> Inl OutOfBounds"
proof -
  have e: "pq_elem_size q = e" if "PriorityQueue_init (element_env dec e H) cmp cnt e = Inr q" for q
    using that by (auto simp: PriorityQueue_init_def Let_def run_simps)
  have ni: "PriorityQueue_init (element_env dec e H) cmp cnt e \<noteq> Inl OutOfBounds"
    using assms(3) by (auto simp: PriorityQueue_init_def Let_def Emalloc_def FatalErrnoError_def run_simps)
  have no: "foldR (run_op H') q ys \<noteq> Inl OutOfBounds" for H' :: "'a heap_env" and q ys
    by (rule fold_never)
  have i: "refinesR (represents dec) (init_bytes H cmp_func cnt e) (PriorityQueue_init (element_env dec e H) cmp cnt e)"
    using assms(1-3,5) by (rule init_refine)
  show ?thesis
  proof (cases "init_bytes H cmp_func cnt e")
    case (Inl s)
    with i ni show ?thesis by (auto simp: refinesR_def)
  next
    case (Inr b)
    with i obtain q where q: "PriorityQueue_init (element_env dec e H) cmp cnt e = Inr q" "represents dec b q" by (auto simp: refinesR_def split: sum.splits)
    have "refinesR (represents dec) (foldR (run_op_bytes H) b xs) (foldR (run_op (element_env dec e H)) q (map (map_queue_op dec) xs))"
      using run_ops_refine[OF q(2), of xs H] assms(4) e[OF q(1)] by simp
    with Inr q(1) no[of "element_env dec e H" q "map (map_queue_op dec) xs"] show ?thesis
      by (auto simp: refinesR_def split: sum.splits)
  qed
qed

definition example_byte_env :: "u8 heap_env" where
  "example_byte_env = \<lparr>env_oom = False, env_mem = (\<lambda>_. 0)\<rparr>"

text \<open>Elements of two bytes, compared by the second one: the block grows at the second insertion.\<close>

theorem queue_bytes_refine_witness:
  "\<exists>b q. bindR (init_bytes example_byte_env (\<lambda>x y. uint (x ! 1) - uint (y ! 1)) 1 2)
       (\<lambda>b. foldR (run_op_bytes example_byte_env) b [Insert [1, 3], Insert [2, 7], Extract]) = Inr b
     \<and> take 2 (bq_data b) = [1, 3] \<and> represents (\<lambda>x. uint (x ! 1)) b q \<and> PriorityQueue_max q = Some 3"
proof -
  let ?cmp = "\<lambda>x y. uint ((x :: u8 list) ! 1) - uint ((y :: u8 list) ! 1)"
  let ?run = "bindR (init_bytes example_byte_env ?cmp 1 2) (\<lambda>b. foldR (run_op_bytes example_byte_env) b [Insert [1, 3], Insert [2, 7], Extract])"
  have p: "powify 1 = 1" using powify_cases[of 1] powify_low[of 0 1 63] by simp
  let ?q = "\<lambda>m c a. \<lparr>bq_data = m, bq_count = c, bq_allocated = a, bq_elem_size = 2, bq_cmp_func = ?cmp\<rparr>"
  note ops = insertInternal_bytes_def insert_sift_bytes.simps addr_def load_bytes_def store_bytes_def memcpy_bytes_def parent_def
  have 0: "init_bytes example_byte_env ?cmp 1 2 = Inr (?q [0, 0] 0 1)"
    by (simp add: init_bytes_def Let_def p[simplified] alloc_bytes_def Emalloc_Inr address_space_def example_byte_env_def upt_rec)
  have 1: "insert_bytes example_byte_env (?q [0, 0] 0 1) [1, 3] = Inr (?q [1, 3] 1 1)"
    by (simp add: insert_bytes_def ops)
  have "Erealloc example_byte_env [1, 3] 6 1 = Inr [1, 3, 0, 0, 0, 0]"
    by (simp add: Erealloc_Inr_iff address_space_def example_byte_env_def upt_rec)
  then have 2: "insert_bytes example_byte_env (?q [1, 3] 1 1) [2, 7] = Inr (?q [2, 7, 1, 3, 0, 0] 2 3)"
    by (simp add: insert_bytes_def alloc_bytes_def ops)
  have 3: "extract_bytes (?q [2, 7, 1, 3, 0, 0] 2 3) = Inr (?q [1, 3, 1, 3, 0, 0] 1 3)"
    by (simp add: extract_bytes_def heapify_bytes.simps heapify_largest_bytes_def left_def right_def ops)
  let ?b = "?q [1, 3, 1, 3, 0, 0] 1 3"
  have b: "?run = Inr ?b" by (simp only: 0 1 2 3 bindR.simps foldR.simps run_op_bytes.simps)
  have h: "0 < powify 1" "powify 1 * 2 \<le> address_space" "0 < (2 :: nat)" "list_all (key_ok 2) [Insert [1, 3], Insert [2, 7], Extract]"
    by (simp_all add: p[simplified] address_space_def)
  from queue_bytes_refine[OF h, of ?cmp "(-)" "\<lambda>x. uint (x ! 1)" example_byte_env] b obtain q where q: "represents (\<lambda>x. uint (x ! 1)) ?b q"
    by (auto simp: refinesR_def split: sum.splits)
  have "PriorityQueue_max q = Some 3"
    using represents_slot[OF q, of 0] q by (simp add: represents_def PriorityQueue_max_def PriorityQueue_count_def slot_def)
  with b q show ?thesis by (intro exI[of _ ?b] exI[of _ q]) simp
qed

end
