(* ===== verification/List_Reload.thy ===== *)
theory List_Reload
  imports Blacklist Blacklist_Print
begin

text \<open>
  Printing a whole list with \<open>BlackList_print\<close> and loading the text again: the round trip of the entries, carried through the
  block-wise loader.
\<close>

section \<open>Printed lines\<close>

definition ip_line :: "IPData \<Rightarrow> string" where
  "ip_line d = entry_text (ip_v d) None False"

definition net_line :: "NetData \<Rightarrow> string" where
  "net_line d = entry_text (net_v d) (Some (net_mask d)) (net_no_ip d)"

definition list_lines :: "BlackList \<Rightarrow> string list" where
  "list_lines lst = map ip_line (bl_ip_list lst) @ map net_line (bl_net_list lst)"

text \<open>Entries whose printed line determines them, and what is read back.\<close>

definition ip_printable :: "IPData \<Rightarrow> bool" where
  "ip_printable d \<longleftrightarrow> printable (ip_v d)"

definition net_printable :: "NetData \<Rightarrow> bool" where
  "net_printable d \<longleftrightarrow> printable (net_v d) \<and> net_wf d \<and> \<not> (net_no_ip d \<and> b_status (net_v d) = blIGNORE)"

definition ip_restored :: "parse_env \<Rightarrow> IPData \<Rightarrow> IPData" where
  "ip_restored E d = d\<lparr>ip_v := (ip_v d)\<lparr>b_mac := stored_mac E (ip_v d)\<rparr>\<rparr>"

definition net_restored :: "parse_env \<Rightarrow> NetData \<Rightarrow> NetData" where
  "net_restored E d = d\<lparr>net_v := (net_v d)\<lparr>b_mac := stored_mac E (net_v d)\<rparr>\<rparr>"

lemma text_of_append [simp]: "text_of (v @ w) = text_of v @ text_of w"
  by (simp add: text_of_def)

lemma text_of_concat: "text_of (concat ws) = concat (map text_of ws)"
  by (induction ws) (simp_all add: text_of_def)

lemma printable_decided: "printable d \<Longrightarrow> b_status d \<noteq> blUNDECIDED"
  by (simp add: printable_def base_wf_def)

lemma print_list_text:
  assumes "\<forall>d\<in>set (bl_ip_list lst). ip_printable d" "\<forall>d\<in>set (bl_net_list lst). net_printable d"
  shows "text_of (BlackList_print lst fd) = file_text (list_lines lst)"
proof -
  have "\<forall>d\<in>set (bl_ip_list lst). text_of (BlackList_print_internal fd (ip_v d) None False) = ip_line d @ [NL]"
    using assms(1) by (simp add: ip_printable_def ip_line_def print_entry_text printable_decided)
  moreover have "\<forall>d\<in>set (bl_net_list lst).
      text_of (BlackList_print_internal fd (net_v d) (Some (net_mask d)) (net_no_ip d)) = net_line d @ [NL]"
    using assms(2) by (simp add: net_printable_def net_line_def print_entry_text printable_decided)
  ultimately have "map (\<lambda>d. text_of (BlackList_print_internal fd (ip_v d) None False)) (bl_ip_list lst)
       = map (\<lambda>l. l @ [NL]) (map ip_line (bl_ip_list lst))"
    "map (\<lambda>d. text_of (BlackList_print_internal fd (net_v d) (Some (net_mask d)) (net_no_ip d))) (bl_net_list lst)
       = map (\<lambda>l. l @ [NL]) (map net_line (bl_net_list lst))" by simp_all
  then show ?thesis
    by (simp only: BlackList_print_def text_of_append text_of_concat file_text_def list_lines_def map_append concat_append map_map comp_def)
qed

text \<open>The lines fit into the buffer of the loader and are lines.\<close>

lemma length_dec: "n < 10 ^ Suc k \<Longrightarrow> length (dec n) \<le> Suc k"
proof (induction k arbitrary: n)
  case 0
  then show ?case by (simp add: dec.simps[of n])
next
  case (Suc k)
  then have "n div 10 < 10 ^ Suc k" by (simp add: less_mult_imp_div_less)
  from Suc.IH[OF this] show ?case by (simp add: dec.simps[of n])
qed

lemma length_dec_octet: "length (dec (ip_octet a k)) \<le> 3"
  using length_dec[of "ip_octet a k" 2] ip_octet_less[of a k] by simp

lemma length_inet_ntoa: "length (inet_ntoa a) \<le> 15"
  using length_dec_octet[of a 0] length_dec_octet[of a 1] length_dec_octet[of a 2] length_dec_octet[of a 3]
  by (simp add: inet_ntoa_def)

lemma length_entry_text: "printable d \<Longrightarrow> length (entry_text d m no_ip) \<le> 80"
  using length_inet_ntoa[of "b_ip d"] length_inet_ntoa[of "the m"]
  by (cases "b_status d"; cases m)
    (auto simp: entry_text_def at_text_def printable_def base_wf_def length_ether_ntoa)

lemma entry_text_line: "printable d \<Longrightarrow> NL \<notin> set (entry_text d m no_ip)"
proof -
  have p: "NL \<notin> set (inet_ntoa a)" "NL \<notin> set (ether_ntoa e)" for a e
    using inet_ntoa_plain[of a] ether_ntoa_plain[of e] by (auto simp: plain_def)
  have "NL \<notin> set (mac_text st e)" for st e by (cases st) (auto simp: p)
  then show ?thesis by (auto simp: entry_text_def at_text_def p split: option.splits if_splits)
qed

section \<open>Loading the lines\<close>

lemma load_ip_lines:
  assumes "env_ok E" "\<forall>d\<in>set ds. ip_printable d"
  shows "load_lines E nr lst (map ip_line ds) = Inr (lst\<lparr>bl_ip_list := bl_ip_list lst @ map (ip_restored E) ds\<rparr>, [])"
  using assms(2)
proof (induction ds arbitrary: nr lst)
  case (Cons d ds)
  have p: "printable (ip_v d)" using Cons.prems by (simp add: ip_printable_def)
  obtain buf' where "BlackList_expandLine E nr lst (ip_line d @ [NUL]) (length (ip_line d))
      = Inr (lst\<lparr>bl_ip_list := bl_ip_list lst @ [ip_restored E d]\<rparr>, buf', True, [])"
    using print_parse_ip[OF assms(1) p print_entry_text[OF printable_decided[OF p]]] by (auto simp: ip_line_def ip_restored_def)
  then show ?case using Cons by simp
qed simp

lemma load_net_lines:
  assumes "env_ok E" "\<forall>d\<in>set ds. net_printable d"
  shows "load_lines E nr lst (map net_line ds) = Inr (lst\<lparr>bl_net_list := bl_net_list lst @ map (net_restored E) ds\<rparr>, [])"
  using assms(2)
proof (induction ds arbitrary: nr lst)
  case (Cons d ds)
  have p: "printable (net_v d)" "net_wf d" "\<not> (net_no_ip d \<and> b_status (net_v d) = blIGNORE)"
    using Cons.prems by (simp_all add: net_printable_def)
  obtain buf' where "BlackList_expandLine E nr lst (net_line d @ [NUL]) (length (net_line d))
     = Inr (lst\<lparr>bl_net_list := bl_net_list lst @ [net_restored E d]\<rparr>, buf', True, [])"
    using print_parse_net[OF assms(1) p print_entry_text[OF printable_decided[OF p(1)]]] by (auto simp: net_line_def net_restored_def)
  then show ?case using Cons by simp
qed simp

lemma load_lines_join:
  "load_lines E nr lst xs = Inr (l1, w1) \<Longrightarrow> load_lines E (nr + length xs) l1 ys = Inr (l2, w2)
   \<Longrightarrow> load_lines E nr lst (xs @ ys) = Inr (l2, w1 @ w2)"
  by (induction xs arbitrary: nr lst w1) (fastforce elim!: bindR_InrE)+

section \<open>Properties\<close>

text \<open>
  C23: the text that \<open>BlackList_print\<close> writes for a list, loaded again from a file that the kernel delivers without an error in blocks of at least 81
  bytes (any sizes from there on, or as much as the buffer has room for), gives the same entries in the same
  order, before they are sorted: addresses, kinds, conditions, netmasks and answers. Only a MAC that is neither printed nor used is not
  restored. (A shorter block may end inside of the first line of the buffer, which the loader refuses.)
\<close>

theorem printed_list_reloaded:
  assumes "env_ok E" and "default_ok (bl_args lst0)"
    and "\<forall>d\<in>set (bl_ip_list lst). ip_printable d" and "\<forall>d\<in>set (bl_net_list lst). net_printable d"
    and "steady 81 f" and "in_data f = text_of (BlackList_print lst fd)"
  shows "BlackList_updateInternal E lst0 f
     = Inr (sort_lists E (lst0\<lparr>bl_ip_list := map (ip_restored E) (bl_ip_list lst),
                               bl_net_list := map (net_restored E) (bl_net_list lst)\<rparr>), True, [])"
proof (rule steady_file_loaded[OF assms(1,2) _ assms(5)])
  show "81 \<le> BUFFER_SIZE" by (simp add: BUFFER_SIZE_def)
  show "in_data f = file_text (list_lines lst)" using assms(6) print_list_text[OF assms(3,4)] by simp
  show "\<forall>l\<in>set (list_lines lst). NL \<notin> set l \<and> length l < 81"
    using assms(3,4) entry_text_line length_entry_text
    by (auto simp: list_lines_def ip_line_def net_line_def ip_printable_def net_printable_def less_Suc_eq_le[of _ 80, simplified])
  show "load_lines E 1 (lst0\<lparr>bl_ip_list := [], bl_net_list := []\<rparr>) (list_lines lst)
     = Inr (lst0\<lparr>bl_ip_list := map (ip_restored E) (bl_ip_list lst), bl_net_list := map (net_restored E) (bl_net_list lst)\<rparr>, [])"
    unfolding list_lines_def
    using load_lines_join[OF load_ip_lines[OF assms(1,3)] load_net_lines[OF assms(1,4)]] by simp
qed

theorem printed_list_reloaded_witness:
  "\<exists>f. BlackList_updateInternal example_env empty_list f
     = Inr (sort_lists example_env (empty_list\<lparr>bl_ip_list := [\<lparr>ip_v = base_entry 0x0100000A blSET no_atmac\<rparr>],
         bl_net_list := [\<lparr>net_v = base_entry 0x0000000A blSET no_atmac, net_mask = 0x00FFFFFF, net_no_ip = False\<rparr>]\<rparr>), True, [])"
proof -
  let ?i = "\<lparr>ip_v = base_entry 0x0100000A blSET no_atmac\<rparr>"
  let ?n = "\<lparr>net_v = base_entry 0x0000000A blSET no_atmac, net_mask = 0x00FFFFFF, net_no_ip = False\<rparr>"
  let ?l = "empty_list\<lparr>bl_ip_list := [?i], bl_net_list := [?n]\<rparr>"
  let ?f = "\<lparr>in_data = text_of (BlackList_print ?l 1), in_cuts = [90], in_fail = False\<rparr>"
  have p: "ip_printable ?i" "net_printable ?n" by code_simp+
  have r: "ip_restored example_env ?i = ?i" "net_restored example_env ?n = ?n"
    by (simp_all add: ip_restored_def net_restored_def base_entry_def)
  have "BlackList_updateInternal example_env empty_list ?f
     = Inr (sort_lists example_env (empty_list\<lparr>bl_ip_list := map (ip_restored example_env) (bl_ip_list ?l),
                               bl_net_list := map (net_restored example_env) (bl_net_list ?l)\<rparr>), True, [])"
    by (rule printed_list_reloaded[OF example_env_ok empty_list_ok]) (use p in \<open>simp_all add: steady_def\<close>)
  then show ?thesis by (auto simp: r)
qed

end
