(* ===== verification/Check_Blacklist.thy ===== *)
theory Check_Blacklist
  imports Blacklist Output
begin

text \<open>
  The programs \<open>src/src/testsuite/blacklist-parser.c\<close>, which prints the list that was read from a file, and
  \<open>src/src/testsuite/blacklist-check.c\<close>, which looks up the addresses of a second file and compares the
  answers with those of a third one. In them \<open>local_mac_address\<close> is a constant. The streams are given by their
  contents; read errors on them are left out. What is written with \<open>printf\<close> follows everything that is
  written directly, so that the buffering does not change the order.
\<close>

section \<open>Common parts\<close>

definition test_mac_address :: ether_addr where
  "test_mac_address = [127, 0, 0, 1, 0, 0]"

definition null_mac :: "mac_type \<Rightarrow> TaggedMac" where
  "null_mac ty = \<lparr>tm_type = ty, tm_ether = replicate 6 0\<rparr>"

text \<open>The options of the programs: all but the file and the kind of the default address is zero. The direction, which has no name for zero, is not used.\<close>

definition check_args :: "string \<Rightarrow> Arguments" where
  "check_args file =
     \<lparr>a_ipfile = file, a_pidfile = [], a_logfile = [], a_errfile = [], a_user = [], a_group = None, a_do_fork = False,
      a_chroot = None, a_iface = [], a_do_poison = False, a_action_cmd = None, a_arp_dir = dirFROM,
      a_mac = null_mac mcRANDOM, a_llmac = null_mac mcRANDOM\<rparr>"

text \<open>The functions of the list with their messages; what the operating system answers to the two calls is an argument.\<close>

definition liftU :: "('a \<times> nat \<times> writes) run \<Rightarrow> 'a out" where
  "liftU r = (case r of Inl s \<Rightarrow> ([], Inl s) | Inr (x, slept, w) \<Rightarrow> (w, Inr x))"

definition load_list :: "update_env \<Rightarrow> update_env \<Rightarrow> string \<Rightarrow> BlackList out" where
  "load_list U U' file =
     bindO (liftU (BlackList_init U 0 (check_args file))) (\<lambda>s.
     bindO (liftU (BlackList_softUpdate U' s)) (\<lambda>s. returnO (bs_list s)))"

text \<open>
  \<open>BlackList_free\<close>, the last call of both programs: the two vectors as \<open>Vector_free\<close> of the vector library leaves
  them. The programs do not use the list after it.
\<close>

definition BlackList_free :: "(IPData list \<Rightarrow> IPData list) \<Rightarrow> (NetData list \<Rightarrow> NetData list) \<Rightarrow> BlackList \<Rightarrow> BlackList" where
  "BlackList_free free_ip free_net lst =
     lst\<lparr>bl_ip_list := free_ip (bl_ip_list lst), bl_net_list := free_net (bl_net_list lst)\<rparr>"

section \<open>The parser\<close>

definition blacklist_parser :: "update_env \<Rightarrow> update_env \<Rightarrow> string list \<Rightarrow> int out" where
  "blacklist_parser U U' argv =
     (if length argv \<noteq> 2 then returnO 1
      else bindO (load_list U U' (argv ! 1)) (\<lambda>lst.
           bindO (putO (BlackList_print lst 1)) (\<lambda>_. returnO 0)))"

section \<open>The lookups\<close>

text \<open>
  \<open>fscanf(file, "%s\n", buf)\<close>: the buffer, the rest of the stream and the returned value. The end of the stream was met
  exactly when the rest is empty.
\<close>

definition scan_word_line :: "string \<Rightarrow> string \<Rightarrow> (string \<times> string \<times> int) run" where
  "scan_word_line buf inp =
     (let inp = dropWhile isspace inp; word = takeWhile (\<lambda>c. \<not> isspace c) inp in
      if inp = [] then Inr (buf, [], - 1)
      else bindR (memcpyR buf 0 (word @ [NUL])) (\<lambda>buf. Inr (buf, dropWhile isspace (drop (length word) inp), 1)))"

definition pad_right :: "nat \<Rightarrow> string \<Rightarrow> string" where
  "pad_right n s = s @ replicate (n - length s) (CHR '' '')"

text \<open>
  The fourth column and the verdict of one lookup: \<open>expected\<close> is \<open>-\<close> for no answer, starts with \<open>R\<close> for any answer, or is the MAC of
  the answer.
\<close>

definition check_verdict :: "string \<Rightarrow> BlackListQuery \<Rightarrow> ether_addr option \<Rightarrow> string \<times> bool" where
  "check_verdict expected query result =
     (case result of
        None \<Rightarrow> (''not found'', take 1 expected = ''-'')
      | Some mac \<Rightarrow>
          if take 1 expected = ''-'' then (ether_ntoa mac, False)
          else if take 1 expected = ''R'' then (ether_ntoa mac, True)
          else (ether_ntoa mac @ ''/'' @ ether_ntoa (fst (ether_aton_r expected))
                  @ (case q_poison_mac query of None \<Rightarrow> [] | Some p \<Rightarrow> CHR 0x7C # ether_ntoa p),
                mac = fst (ether_aton_r expected)))"

text \<open>
  Time and random number of each lookup, and the indeterminate contents of the two buffers in each turn of the loop.
\<close>

record check_env =
  ce_vec :: ip_vector
  ce_time :: "nat \<Rightarrow> int"
  ce_rand :: "nat \<Rightarrow> int"
  ce_ip_str :: "nat \<Rightarrow> nat \<Rightarrow> char"
  ce_mac_str :: "nat \<Rightarrow> nat \<Rightarrow> char"

definition exit_message :: "string \<Rightarrow> int option out" where
  "exit_message msg = bindO (putO (Vwrite 2 (msg @ [NL]))) (\<lambda>_. returnO (Some 1))"

text \<open>One turn behind the reading: \<open>Some\<close> status when the program ends.\<close>

definition check_line :: "check_env \<Rightarrow> BlackList \<Rightarrow> nat \<Rightarrow> string \<Rightarrow> int \<Rightarrow> string \<Rightarrow> int \<Rightarrow> int option out" where
  "check_line C lst n ip_str res_i mac_str res_r =
     bindO (liftO (cstrR ip_str 0)) (\<lambda>word.
     if word = [] \<or> hd word = CHR ''#'' \<or> hd word = NL then returnO None
     else if res_i = 0 \<or> res_r = 0 then exit_message ''Invalid format; aborting...''
     else let ip = takeWhile (\<lambda>c. c \<noteq> CHR '','') word;
              (atmac, ok) = (if CHR '','' \<in> set word then ether_aton_r (drop (length ip + 1) word)
                             else (fst (ether_aton_r ''ff:ff:ff:ff:ff:00''), True)) in
       if \<not> ok then exit_message ''Invalid MAC in input-file...''
       else case inet_aton ip of
         None \<Rightarrow> exit_message ''Invalid IP; aborting...''
       | Some inp \<Rightarrow>
           bindO (liftO (cstrR mac_str 0)) (\<lambda>expected.
           if take 1 expected \<noteq> ''-'' \<and> take 1 expected \<noteq> ''R'' \<and> \<not> snd (ether_aton_r expected)
           then exit_message ''Invalid MAC; aborting...''
           else
             bindO (putO (Vwrite 1 (pad_right 15 ip @ [TAB]))) (\<lambda>_.
             bindO (liftO (BlackList_getMac (ce_vec C) (ce_time C n) (ce_rand C n) lst
                      \<lparr>q_result_buffer = replicate 6 0, q_ip = inp, q_mac = Some atmac, q_poison_mac = None\<rparr>)) (\<lambda>(query, result).
             case check_verdict expected query result of (column, is_ok) \<Rightarrow>
             bindO (putO (Vwrite 1 (pad_right 35 column @ [TAB]) @ Vwrite 1 ((if is_ok then ''OK'' else ''FAIL'') @ [NL]))) (\<lambda>_.
             returnO None)))))"

lemma behind_word:
  assumes "dropWhile isspace inp \<noteq> []"
  shows "length (drop (length (takeWhile (\<lambda>c. \<not> isspace c) (dropWhile isspace inp))) (dropWhile isspace inp)) < length inp"
proof -
  let ?i = "dropWhile isspace inp" let ?w = "takeWhile (\<lambda>c. \<not> isspace c) ?i"
  have "\<not> isspace (hd ?i)" using assms by (rule hd_dropWhile)
  then have "0 < length ?w" using assms by (cases ?i) auto
  moreover have "0 < length ?i" using assms by simp
  ultimately have "length ?i - length ?w < length ?i" by linarith
  then show ?thesis unfolding length_drop using length_dropWhile_le[of isspace inp] by linarith
qed

lemma scan_word_line_rest:
  assumes "scan_word_line buf inp = Inr (buf', rest, res)" "rest \<noteq> []"
  shows "length rest < length inp"
proof -
  let ?i = "dropWhile isspace inp"
  from assms have i: "?i \<noteq> []" by (auto simp: scan_word_line_def Let_def split: if_splits)
  then have "rest = dropWhile isspace (drop (length (takeWhile (\<lambda>c. \<not> isspace c) ?i)) ?i)"
    using assms by (auto simp: scan_word_line_def Let_def run_simps simp del: dropWhile_eq_Nil_conv)
  then show ?thesis using behind_word[OF i] length_dropWhile_le by (metis le_less_trans)
qed

function check_loop :: "check_env \<Rightarrow> BlackList \<Rightarrow> nat \<Rightarrow> string \<Rightarrow> string \<Rightarrow> int out" where
  "check_loop C lst n ips results =
     (case scan_word_line (map (ce_ip_str C n) [0..<128]) ips of
        Inl s \<Rightarrow> stopO s
      | Inr (ip_str, ips', res_i) \<Rightarrow>
          bindO (liftO (scan_word_line (map (ce_mac_str C n) [0..<128]) results)) (\<lambda>(mac_str, results', res_r).
          bindO (check_line C lst n ip_str res_i mac_str res_r) (\<lambda>status.
          case status of
            Some st \<Rightarrow> returnO st
          | None \<Rightarrow> if ips' = [] then returnO 0 else check_loop C lst (Suc n) ips' results')))"
  by pat_completeness auto
termination
  by (relation "measure (\<lambda>(_, _, _, ips, _). length ips)") (auto dest: scan_word_line_rest)

declare check_loop.simps [simp del]

text \<open>The contents of the files named by the first and the third argument, or \<open>None\<close> when \<open>fopen\<close> fails.\<close>

definition blacklist_check ::
  "check_env \<Rightarrow> update_env \<Rightarrow> update_env \<Rightarrow> string option \<Rightarrow> string option \<Rightarrow> string list \<Rightarrow> int out" where
  "blacklist_check C U U' ip_file result_file argv =
     (if length argv \<noteq> 4 then bindO (putO (Vwrite 2 ''Wrong argument-count; aborting...'')) (\<lambda>_. returnO 1)
      else case ip_file of
        None \<Rightarrow> returnO 1
      | Some ips \<Rightarrow>
          (case result_file of
             None \<Rightarrow> returnO 1
           | Some results \<Rightarrow>
               bindO (load_list U U' (argv ! 2)) (\<lambda>lst.
               bindO (putO (BlackList_print lst 3 @ Vwrite 1 [NL])) (\<lambda>_.
               check_loop C lst 0 ips results))))"

end
