(* ===== verification/Simulate.thy ===== *)
theory Simulate
  imports Check_Blacklist Sentinel
begin

text \<open>
  The program \<open>src/src/testsuite/simulate.c\<close> with the functions of \<open>src/src/worker.c\<close> that are compiled for it: it reads the
  options and the list like the daemon, takes the addresses of ARP requests from its standard input, and prints for each of them and for the
  reverse request the packets the worker would send.
\<close>

section \<open>Printing\<close>

definition Worker_printScheduleInfo :: "int \<Rightarrow> ScheduleInfo \<Rightarrow> unit out" where
  "Worker_printScheduleInfo fd job =
     (let eth = job_message job; arp = msg_data eth; sll = job_address job in
      bindO (liftO (assertR (ether_type eth = htons 0x0806) (Inr ()))) (\<lambda>_.
      putO (Vwrite fd ''ether=['' @ Vwrite fd (arpether_ntoa (ether_dhost eth)) @ Vwrite fd '','' @ Vwrite fd (arpether_ntoa (ether_shost eth))
        @ Vwrite fd ''], arp=['' @ Vwrite fd (arpether_ntoa (arp_sha arp)) @ Vwrite fd '','' @ Vwrite fd (arpinet_ntoa (arp_spa arp))
        @ Vwrite fd '', '' @ Vwrite fd (arpether_ntoa (arp_tha arp)) @ Vwrite fd '','' @ Vwrite fd (arpinet_ntoa (arp_tpa arp))
        @ Vwrite fd ''], sock=['' @ Vwrite fd (arpether_ntoa (take 6 (sll_addr sll))) @ Vwrite fd ('']'' @ [NL]))))"

text \<open>The packet of a job, for the test program.\<close>

definition Worker_debugFillPacket :: "int \<Rightarrow> int \<Rightarrow> Worker \<Rightarrow> ScheduleInfo \<Rightarrow> RequestInfo \<Rightarrow> ScheduleInfo run" where
  [simp]: "Worker_debugFillPacket t r worker job rq = Worker_fillPacket t r worker job rq"

definition Worker_debugPoisonJob :: "ScheduleInfo \<Rightarrow> RequestInfo \<Rightarrow> ScheduleInfo \<times> bool" where
  [simp]: "Worker_debugPoisonJob job rq = Worker_poisonJob job rq"

definition printRequest :: "int \<Rightarrow> string \<Rightarrow> string \<Rightarrow> string \<Rightarrow> string \<Rightarrow> writes" where
  "printRequest fd spa sha tpa tha =
     Vwrite fd ''['' @ Vwrite fd spa @ Vwrite fd '','' @ Vwrite fd sha @ Vwrite fd '', '' @ Vwrite fd tpa
     @ Vwrite fd '','' @ Vwrite fd tha @ Vwrite fd ('']'' @ [NL])"

definition sim_inet_aton :: "string \<Rightarrow> in_addr out" where
  "sim_inet_aton cp =
     (case inet_aton cp of
        None \<Rightarrow> failO (Vwrite 2 ''invalid IP '' @ Vwrite 2 cp @ Vwrite 2 [NL]) (Exit 1)
      | Some a \<Rightarrow> returnO a)"

definition sim_ether_aton :: "string \<Rightarrow> ether_addr out" where
  "sim_ether_aton asc =
     (case xether_aton_r test_mac_address asc of (a, ok) \<Rightarrow>
      if \<not> ok then failO (Vwrite 2 ''invalid MAC '' @ Vwrite 2 asc @ Vwrite 2 [NL]) (Exit 1)
      else returnO a)"

section \<open>The input\<close>

text \<open>The four buffers of 64 bytes. \<open>swap\<close> exchanges two of them as a whole.\<close>

record sim_bufs =
  sb_spa :: string
  sb_sha :: string
  sb_tpa :: string
  sb_tha :: string

definition sim_swap :: "sim_bufs \<Rightarrow> sim_bufs" where
  "sim_swap b = b\<lparr>sb_spa := sb_tpa b, sb_tpa := sb_spa b, sb_sha := sb_tha b, sb_tha := sb_sha b\<rparr>"

text \<open>One \<open>%s\<close> of \<open>scanf\<close>: white space is skipped, and the word is stored with a NUL behind it.\<close>

definition scan_string :: "string \<Rightarrow> string \<Rightarrow> (string \<times> string \<times> bool) run" where
  "scan_string buf inp =
     (let inp = dropWhile isspace inp; word = takeWhile (\<lambda>c. \<not> isspace c) inp in
      if inp = [] then Inr (buf, [], False)
      else bindR (memcpyR buf 0 (word @ [NUL])) (\<lambda>buf. Inr (buf, drop (length word) inp, True)))"

text \<open>
  \<open>scanf("%s %s %s %s", ...)\<close> ends at the first word that is missing; the flag tells whether it stored one at all.
\<close>

definition scan_request :: "sim_bufs \<Rightarrow> string \<Rightarrow> (sim_bufs \<times> string \<times> bool) run" where
  "scan_request b inp =
     bindR (scan_string (sb_spa b) inp) (\<lambda>(x, inp, ok). if \<not> ok then Inr (b, inp, False) else
     bindR (scan_string (sb_sha b) inp) (\<lambda>(y, inp, ok). if \<not> ok then Inr (b\<lparr>sb_spa := x\<rparr>, inp, True) else
     bindR (scan_string (sb_tpa b) inp) (\<lambda>(z, inp, ok). if \<not> ok then Inr (b\<lparr>sb_spa := x, sb_sha := y\<rparr>, inp, True) else
     bindR (scan_string (sb_tha b) inp) (\<lambda>(w, inp, ok). if \<not> ok then Inr (b\<lparr>sb_spa := x, sb_sha := y, sb_tpa := z\<rparr>, inp, True)
     else Inr (\<lparr>sb_spa = x, sb_sha = y, sb_tpa = z, sb_tha = w\<rparr>, inp, True)))))"

section \<open>The simulation\<close>

text \<open>
  The libraries, the random numbers of the lookup (\<open>0\<close>) and of the packet for the destination, and of those for the source (\<open>2\<close> and \<open>3\<close>),
  by the number of the pass, and the indeterminate contents of local variables.
\<close>

record sim_env =
  se_update :: update_env
  se_defaults :: build_defaults
  se_posix :: bool
  se_time :: "nat \<Rightarrow> nat \<Rightarrow> int"
  se_rand :: "nat \<Rightarrow> nat \<Rightarrow> int"
  se_bufs :: sim_bufs
  se_arguments :: Arguments
  se_worker :: Worker
  se_rq :: "nat \<Rightarrow> RequestInfo"
  se_job :: "nat \<Rightarrow> ScheduleInfo"

definition FD :: int where "FD = 10"

abbreviation sim_getMac :: "sim_env \<Rightarrow> BlackList \<Rightarrow> nat \<Rightarrow> nat \<Rightarrow> BlackListQuery \<Rightarrow> (BlackListQuery \<times> ether_addr option) out" where
  "sim_getMac S cfg n k q \<equiv>
     liftO (BlackList_getMac (pe_ip_vec (ue_parse (se_update S))) (se_time S n k) (se_rand S n k) cfg q)"

text \<open>The answer for the requested address.\<close>

definition sim_dst :: "sim_env \<Rightarrow> BlackList \<Rightarrow> Worker \<Rightarrow> nat \<Rightarrow> RequestInfo \<Rightarrow> ScheduleInfo \<Rightarrow> (RequestInfo \<times> ScheduleInfo) out" where
  "sim_dst S cfg worker n rq job =
     bindO (putO (Vwrite FD ''  DST: '')) (\<lambda>_.
     bindO (sim_getMac S cfg n 0 \<lparr>q_result_buffer = replicate 6 0, q_ip = arp_tpa (rq_request rq), q_mac = None, q_poison_mac = None\<rparr>) (\<lambda>(q, mac).
     case mac of
       None \<Rightarrow> bindO (putO (Vwrite FD (''MISS'' @ [NL]))) (\<lambda>_. returnO (rq, job))
     | Some m \<Rightarrow>
         let rq = rq\<lparr>rq_mac := m, rq_type := jobDST\<rparr> in
         bindO (liftO (Worker_debugFillPacket (se_time S n 1) (se_rand S n 1) worker job rq)) (\<lambda>job.
         bindO (Worker_printScheduleInfo FD job) (\<lambda>_.
         case Worker_debugPoisonJob job rq of (job, poisoned) \<Rightarrow>
         bindO (liftO (assertR (\<not> poisoned) (Inr ()))) (\<lambda>_. returnO (rq, job))))))"

text \<open>The answer for the sender, and the packet that poisons its address.\<close>

definition sim_src :: "sim_env \<Rightarrow> BlackList \<Rightarrow> Worker \<Rightarrow> nat \<Rightarrow> RequestInfo \<Rightarrow> ScheduleInfo \<Rightarrow> unit out" where
  "sim_src S cfg worker n rq job =
     bindO (putO (Vwrite FD ''  SRC: '')) (\<lambda>_.
     bindO (sim_getMac S cfg n 2 \<lparr>q_result_buffer = replicate 6 0, q_ip = arp_spa (rq_request rq), q_mac = Some (arp_sha (rq_request rq)),
              q_poison_mac = None\<rparr>) (\<lambda>(q, mac).
     if q_ip q = 0 then putO (Vwrite FD (''MISS (DAD)'' @ [NL]))
     else case mac of
       None \<Rightarrow> putO (Vwrite FD (''MISS'' @ [NL]))
     | Some m \<Rightarrow>
         let rq = rq\<lparr>rq_mac := m, rq_type := jobSRC\<rparr>;
             rq = (case q_poison_mac q of Some p \<Rightarrow> rq\<lparr>rq_poison_f := True, rq_poison_v := p\<rparr> | None \<Rightarrow> rq\<lparr>rq_poison_f := False\<rparr>) in
         bindO (liftO (Worker_debugFillPacket (se_time S n 3) (se_rand S n 3) worker job rq)) (\<lambda>job.
         bindO (Worker_printScheduleInfo FD job) (\<lambda>_.
         bindO (putO (Vwrite FD ''  POI: '')) (\<lambda>_.
         case Worker_debugPoisonJob job rq of (job, poisoned) \<Rightarrow>
         if poisoned then Worker_printScheduleInfo FD job else stopO AssertFail)))))"

text \<open>One turn of the inner loop.\<close>

definition sim_pass :: "sim_env \<Rightarrow> BlackList \<Rightarrow> Worker \<Rightarrow> nat \<Rightarrow> sim_bufs \<Rightarrow> unit out" where
  "sim_pass S cfg worker n b =
     bindO (liftO (cstrR (sb_spa b) 0)) (\<lambda>spa_s. bindO (sim_inet_aton spa_s) (\<lambda>spa.
     bindO (liftO (cstrR (sb_sha b) 0)) (\<lambda>sha_s. bindO (sim_ether_aton sha_s) (\<lambda>sha.
     bindO (liftO (cstrR (sb_tpa b) 0)) (\<lambda>tpa_s. bindO (sim_inet_aton tpa_s) (\<lambda>tpa.
     bindO (liftO (cstrR (sb_tha b) 0)) (\<lambda>tha_s. bindO (sim_ether_aton tha_s) (\<lambda>tha.
     bindO (putO (printRequest FD spa_s sha_s tpa_s tha_s)) (\<lambda>_.
     let arp = (rq_request (se_rq S n))\<lparr>arp_spa := spa, arp_sha := sha, arp_tpa := tpa, arp_tha := tha\<rparr> in
     bindO (sim_dst S cfg worker n ((se_rq S n)\<lparr>rq_request := arp\<rparr>) (se_job S n)) (\<lambda>(rq, job).
     bindO (sim_src S cfg worker n rq job) (\<lambda>_.
     putO (Vwrite FD [NL]))))))))))))"

text \<open>The request as it was read, then the reverse one; the buffers stay exchanged.\<close>

definition sim_request :: "sim_env \<Rightarrow> BlackList \<Rightarrow> Worker \<Rightarrow> nat \<Rightarrow> sim_bufs \<Rightarrow> sim_bufs out" where
  "sim_request S cfg worker n b =
     bindO (liftO (readR (sb_spa b) 0)) (\<lambda>c.
     if c = NUL then returnO b
     else bindO (sim_pass S cfg worker (2 * n) b) (\<lambda>_.
          let b = sim_swap b in
          bindO (sim_pass S cfg worker (2 * n + 1) b) (\<lambda>_. returnO b)))"

lemma scan_string_rest:
  assumes "scan_string buf inp = Inr (buf', rest, ok)"
  shows "length rest \<le> length inp \<and> (ok \<longrightarrow> length rest < length inp)"
proof -
  let ?i = "dropWhile isspace inp"
  show ?thesis
  proof (cases "?i = []")
    case True
    then show ?thesis using assms by (auto simp: scan_string_def Let_def)
  next
    case False
    then have "rest = drop (length (takeWhile (\<lambda>c. \<not> isspace c) ?i)) ?i"
      using assms by (auto simp: scan_string_def Let_def run_simps simp del: dropWhile_eq_Nil_conv)
    then show ?thesis using behind_word[OF False] by simp
  qed
qed

lemma scan_request_rest:
  assumes "scan_request b inp = Inr (b', rest, True)"
  shows "length rest < length inp"
proof -
  obtain x i1 ok1 where 1: "scan_string (sb_spa b) inp = Inr (x, i1, ok1)" and ok1
    using assms unfolding scan_request_def by (auto elim!: bindR_InrE split: if_splits)
  then have "length i1 < length inp" using scan_string_rest[OF 1] by simp
  moreover have "length rest \<le> length i1"
    using assms \<open>ok1\<close> unfolding scan_request_def 1
    by (auto elim!: bindR_InrE split: if_splits dest!: scan_string_rest)
  ultimately show ?thesis by simp
qed

function sim_loop :: "sim_env \<Rightarrow> BlackList \<Rightarrow> Worker \<Rightarrow> nat \<Rightarrow> sim_bufs \<Rightarrow> string \<Rightarrow> int out" where
  "sim_loop S cfg worker n b inp =
     (case scan_request b inp of
        Inl s \<Rightarrow> stopO s
      | Inr (b, inp', ok) \<Rightarrow>
          if \<not> ok then returnO 0
          else bindO (sim_request S cfg worker n b) (\<lambda>b. sim_loop S cfg worker (Suc n) b inp'))"
  by pat_completeness auto
termination
  by (relation "measure (\<lambda>(_, _, _, _, _, inp). length inp)") (auto dest: scan_request_rest)

declare sim_loop.simps [simp del]

definition simulate :: "sim_env \<Rightarrow> string list \<Rightarrow> string \<Rightarrow> int out" where
  "simulate S argv stdin =
     bindO (parseOptions test_mac_address (se_defaults S) (se_arguments S) (se_posix S) argv) (\<lambda>arguments.
     let arguments = Arguments_fixupOptions test_mac_address arguments in
     bindO (liftU (BlackList_init (se_update S) 0 arguments)) (\<lambda>cfg.
     let worker = (se_worker S)\<lparr>w_fd := - 1, w_sock := - 1, w_if_idx := - 1, w_llmac := a_llmac arguments\<rparr> in
     bindO (putO (BlackList_print (bs_list cfg) FD @ Vwrite FD [NL])) (\<lambda>_.
     sim_loop S (bs_list cfg) worker 0 (se_bufs S) stdin)))"

section \<open>Simulation and daemon\<close>

lemma to_job:
  assumes "generateJobToIntruder R h msg s = Inr s'" "st_pipe s' = st_pipe s @ [rq]"
  shows "\<exists>q m. BlackList_getMac (re_ip_vec R) (he_mac_time h) (he_mac_rand h) (bs_list (st_bl s))
             \<lparr>q_result_buffer = replicate 6 0, q_ip = arp_tpa (msg_data msg), q_mac = None, q_poison_mac = None\<rparr> = Inr (q, Some m)
     \<and> rq = \<lparr>rq_request = msg_data msg, rq_mac = m, rq_type = jobDST, rq_poison_f = False, rq_poison_v = replicate 6 0\<rparr>"
  using assms
  by (auto simp: generateJobToIntruder_def Let_def warn_oversized_def Worker_sendJob_def elim!: bindR_InrE
      split: option.splits if_splits prod.splits)

lemma from_job:
  assumes "generateJobFromIntruder R h msg s = Inr s'" "st_pipe s' = st_pipe s @ [rq]"
  shows "arp_spa (msg_data msg) \<noteq> 0
     \<and> (\<exists>q m. BlackList_getMac (re_ip_vec R) (he_mac_time h) (he_mac_rand h) (bs_list (st_bl s))
             \<lparr>q_result_buffer = replicate 6 0, q_ip = arp_spa (msg_data msg), q_mac = Some (arp_sha (msg_data msg)), q_poison_mac = None\<rparr>
             = Inr (q, Some m)
          \<and> rq = \<lparr>rq_request = msg_data msg, rq_mac = m, rq_type = jobSRC, rq_poison_f = (q_poison_mac q \<noteq> None),
                  rq_poison_v = (case q_poison_mac q of Some m \<Rightarrow> m | None \<Rightarrow> replicate 6 0)\<rparr>)"
proof
  show ip: "arp_spa (msg_data msg) \<noteq> 0" using assms by (auto simp: generateJobFromIntruder_def)
  obtain q mac where g: "BlackList_getMac (re_ip_vec R) (he_mac_time h) (he_mac_rand h) (bs_list (st_bl s))
             \<lparr>q_result_buffer = replicate 6 0, q_ip = arp_spa (msg_data msg), q_mac = Some (arp_sha (msg_data msg)), q_poison_mac = None\<rparr>
             = Inr (q, mac)"
    using assms(1) ip by (auto simp: generateJobFromIntruder_def Let_def elim!: bindR_InrE)
  let ?rq = "\<lambda>m. \<lparr>rq_request = msg_data msg, rq_mac = m, rq_type = jobSRC, rq_poison_f = (q_poison_mac q \<noteq> None),
                  rq_poison_v = (case q_poison_mac q of Some m \<Rightarrow> m | None \<Rightarrow> replicate 6 0)\<rparr>"
  have "\<exists>m. mac = Some m \<and> rq = ?rq m"
  proof (cases mac)
    case None
    then show ?thesis using assms g ip by (simp add: generateJobFromIntruder_def Let_def)
  next
    case (Some m)
    then show ?thesis using assms(1) g ip not_Cons_self2[of "st_pipe s"] assms(2)
      by (auto simp: generateJobFromIntruder_def Let_def warn_oversized_def Worker_sendJob_def elim!: bindR_InrE
          split: if_splits prod.splits)
  qed
  with g show "\<exists>q m. BlackList_getMac (re_ip_vec R) (he_mac_time h) (he_mac_rand h) (bs_list (st_bl s))
             \<lparr>q_result_buffer = replicate 6 0, q_ip = arp_spa (msg_data msg), q_mac = Some (arp_sha (msg_data msg)), q_poison_mac = None\<rparr>
             = Inr (q, Some m)
          \<and> rq = \<lparr>rq_request = msg_data msg, rq_mac = m, rq_type = jobSRC, rq_poison_f = (q_poison_mac q \<noteq> None),
                  rq_poison_v = (case q_poison_mac q of Some m \<Rightarrow> m | None \<Rightarrow> replicate 6 0)\<rparr>" by blast
qed

text \<open>A pass of the simulation in which the lookups see the same libraries, time and random number as a handler of the daemon.\<close>

definition same_lookup :: "sim_env \<Rightarrow> nat \<Rightarrow> nat \<Rightarrow> round_env \<Rightarrow> handler_env \<Rightarrow> bool" where
  "same_lookup S n k R h \<longleftrightarrow>
     pe_ip_vec (ue_parse (se_update S)) = re_ip_vec R \<and> se_time S n k = he_mac_time h \<and> se_rand S n k = he_mac_rand h"

lemma fillPacket_cong:
  "rq_request rq = rq_request rq' \<Longrightarrow> rq_mac rq = rq_mac rq' \<Longrightarrow> rq_type rq = rq_type rq'
   \<Longrightarrow> Worker_fillPacket t r w job rq = Worker_fillPacket t r w job rq'"
  by (simp add: Worker_fillPacket_def fill_hosts_def fill_shost_def cong: mac_type.case_cong)

lemma poisonJob_cong:
  "rq_mac rq = rq_mac rq' \<Longrightarrow> rq_type rq = rq_type rq' \<Longrightarrow> rq_poison_f rq = rq_poison_f rq'
   \<Longrightarrow> (rq_poison_f rq \<longrightarrow> rq_poison_v rq = rq_poison_v rq') \<Longrightarrow> Worker_poisonJob job rq = Worker_poisonJob job rq'"
  by (auto simp: Worker_poisonJob_def)

text \<open>The simulation prints the packet for the job the daemon would write for the requested address.\<close>

theorem simulated_answer:
  assumes "generateJobToIntruder R h msg s = Inr s'" and "st_pipe s' = st_pipe s @ [rq]"
    and "same_lookup S n 0 R h" and "rq_request rq0 = msg_data msg"
    and "Worker_fillPacket (se_time S n 1) (se_rand S n 1) worker job rq = Inr j"
  shows "\<exists>rq'. sim_dst S (bs_list (st_bl s)) worker n rq0 job
      = bindO (putO (Vwrite FD ''  DST: '')) (\<lambda>_. bindO (Worker_printScheduleInfo FD j) (\<lambda>_. returnO (rq', j)))"
proof -
  obtain q m where g: "BlackList_getMac (re_ip_vec R) (he_mac_time h) (he_mac_rand h) (bs_list (st_bl s))
             \<lparr>q_result_buffer = replicate 6 0, q_ip = arp_tpa (msg_data msg), q_mac = None, q_poison_mac = None\<rparr> = Inr (q, Some m)"
    and rq: "rq = \<lparr>rq_request = msg_data msg, rq_mac = m, rq_type = jobDST, rq_poison_f = False, rq_poison_v = replicate 6 0\<rparr>"
    using to_job[OF assms(1,2)] by blast
  let ?rq = "rq0\<lparr>rq_mac := m, rq_type := jobDST\<rparr>"
  have f: "Worker_fillPacket (se_time S n 1) (se_rand S n 1) worker job ?rq = Inr j"
    unfolding assms(5)[symmetric] by (rule fillPacket_cong) (simp_all add: rq assms(4))
  have p: "Worker_poisonJob j ?rq = (j, False)" by (simp add: Worker_poisonJob_def jobDST_def jobSRC_def)
  show ?thesis using assms(3)
    by (intro exI[of _ ?rq]) (simp add: sim_dst_def same_lookup_def assms(4) g f[simplified] p Let_def)
qed

text \<open>
  C27: the simulation shows what the daemon does. When the handler of the daemon writes a job for an intruder, a pass of the simulation
  with the same list, libraries, time and random number prints the packet the worker builds for this very job, and then the packet with which it
  poisons the intruder's address.
\<close>

theorem simulated_poisoning:
  assumes "generateJobFromIntruder R h msg s = Inr s'" and "st_pipe s' = st_pipe s @ [rq]"
    and "same_lookup S n 2 R h" and "rq_request rq0 = msg_data msg"
    and "Worker_fillPacket (se_time S n 3) (se_rand S n 3) worker job rq = Inr j"
  shows "sim_src S (bs_list (st_bl s)) worker n rq0 job
      = bindO (putO (Vwrite FD ''  SRC: '')) (\<lambda>_. bindO (Worker_printScheduleInfo FD j) (\<lambda>_.
        bindO (putO (Vwrite FD ''  POI: '')) (\<lambda>_. Worker_printScheduleInfo FD (fst (Worker_poisonJob j rq)))))"
proof -
  obtain q m where ip: "arp_spa (msg_data msg) \<noteq> 0"
    and g: "BlackList_getMac (re_ip_vec R) (he_mac_time h) (he_mac_rand h) (bs_list (st_bl s))
             \<lparr>q_result_buffer = replicate 6 0, q_ip = arp_spa (msg_data msg), q_mac = Some (arp_sha (msg_data msg)), q_poison_mac = None\<rparr>
             = Inr (q, Some m)"
    and rq: "rq = \<lparr>rq_request = msg_data msg, rq_mac = m, rq_type = jobSRC, rq_poison_f = (q_poison_mac q \<noteq> None),
                  rq_poison_v = (case q_poison_mac q of Some m \<Rightarrow> m | None \<Rightarrow> replicate 6 0)\<rparr>"
    using from_job[OF assms(1,2)] by blast
  have q: "q_ip q = arp_spa (msg_data msg)" using getMac_ip[OF g] by simp
  let ?rq0 = "rq0\<lparr>rq_mac := m, rq_type := jobSRC\<rparr>"
  let ?rq = "case q_poison_mac q of Some p \<Rightarrow> ?rq0\<lparr>rq_poison_f := True, rq_poison_v := p\<rparr> | None \<Rightarrow> ?rq0\<lparr>rq_poison_f := False\<rparr>"
  have f: "Worker_fillPacket (se_time S n 3) (se_rand S n 3) worker job ?rq = Inr j"
    unfolding assms(5)[symmetric] by (rule fillPacket_cong) (simp_all add: rq assms(4) split: option.split)
  have p: "Worker_poisonJob j ?rq = (fst (Worker_poisonJob j rq), True)"
    by (cases "q_poison_mac q") (simp_all add: Worker_poisonJob_def rq Let_def)
  show ?thesis using assms(3)
    by (simp add: sim_src_def same_lookup_def assms(4) g f p q ip Let_def split: option.splits)
qed


section \<open>Examples\<close>

definition example_sim :: sim_env where
  "example_sim =
     \<lparr>se_update = example_update_env (Some 5) None, se_defaults = example_defaults, se_posix = False,
      se_time = (\<lambda>n k. 100), se_rand = (\<lambda>n k. 7),
      se_bufs = \<lparr>sb_spa = replicate 64 NUL, sb_sha = replicate 64 NUL, sb_tpa = replicate 64 NUL, sb_tha = replicate 64 NUL\<rparr>,
      se_arguments = uninit_arguments,
      se_worker = \<lparr>w_fd = 0, w_do_poison = False, w_sock = 0, w_if_idx = 0, w_llmac = null_mac mcSAME, w_action_cmd = None\<rparr>,
      se_rq = (\<lambda>n. example_job), se_job = (\<lambda>n. zero_job)\<rparr>"

text \<open>A request that comes from the listed address 10.0.0.1.\<close>

definition intruder_message :: ArpMessage where
  "intruder_message = zero_message\<lparr>msg_data := zero_arp\<lparr>ar_op := htons 1, arp_sha := [2, 0, 0, 0, 0, 9],
     arp_spa := 0x0100000A, arp_tpa := 0x0900000A\<rparr>\<rparr>"

definition intruder_job :: RequestInfo where
  "intruder_job = \<lparr>rq_request = msg_data intruder_message, rq_mac = [2, 0, 0, 0, 0, 8], rq_type = jobSRC, rq_poison_f = False,
     rq_poison_v = replicate 6 0\<rparr>"

definition intruder_seen :: sentinel where
  "intruder_seen = example_loaded\<lparr>st_dos := \<lparr>dos_min_time = 0, dos_data = [\<lparr>d_ip = 0x0100000A, d_access_time = 100, d_counter = 1\<rparr>]\<rparr>,
     st_pipe := [intruder_job]\<rparr>"

lemma intruder_handled:
  "generateJobFromIntruder (example_round 100 5) (example_handler 100) intruder_message example_loaded = Inr intruder_seen"
  by code_simp

theorem simulated_poisoning_witness:
  "\<exists>j. Worker_fillPacket 100 7 (se_worker example_sim) zero_job intruder_job = Inr j
     \<and> sim_src example_sim (bs_list (st_bl example_loaded)) (se_worker example_sim) 0 intruder_job zero_job
       = bindO (putO (Vwrite FD ''  SRC: '')) (\<lambda>_. bindO (Worker_printScheduleInfo FD j) (\<lambda>_.
         bindO (putO (Vwrite FD ''  POI: '')) (\<lambda>_. Worker_printScheduleInfo FD (fst (Worker_poisonJob j intruder_job)))))"
proof -
  have "case Worker_fillPacket 100 7 (se_worker example_sim) zero_job intruder_job of Inl _ \<Rightarrow> False | Inr j \<Rightarrow> True" by code_simp
  then obtain j where j: "Worker_fillPacket 100 7 (se_worker example_sim) zero_job intruder_job = Inr j" by (auto split: sum.splits)
  have "st_pipe intruder_seen = st_pipe example_loaded @ [intruder_job]" by (simp add: intruder_seen_def example_loaded_def)
  from simulated_poisoning[OF intruder_handled this, of example_sim 0 intruder_job "se_worker example_sim" zero_job j] j show ?thesis
    by (simp add: same_lookup_def example_sim_def example_round_def example_handler_def example_update_env_def intruder_job_def)
qed

lemma example_packets:
  "output_text (sim_src example_sim (bs_list (st_bl example_loaded)) (se_worker example_sim) 0 intruder_job zero_job)
   = Inr (text_lines
      [''  SRC: ether=[02:00:00:00:00:09,02:00:00:00:00:08], arp=[02:00:00:00:00:08,10.0.0.9, 02:00:00:00:00:09,10.0.0.1], sock=[02:00:00:00:00:09]'',
       ''  POI: ether=[ff:ff:ff:ff:ff:ff,02:00:00:00:00:08], arp=[02:00:00:00:00:08,10.0.0.1, ff:ff:ff:ff:ff:ff,0.0.0.0], sock=[02:00:00:00:00:09]''])"
  by code_simp

end
