(* ===== verification/Check_Prioqueue.thy ===== *)
theory Check_Prioqueue
  imports Prioqueue Output
begin

text \<open>
  The program \<open>src/src/testsuite/prioqueue-check.c\<close>, a driver of the priority queue, with the function of
  \<open>src/src/prioqueue.c\<close> that is compiled for it. Its arguments are numbers to insert and the letter \<open>e\<close> for an
  extraction; it prints the array after each step.
\<close>

section \<open>The program\<close>

fun print_slots :: "int \<Rightarrow> (int \<Rightarrow> 'a \<Rightarrow> writes) \<Rightarrow> string \<Rightarrow> 'a list \<Rightarrow> writes" where
  "print_slots fd func delim [] = []"
| "print_slots fd func delim (x # xs) = Vwrite fd delim @ func fd x @ print_slots fd func '', '' xs"

definition PriorityQueue_print :: "fmt_ops \<Rightarrow> 'a PriorityQueue \<Rightarrow> int \<Rightarrow> (int \<Rightarrow> 'a \<Rightarrow> writes) \<Rightarrow> writes" where
  "PriorityQueue_print F q fd func =
     Vwrite fd ''['' @ print_slots fd func '''' (take (pq_count q) (pq_data q))
     @ Vwrite fd ''] ('' @ writeUInt F fd (pq_count q) @ Vwrite fd ('')'' @ [NL])"

text \<open>With assertions enabled the fields are overwritten; the pointer to the array is invalid afterwards.\<close>

definition PriorityQueue_free :: "'a PriorityQueue \<Rightarrow> 'a PriorityQueue" where
  "PriorityQueue_free q = q\<lparr>pq_count := 0xdeadbeef, pq_allocated := 0xdeadbeef, pq_elem_size := 0xdeadbeef, pq_data := []\<rparr>"

text \<open>The comparison subtracts unsigned numbers; the difference is returned as an \<open>int\<close>.\<close>

definition check_cmp :: "u32 \<Rightarrow> u32 \<Rightarrow> int" where
  "check_cmp lhs rhs = to_int32 (uint (lhs - rhs))"

definition check_print :: "fmt_ops \<Rightarrow> int \<Rightarrow> u32 \<Rightarrow> writes" where
  "check_print F fd data = writeUInt F fd (unat data)"

text \<open>\<open>atoi\<close> is \<open>strtol\<close> with base 10, converted to \<open>int\<close>.\<close>

definition check_step :: "fmt_ops \<Rightarrow> u32 heap_env \<Rightarrow> u32 PriorityQueue \<Rightarrow> string \<Rightarrow> u32 PriorityQueue out" where
  "check_step F H q arg =
     bindO (if arg \<noteq> [] \<and> hd arg = CHR ''e''
            then bindO (putO (case PriorityQueue_max q of None \<Rightarrow> Vwrite 1 ''<null>'' | Some x \<Rightarrow> check_print F 1 x)) (\<lambda>_.
                 bindO (putO (Vwrite 1 '' <- '')) (\<lambda>_. returnO (PriorityQueue_extract q)))
            else liftO (PriorityQueue_insert H q (of_int (fst (strtol 10 arg))))) (\<lambda>q.
     bindO (putO (PriorityQueue_print F q 1 (check_print F))) (\<lambda>_. returnO q))"

definition prioqueue_check :: "fmt_ops \<Rightarrow> u32 heap_env \<Rightarrow> string list \<Rightarrow> unit out" where
  "prioqueue_check F H argv =
     bindO (liftO (assertR PriorityQueue_test (Inr ()))) (\<lambda>_.
     bindO (liftO (PriorityQueue_init H check_cmp 15 4)) (\<lambda>q.
     bindO (foldO (check_step F H) q (tl argv)) (\<lambda>q. let q = PriorityQueue_free q in returnO ())))"

section \<open>The recorded runs\<close>

definition check_heap :: "u32 heap_env" where
  "check_heap = \<lparr>env_oom = False, env_mem = (\<lambda>_. 0)\<rparr>"

definition check_start :: "u32 PriorityQueue" where
  "check_start = \<lparr>pq_data = replicate 15 0, pq_count = 0, pq_allocated = 15, pq_elem_size = 4, pq_cmp_func = check_cmp\<rparr>"

lemma powify_below: "2 ^ k \<le> val \<Longrightarrow> val < 2 ^ Suc k \<Longrightarrow> k < 31 \<Longrightarrow> powify val = 2 ^ Suc k - 1"
  using powify_cases[of val] powify_low[of k val 63] power_increasing[of "Suc k" 31 "2::nat"] by simp

text \<open>The assertions of the program's self-test hold.\<close>

lemma queue_self_test: PriorityQueue_test
  using powify_below[of 0 1] powify_below[of 1 2] powify_below[of 1 3] powify_below[of 2 4] powify_below[of 4 23]
    powify_below[of 6 64] powify_cases[of 0] powify_cases[of "0x81234567"]
  by (simp add: PriorityQueue_test_def powify_zero parent_def left_def right_def)

lemma check_started:
  "prioqueue_check F check_heap argv = bindO (foldO (check_step F check_heap) check_start (tl argv)) (\<lambda>q. returnO ())"
proof -
  have "PriorityQueue_init check_heap check_cmp 15 4 = Inr check_start"
    using powify_below[of 3 15]
    by (simp add: PriorityQueue_init_def Emalloc_Inr address_space_def check_heap_def check_start_def Let_def map_replicate_const)
  then show ?thesis unfolding prioqueue_check_def liftO_def
    by (simp only: Let_def queue_self_test assertR_True bindO_simps fst_conv snd_conv append_Nil prod.collapse)
qed

lemma recorded_run1:
  "output_text (prioqueue_check dec_ops check_heap (''prioqueue-check'' #
       [''7'', ''6'', ''5'', ''4'', ''3'', ''2'', ''1'', ''0'', ''e'', ''e'', ''e'', ''e'', ''e'', ''e'', ''e'', ''e'', ''e'',
        ''e'']))
     = Inr (text_lines
       [''[7] (1)'', ''[7, 6] (2)'', ''[7, 6, 5] (3)'', ''[7, 6, 5, 4] (4)'', ''[7, 6, 5, 4, 3] (5)'',
        ''[7, 6, 5, 4, 3, 2] (6)'', ''[7, 6, 5, 4, 3, 2, 1] (7)'', ''[7, 6, 5, 4, 3, 2, 1, 0] (8)'',
        ''7 <- [6, 4, 5, 0, 3, 2, 1] (7)'', ''6 <- [5, 4, 2, 0, 3, 1] (6)'', ''5 <- [4, 3, 2, 0, 1] (5)'',
        ''4 <- [3, 1, 2, 0] (4)'', ''3 <- [2, 1, 0] (3)'', ''2 <- [1, 0] (2)'', ''1 <- [0] (1)'', ''0 <- [] (0)'',
        ''<null> <- [] (0)'', ''<null> <- [] (0)''])"
  unfolding check_started by code_simp

lemma recorded_run2:
  "output_text (prioqueue_check dec_ops check_heap (''prioqueue-check'' #
       [''3'', ''1'', ''4'', ''6'', ''5'', ''3'', ''4'', ''e'', ''1'', ''2'', ''1'', ''1'', ''2'', ''8'', ''9'', ''e'', ''e'',
        ''e'', ''e'', ''e'', ''e'', ''e'', ''e'', ''e'', ''e'', ''e'', ''e'', ''e'', ''e'']))
     = Inr (text_lines
       [''[3] (1)'', ''[3, 1] (2)'', ''[4, 1, 3] (3)'', ''[6, 4, 3, 1] (4)'', ''[6, 5, 3, 1, 4] (5)'',
        ''[6, 5, 3, 1, 4, 3] (6)'', ''[6, 5, 4, 1, 4, 3, 3] (7)'', ''6 <- [5, 4, 4, 1, 3, 3] (6)'',
        ''[5, 4, 4, 1, 3, 3, 1] (7)'', ''[5, 4, 4, 2, 3, 3, 1, 1] (8)'', ''[5, 4, 4, 2, 3, 3, 1, 1, 1] (9)'',
        ''[5, 4, 4, 2, 3, 3, 1, 1, 1, 1] (10)'', ''[5, 4, 4, 2, 3, 3, 1, 1, 1, 1, 2] (11)'',
        ''[8, 4, 5, 2, 3, 4, 1, 1, 1, 1, 2, 3] (12)'', ''[9, 4, 8, 2, 3, 5, 1, 1, 1, 1, 2, 3, 4] (13)'',
        ''9 <- [8, 4, 5, 2, 3, 4, 1, 1, 1, 1, 2, 3] (12)'', ''8 <- [5, 4, 4, 2, 3, 3, 1, 1, 1, 1, 2] (11)'',
        ''5 <- [4, 4, 3, 2, 3, 2, 1, 1, 1, 1] (10)'', ''4 <- [4, 3, 3, 2, 1, 2, 1, 1, 1] (9)'',
        ''4 <- [3, 3, 2, 2, 1, 1, 1, 1] (8)'', ''3 <- [3, 2, 2, 1, 1, 1, 1] (7)'', ''3 <- [2, 2, 1, 1, 1, 1] (6)'',
        ''2 <- [2, 1, 1, 1, 1] (5)'', ''2 <- [1, 1, 1, 1] (4)'', ''1 <- [1, 1, 1] (3)'', ''1 <- [1, 1] (2)'', ''1 <- [1] (1)'',
        ''1 <- [] (0)'', ''<null> <- [] (0)''])"
  unfolding check_started by code_simp

text \<open>
  The model of the queue and of its test driver writes, for the inputs of the repository's files \<open>prioqueue-check1.inp\<close> and
  \<open>prioqueue-check2.inp\<close>, exactly the texts recorded in \<open>prioqueue-check1.out\<close> and \<open>prioqueue-check2.out\<close>.
\<close>

theorem recorded_queue_runs:
  "output_text (prioqueue_check dec_ops check_heap (''prioqueue-check'' #
       [''7'', ''6'', ''5'', ''4'', ''3'', ''2'', ''1'', ''0'', ''e'', ''e'', ''e'', ''e'', ''e'', ''e'', ''e'', ''e'', ''e'',
        ''e'']))
     = Inr (text_lines
       [''[7] (1)'', ''[7, 6] (2)'', ''[7, 6, 5] (3)'', ''[7, 6, 5, 4] (4)'', ''[7, 6, 5, 4, 3] (5)'',
        ''[7, 6, 5, 4, 3, 2] (6)'', ''[7, 6, 5, 4, 3, 2, 1] (7)'', ''[7, 6, 5, 4, 3, 2, 1, 0] (8)'',
        ''7 <- [6, 4, 5, 0, 3, 2, 1] (7)'', ''6 <- [5, 4, 2, 0, 3, 1] (6)'', ''5 <- [4, 3, 2, 0, 1] (5)'',
        ''4 <- [3, 1, 2, 0] (4)'', ''3 <- [2, 1, 0] (3)'', ''2 <- [1, 0] (2)'', ''1 <- [0] (1)'', ''0 <- [] (0)'',
        ''<null> <- [] (0)'', ''<null> <- [] (0)''])
   \<and> output_text (prioqueue_check dec_ops check_heap (''prioqueue-check'' #
       [''3'', ''1'', ''4'', ''6'', ''5'', ''3'', ''4'', ''e'', ''1'', ''2'', ''1'', ''1'', ''2'', ''8'', ''9'', ''e'', ''e'',
        ''e'', ''e'', ''e'', ''e'', ''e'', ''e'', ''e'', ''e'', ''e'', ''e'', ''e'', ''e'']))
     = Inr (text_lines
       [''[3] (1)'', ''[3, 1] (2)'', ''[4, 1, 3] (3)'', ''[6, 4, 3, 1] (4)'', ''[6, 5, 3, 1, 4] (5)'',
        ''[6, 5, 3, 1, 4, 3] (6)'', ''[6, 5, 4, 1, 4, 3, 3] (7)'', ''6 <- [5, 4, 4, 1, 3, 3] (6)'',
        ''[5, 4, 4, 1, 3, 3, 1] (7)'', ''[5, 4, 4, 2, 3, 3, 1, 1] (8)'', ''[5, 4, 4, 2, 3, 3, 1, 1, 1] (9)'',
        ''[5, 4, 4, 2, 3, 3, 1, 1, 1, 1] (10)'', ''[5, 4, 4, 2, 3, 3, 1, 1, 1, 1, 2] (11)'',
        ''[8, 4, 5, 2, 3, 4, 1, 1, 1, 1, 2, 3] (12)'', ''[9, 4, 8, 2, 3, 5, 1, 1, 1, 1, 2, 3, 4] (13)'',
        ''9 <- [8, 4, 5, 2, 3, 4, 1, 1, 1, 1, 2, 3] (12)'', ''8 <- [5, 4, 4, 2, 3, 3, 1, 1, 1, 1, 2] (11)'',
        ''5 <- [4, 4, 3, 2, 3, 2, 1, 1, 1, 1] (10)'', ''4 <- [4, 3, 3, 2, 1, 2, 1, 1, 1] (9)'',
        ''4 <- [3, 3, 2, 2, 1, 1, 1, 1] (8)'', ''3 <- [3, 2, 2, 1, 1, 1, 1] (7)'', ''3 <- [2, 2, 1, 1, 1, 1] (6)'',
        ''2 <- [2, 1, 1, 1, 1] (5)'', ''2 <- [1, 1, 1, 1] (4)'', ''1 <- [1, 1, 1] (3)'', ''1 <- [1, 1] (2)'', ''1 <- [1] (1)'',
        ''1 <- [] (0)'', ''<null> <- [] (0)''])"
  using recorded_run1 recorded_run2 by simp

end
