(* ===== verification/Command_Line.thy ===== *)
theory Command_Line
  imports Arguments
begin

text \<open>
  The command line of \<open>src/src/arguments.c\<close> from the side of its user: the settings that can be made, the words that make them, and
  what they mean for the options of the program.
\<close>

section \<open>Settings\<close>








section \<open>Words\<close>





section \<open>Meaning\<close>




section \<open>Facts\<close>

















section \<open>Properties\<close>



end
