(* ===== verification/Late_Jobs.thy ===== *)
theory Late_Jobs
  imports Two_Processes
begin

text \<open>
  A defect of \<open>PriorityQueue_heapify\<close> (\<open>src/src/prioqueue.c\<close>) at work in the loop of \<open>src/src/worker.c\<close>: a job that is due can be hidden behind a
  later one. The queue of the worker is followed by a queue of times, which makes the same comparisons, so that one computation stands for the
  worker at any time, with any requests and any earlier contents of the memory.
\<close>

section \<open>Queues with the same comparisons\<close>







section \<open>The queue of times\<close>








lemma sift_length: "length (fst (insert_sift cmp ptr x i)) = length ptr"
  by (induction cmp ptr x i rule: insert_sift.induct) (simp_all add: Let_def)

lemma insertInternal_length [simp]: "length (pq_data (PriorityQueue_insertInternal q x)) = length (pq_data q)"
  using sift_length[of "pq_cmp_func q" "pq_data q" x "pq_count q"]
  by (cases "insert_sift (pq_cmp_func q) (pq_data q) x (pq_count q)") (simp add: PriorityQueue_insertInternal_def)














section \<open>Properties\<close>





end
