(* ===== verification/Spec2Isabelle.thy ===== *)
theory Spec2Isabelle
  imports Range_Expansion Quiet_Worker Frames Signals Queue_Bytes List_Reload Simulate Check_Prioqueue Command_Line Late_Jobs
begin

text \<open>
  Verification of ip-sentinel, a daemon that answers ARP requests for unused or forbidden addresses of a network with
  forged replies. The C sources are under \<open>src/src/\<close>; the model follows the production build on a little-endian LP64
  GNU/Linux host, with assertions enabled.

  \<^bold>\<open>The program.\<close> \<open>main\<close> (\<open>ip-sentinel.c\<close>) parses the options, opens a raw socket, gives up its privileges and forks
  a worker process that is connected to it by a pipe. The main process receives ARP packets, reloads the list of addresses (\<open>blacklist.c\<close>) when its
  file changed, looks up the requested and the sending address, limits the answers per sender (\<open>antidos.c\<close>)
  and writes jobs to the pipe. The worker (\<open>worker.c\<close>) turns a job into a packet, sends it, and repeats it
  later from a priority queue (\<open>prioqueue.c\<close>).

  \<^bold>\<open>Theories.\<close>
  \<^item> \<open>Prelude\<close>: machine types, the result type \<open>stop + 'a\<close> for functions that may stop (\<open>exit\<close>, failed
    assertion, signed overflow, access outside of a buffer), its bind and its triples \<open>specR\<close>.
  \<^item> \<open>Clib\<close>: the functions of the C library that the program uses (\<open>strtol\<close>, \<open>inet_aton\<close>, \<open>inet_ntoa\<close>).
  \<^item> \<open>Wrappers\<close>, \<open>System_Calls\<close> (\<open>wrappers.h\<close>): memory, and the wrappers of system calls as programs over the
    list of issued calls; the answers of the operating system are a parameter.
  \<^item> \<open>Prioqueue\<close> (\<open>prioqueue.c/.h/.ic\<close>): the array heap, with the locales \<open>work_queue\<close> and \<open>ordered_queue\<close> for what the worker needs
    of it, both interpreted on the operations of the code. \<open>Queue_Bytes\<close>: the same operations with pointer arithmetic and \<open>memcpy\<close>
    on the bytes of the array.
  \<^item> \<open>Vector\<close>: the contract of the external library ensc_vector (locale \<open>vector_lib\<close>), and lists as an instance.
  \<^item> \<open>Ether\<close> (\<open>ether.c\<close>), \<open>Util\<close> (\<open>util.c/.h\<close>), \<open>Parameters\<close> (\<open>parameters.h\<close>).
  \<^item> \<open>Output\<close>: programs whose messages count even when they end with \<open>exit\<close>. \<open>Getopt\<close>: \<open>getopt_long\<close> of the C library. \<open>Arguments\<close>
    (\<open>arguments.c/.h\<close>): from the words of the command line to the options, with the texts that are printed. \<open>Command_Line\<close>: the
    settings a user can make, their words and their meaning.
  \<^item> \<open>Antidos\<close> (\<open>antidos.c\<close>): the request counters, and the locale \<open>request_counter\<close> with what the main process needs of them.
  \<^item> \<open>Blacklist_Data\<close> (lookups), \<open>Blacklist_Parser\<close> (lines), \<open>Blacklist_Print\<close>, \<open>Blacklist\<close> (loading and updates), all of
    \<open>blacklist.c/.h\<close>; \<open>Parser_Safety\<close> and \<open>Parser_Locality\<close> hold the lemmas on memory accesses of the parser, \<open>Range_Expansion\<close> those
    on lists and ranges, \<open>List_Reload\<close> the round trip of a whole list.
  \<^item> \<open>Worker\<close> (\<open>worker.c/.h\<close>, \<open>jobinfo.h\<close>, \<open>arpmessage.h\<close>): packets, jobs and the loop of the worker process. \<open>Receive\<close>: the
    receive buffer and the packet structure in its bytes.
  \<^item> \<open>Sentinel\<close> (\<open>ip-sentinel.c/.h\<close>, \<open>Worker_sendJob\<close>): the two request handlers and the loop of the main process.
  \<^item> \<open>Startup\<close> (\<open>ip-sentinel.c\<close>, \<open>Worker_init\<close>): user and group, daemon, interface, socket, processes.
  \<^item> \<open>Two_Processes\<close>: both processes together, with the pipe between them, taking rounds in any order. \<open>Deliveries\<close>: which
    packets the worker has made, handed to \<open>sendto\<close> and delivered. \<open>Quiet_Worker\<close>: the worker
    without further jobs. \<open>Late_Jobs\<close>: a defect of the queue in the loop of the worker. \<open>Frames\<close>: the main process on the bytes of the frames it receives.
    \<open>Signals\<close>: the main process in smaller steps, between which the signal handler may run.
  \<^item> \<open>Check_Prioqueue\<close>, \<open>Check_Blacklist\<close>, \<open>Simulate\<close>: the four programs of the test suite (\<open>testsuite/\<close>) over the same components, with
    the functions that exist only for them (\<open>pe_testsuite\<close> selects the code of the test suite in \<open>blacklist.c\<close>).

  \<^bold>\<open>State and operations.\<close> A C structure is a record, a C function a definition of the same name; a function that may stop returns
  \<open>stop + 'a\<close>. A pointer into a buffer is an index into a character list, and every access checks the bounds. Static and
  global variables are fields of the state record of their process (\<open>bl_state\<close>, \<open>worker_state\<close>, \<open>sentinel\<close>). One iteration of an
  endless loop is a step function (\<open>worker_step\<close>, \<open>run_round\<close>, and \<open>frame_round\<close> with the receive buffer); the reachable states of the main process
  are the inductive predicate \<open>main_run\<close>, with the receive buffer \<open>frame_run\<close>, with signals inside of the rounds \<open>signal_run\<close>, and those of both processes with the pipe \<open>system_run\<close>, whose
  state also records the rounds of both processes (\<open>sy_log\<close>, \<open>sy_ticks\<close>).
  Clock, random numbers, file contents, block sizes of \<open>read\<close> and results of system calls are arguments.

  \<^bold>\<open>What is shown.\<close>
  \<^item> End to end, over all interleavings of the two processes: every packet answers an earlier request and claims a listed address
    (\<open>system_answers_are_authorised\<close>); every job is turned into its packet (\<open>job_reaches_the_wire\<close>); the packets are counted exactly and are
    at most ten per request (\<open>amplification_bounded\<close>); sixty seconds after the last job was read exactly the packets of all jobs have been
    handed to \<open>sendto\<close>, each once, and they have been sent if \<open>sendto\<close> worked (\<open>everything_is_sent_in_time\<close>).
  \<^item> On the bytes of frames: a packet that was sent is received as the same structure (\<open>received_as_sent\<close>), and no daemon answers the packets
    of a daemon (\<open>own_packets_ignored\<close>).
  \<^item> The main process: jobs are for listed addresses only (\<open>jobs_are_authorised\<close>), and a request
    leads to exactly the jobs that its addresses call for in the enabled directions (\<open>request_is_answered\<close>). Signals at any point of a round lead to the same states as signals between
    the rounds (\<open>signals_between_rounds\<close>).
  \<^item> Lookup: the first deciding entry and the most specific network (\<open>lookup_first_verdict\<close>, \<open>most_specific_network\<close>).
  \<^item> Loading: the block-wise reader refines reading line by line, stays inside of its buffers and terminates for every file; lists
    and ranges stand for their elements; a printed list is loaded again with the same entries from blocks of at least 81 bytes; failures are counted and end the process.
  \<^item> Limits: counters refine a finite map, stay bounded, and bound the answers per second (\<open>burst_limited\<close>, \<open>dos_ramp\<close>).
  \<^item> Worker: no job is lost, doubled or early; packets byte by byte; without further jobs the queue
    is empty after sixty seconds and a bounded number of rounds (\<open>quiet_worker_finishes\<close>). The queue's operations keep its elements, and those on bytes
    refine those on elements and stay inside of the array (\<open>queue_bytes_refine\<close>).
  \<^item> Start: privileges are dropped in the right order, failures end the process, the processes get the state they rely on. Every command line is
    accepted or ends with the right status and output; settings in all of their written forms have their meaning
    (\<open>command_line_settings\<close>).
  \<^item> Test programs: the model gives the recorded outputs of the queue's driver (\<open>recorded_queue_runs\<close>); what \<open>simulate\<close> prints for an
    intruder are the packets of the daemon (\<open>simulated_poisoning\<close>).
  \<^item> Defects: the heap order breaks on extraction, so that a due job stays hidden whenever three requests arrive in certain
    seconds (\<open>due_job_hidden\<close>); \<open>*@mac\<close> hides networks; a range in a
    netmask adds one network only; unterminated last lines are lost; a failed load leaves an unsorted list; a request to reload is lost
    when it arrives at the end of an update (\<open>reload_request_lost\<close>);
    a frame that is too short repeats the last request (\<open>short_frame_repeats\<close>).

  \<^bold>\<open>Bounds and fuel.\<close> The read loop of the loader recurses on the rest of the file and the draining of the worker's queue on its
  number of elements; both are shown to end. Unsigned counters are 32-bit words, sizes are computed modulo \<open>2 ^ 64\<close>, and allocation fails above \<open>2 ^ 47\<close> bytes.
  Statements about the loops of the processes hold for any number of rounds. The clock may not go back in \<open>main_run\<close> and \<open>system_run\<close>.
  Memory for five more jobs (\<open>room 5\<close>) is enough for a round of the worker, since a job is put into the queue at most five times.

  \<^bold>\<open>Not modelled.\<close> The libraries ensc_vector and ensc_fmt are parameters with their contracts; the messages
  of \<open>getopt_long\<close> and \<open>perror\<close> and read errors of the streams of the test programs are left out; the attribute and cast macros of \<open>compat.h\<close>
  and \<open>util.h\<close> have no behaviour. What a signal does to a system call or a sleep that it interrupts is not modelled. What the kernel does with the packets is outside of the model.
\<close>

section \<open>The program as a whole\<close>

text \<open>
  From the command line to the wire. Let the program be started with any options, let the main process be in any state it can reach, and let it handle
  any round without a pending error of the list. Then every job it writes to the pipe makes
  the worker process of the same program build a packet (no assertion of the worker fails), and this packet is
  an ARP reply to the received request that claims the requested address for the MAC
  address of a list entry that covers the requested address or, for an intruder, the sender.
\<close>

theorem wire_answers_are_authorised:
  assumes "main_program F os D u posix argv [] = (Inr (args, WorkerProcess w), calls)"
    and "\<forall>n. length (snd (os_hwaddr os n)) = 14"
    and "main_run V args t s" and "round_env_ok R" and "run_round (a_arp_dir args) s R = Inr s'" and "bs_error_count (st_bl s') = 0"
    and "rq \<in> set (drop (length (st_pipe s)) (st_pipe s'))" and "wf_mac (arp_sha (rq_request rq))"
  shows "\<exists>proto msg j. re_recv R = Some (proto, msg) \<and> authorised (a_arp_dir args) (bs_list (st_bl s')) msg rq
     \<and> Worker_fillPacket tm rnd w job rq = Inr j
     \<and> message_bytes (job_message j) = reply_bytes (link_dest rq) (link_source tm rnd w rq) (rq_mac rq) (arp_tpa (msg_data msg))
           (arp_sha (msg_data msg)) (arp_spa (msg_data msg))
     \<and> sll_ifindex (job_address j) = w_if_idx w"
proof -
  have w: "tm_type (w_llmac w) \<noteq> mcLOCAL" using startup_facts[OF assms(1,2)] by simp
  have "bl_state_ok (st_bl s)" using main_run_inv[OF assms(3)] by (simp add: sentinel_inv_def)
  from round_jobs[OF assms(5,4) this] obtain new where "st_pipe s' = st_pipe s @ new"
    and new: "\<forall>rq\<in>set new. known_type rq \<and> (\<exists>proto msg. re_recv R = Some (proto, msg) \<and> htons proto = 0x0806 \<and> htons (ar_op (msg_data msg)) = 1
          \<and> (bs_error_count (st_bl s') = 0 \<longrightarrow> authorised (a_arp_dir args) (bs_list (st_bl s')) msg rq))" by blast
  then have "rq \<in> set new" using assms(7) by simp
  with new assms(6) obtain proto msg where k: "known_type rq" and m: "re_recv R = Some (proto, msg)"
    and a: "authorised (a_arp_dir args) (bs_list (st_bl s')) msg rq" by blast
  from fillPacket_bytes[OF k w assms(8), of tm rnd job] m a show ?thesis by (auto simp: authorised_def)
qed

theorem wire_answers_are_authorised_witness:
  "\<exists>w j. Worker_fillPacket 0 0 w zero_job example_job = Inr j
     \<and> message_bytes (job_message j) = reply_bytes BCAST_MAC [2, 0, 0, 0, 0, 8] [2, 0, 0, 0, 0, 8] 0x0100000A [2, 0, 0, 0, 0, 9] 0x0900000A"
proof -
  obtain w calls where m: "main_program dec_ops (example_os 0) example_defaults uninit_arguments False [''ip-sentinel'', ''eth0'', ''-n''] [] = (Inr (example_args, WorkerProcess w), calls)"
    using example_main by blast
  have h: "\<forall>n. length (snd (os_hwaddr (example_os 0) n)) = 14" by (simp add: example_os_def)
  have r: "run_round (a_arp_dir example_args) example_loaded (example_round 100 5) = Inr example_answered"
    using example_first_round by (simp add: example_args_def default_arguments_def)
  have j: "example_job \<in> set (drop (length (st_pipe example_loaded)) (st_pipe example_answered))" "bs_error_count (st_bl example_answered) = 0"
    "wf_mac (arp_sha (rq_request example_job))"
    by (simp_all add: example_answered_def example_loaded_def example_job_def example_message_def wf_mac_def)
  have l: "link_dest example_job = BCAST_MAC" "link_source 0 0 w example_job = [2, 0, 0, 0, 0, 8]" "rq_mac example_job = [2, 0, 0, 0, 0, 8]"
    by (simp_all add: link_dest_def link_source_def example_job_def)
  from wire_answers_are_authorised[OF m h example_run example_round_ok r j(2,1,3), of 0 0 zero_job] show ?thesis
    unfolding l by (auto simp: example_round_def example_message_def)
qed

text \<open>
  C1: from the command line to the wire. Let the program be started with any options, and let its two processes
  run in any order, with any requests, files and answers of the system. Then every packet the worker
  has sent goes back to an ARP request that the main process has received before, in a round at whose end
  a list entry gave the MAC address for the requested address or, for an intruder, for the sender. The packet is the reply to this request
  that claims the requested address for this MAC, or a poison packet for the address of the intruder. (Rounds with a pending error of the list are excluded.)
\<close>

theorem system_answers_are_authorised:
  assumes "main_program F os D u posix argv [] = (Inr (args, WorkerProcess w), calls)"
    and "\<forall>n. length (snd (os_hwaddr os n)) = 14"
    and "system_run V args w t y" and "healthy (sy_log y)" and "(j, ret) \<in> set (ws_sent (sy_worker y))"
  shows "\<exists>R s proto msg rq tm rnd. (R, s) \<in> set (sy_log y) \<and> re_recv R = Some (proto, msg) \<and> receives_request R
     \<and> authorised (a_arp_dir args) (bs_list (st_bl s)) msg rq
     \<and> (message_bytes (job_message j) = reply_bytes (link_dest rq) (link_source tm rnd w rq) (rq_mac rq) (arp_tpa (msg_data msg))
             (arp_sha (msg_data msg)) (arp_spa (msg_data msg))
       \<or> w_do_poison w \<and> rq_type rq = jobSRC
         \<and> message_bytes (job_message j) = reply_bytes BCAST_MAC (link_source tm rnd w rq) (if rq_poison_f rq then rq_poison_v rq else rq_mac rq)
             (arp_spa (msg_data msg)) BCAST_MAC 0)"
proof -
  have w: "tm_type (w_llmac w) \<noteq> mcLOCAL" using startup_facts[OF assms(1,2)] by simp
  have "j \<in># worker_packets (sy_worker y)" using assms(5) by (force simp: worker_packets_def)
  from packet_justified[OF assms(3,4) this] obtain rq R s proto msg where p: "packet_for w rq j" "known_type rq"
    and r: "(R, s) \<in> set (sy_log y)" "receives_request R" "re_recv R = Some (proto, msg)" "authorised (a_arp_dir args) (bs_list (st_bl s)) msg rq" by blast
  have q: "rq_request rq = msg_data msg" using r(4) by (simp add: authorised_def)
  from packet_bytes[OF p w] r show ?thesis unfolding q by blast
qed

theorem system_answers_are_authorised_witness:
  "\<exists>w y j tm rnd rq. system_run (list_vector dos_null) example_args w 100 y \<and> sy_log y = [(example_round 100 5, example_answered)]
     \<and> j \<in> set (ws_sent (sy_worker y)) \<and> authorised dirBOTH (bs_list (st_bl example_answered)) example_message rq"
proof -
  obtain w calls p j ret where m: "main_program dec_ops (example_os 0) example_defaults uninit_arguments False [''ip-sentinel'', ''eth0'', ''-n''] [] = (Inr (example_args, WorkerProcess w), calls)"
    and y: "system_run (list_vector dos_null) example_args w 100 (example_ran p)" and j: "ws_sent p = [(j, ret)]" by (rule example_system)
  let ?y = "example_ran p"
  have l: "sy_log ?y = [(example_round 100 5, example_answered)]" "healthy (sy_log ?y)" "(j, ret) \<in> set (ws_sent (sy_worker ?y))"
    using j by (simp_all add: example_ran_facts)
  obtain R s proto msg rq where "(R, s) \<in> set (sy_log ?y)" "re_recv R = Some (proto, msg)" "authorised (a_arp_dir example_args) (bs_list (st_bl s)) msg rq"
    using system_answers_are_authorised[OF m example_hwaddr y l(2,3)] by blast
  then have "authorised dirBOTH (bs_list (st_bl example_answered)) example_message rq"
    by (simp add: example_round_def example_args_def default_arguments_def)
  with y l(1,3) show ?thesis by blast
qed

text \<open>
  C11: the amplification is bounded. However the two processes run, all packets sent and all packets
  waiting in the queue of the worker belong to jobs that were read from the pipe, six for a job about
  an intruder when poisoning is on and four for any other; together they are at most ten for every ARP request the
  main process has received.
\<close>

theorem amplification_bounded:
  assumes "system_run V args w t y"
  shows "length (ws_sent (sy_worker y)) + PriorityQueue_count (ws_queue (sy_worker y))
       = sum_list (map (packets_of w) (take (sy_read y) (st_pipe (sy_main y))))
     \<and> length (ws_sent (sy_worker y)) + PriorityQueue_count (ws_queue (sy_worker y))
       \<le> 10 * length (filter (receives_request \<circ> fst) (sy_log y))"
proof -
  have i: "system_inv args w y" by (rule system_run_inv[OF assms])
  then have "pq_wf (ws_queue (sy_worker y))" by (simp add: system_inv_def Let_def pq_inv_def)
  then have s: "size (worker_packets (sy_worker y)) = length (ws_sent (sy_worker y)) + PriorityQueue_count (ws_queue (sy_worker y))"
    by (simp add: worker_packets_def pq_elems_def pq_wf_def PriorityQueue_count_def)
  have "sum_list (map (packets_of w) (st_pipe (sy_main y)))
      = sum_list (map (packets_of w) (take (sy_read y) (st_pipe (sy_main y)))) + sum_list (map (packets_of w) (drop (sy_read y) (st_pipe (sy_main y))))"
    by (metis append_take_drop_id map_append sum_list_append)
  with i s show ?thesis by (simp add: system_inv_def Let_def)
qed

theorem amplification_bounded_witness:
  "\<exists>w y. system_run (list_vector dos_null) example_args w 100 y \<and> length (ws_sent (sy_worker y)) = 1
     \<and> PriorityQueue_count (ws_queue (sy_worker y)) = 3"
proof -
  obtain w calls p j ret where m: "main_program dec_ops (example_os 0) example_defaults uninit_arguments False [''ip-sentinel'', ''eth0'', ''-n''] [] = (Inr (example_args, WorkerProcess w), calls)"
    and y: "system_run (list_vector dos_null) example_args w 100 (example_ran p)" and j: "ws_sent p = [(j, ret)]" by (rule example_system)
  have "length (ws_sent p) + PriorityQueue_count (ws_queue p) = 4"
    using amplification_bounded[OF y] by (simp add: example_ran_facts)
  with y j show ?thesis by (intro exI[of _ w] exI[of _ "example_ran p"]) auto
qed

text \<open>
  Nothing is left behind. In a round without a new job, at a time when all waiting packets are due and \<open>sendto\<close> works,
  the worker returns with an empty queue. Then exactly the packets of all jobs it has read have been handed to \<open>sendto\<close>, each once, and all of them have
  been sent if the calls in the earlier rounds worked, too.
\<close>

lemma everything_is_sent:
  assumes "system_run V args w t y" and "tick_ok T" and "\<not> wt_readable T"
    and "\<forall>j\<in>#pq_elems (ws_queue (sy_worker y)). schedule_time j \<le> wt_due_time T"
  shows "\<exists>p. worker_step w (sy_worker y) T = Inr p \<and> PriorityQueue_count (ws_queue p) = 0
     \<and> attempted p = packets_due w (sy_ticks y) \<and> (list_all sends_ok (sy_ticks y) \<longrightarrow> delivered p = packets_due w (sy_ticks y))"
proof -
  let ?s = "sy_worker y"
  have q: "pq_inv (ws_queue ?s)" by (rule system_queue[OF assms(1)])
  obtain d where d: "worker_drain T (wt_due_time T) ?s = Inr d" using specR_total[OF drain_returns[OF assms(2)]] by blast
  let ?p = "d\<lparr>ws_run_errors := 0\<rparr>"
  have p: "worker_step w ?s T = Inr ?p" using assms(2,3) d by (simp add: worker_step_def tick_ok_def)
  obtain js where js: "pq_inv (ws_queue d)" "mset js + pq_elems (ws_queue d) = pq_elems (ws_queue ?s)"
    "\<forall>j. PriorityQueue_max (ws_queue d) = Some j \<longrightarrow> wt_due_time T < schedule_time j"
    using drain_spec[OF d q] by blast
  have c: "PriorityQueue_count (ws_queue d) = 0"
  proof (rule ccontr)
    assume "PriorityQueue_count (ws_queue d) \<noteq> 0"
    then obtain j where j: "PriorityQueue_max (ws_queue d) = Some j" by (simp add: PriorityQueue_max_def)
    then have "j \<in># pq_elems (ws_queue d)" using pq.top_in[OF js(1)] by blast
    then have "j \<in># pq_elems (ws_queue ?s)" using js(2) by (metis union_iff)
    then show False using assms(4) j js(3) by fastforce
  qed
  have n: "\<not> reads_job T" by (simp add: reads_job_def assms(3))
  have "system_run V args w t (y\<lparr>sy_worker := ?p, sy_ticks := T # sy_ticks y\<rparr>)" by (rule system_idle[OF assms(1) n p])
  from system_empty_attempted[OF this] c quiet_ticks(1)[of "[T]" w "sy_ticks y"] tick_sends_ok[OF assms(2)] n assms(2) p show ?thesis by simp
qed

text \<open>
  C12: nothing is left behind. In a round without a new job in which \<open>sendto\<close> works, sixty seconds after the last job was read or later, the worker
  returns with an empty queue. Then exactly the packets of all jobs it has read (the requests of the pipe, in order) have been handed to \<open>sendto\<close>, each
  once: the answer, its repetitions and the poison packets. They have all been sent completely if the calls in the earlier rounds worked, too; a packet
  whose call fails is not sent again.
\<close>

theorem everything_is_sent_in_time:
  assumes "system_run V args w t y" and "jobs_by t0 (sy_ticks y)" and "tick_ok T" and "\<not> wt_readable T" and "t0 + 60 \<le> wt_due_time T"
  shows "\<exists>p. worker_step w (sy_worker y) T = Inr p \<and> PriorityQueue_count (ws_queue p) = 0
     \<and> requests_read (sy_ticks y) = take (sy_read y) (st_pipe (sy_main y))
     \<and> attempted p = packets_due w (sy_ticks y) \<and> (list_all sends_ok (sy_ticks y) \<longrightarrow> delivered p = packets_due w (sy_ticks y))"
proof -
  have "\<forall>j\<in>#pq_elems (ws_queue (sy_worker y)). schedule_time j \<le> wt_due_time T"
    using system_due_by[OF assms(1,2)] assms(5) by (force simp: due_by_def)
  from everything_is_sent[OF assms(1,3,4) this] system_requests[OF assms(1)] show ?thesis by blast
qed

text \<open>In the example four packets are sent for the job that was read.\<close>

theorem everything_is_sent_in_time_witness:
  "\<exists>w y p. system_run (list_vector dos_null) example_args w 100 y \<and> worker_step w (sy_worker y) (example_tick 160 False) = Inr p
     \<and> requests_read (sy_ticks y) = [example_job] \<and> delivered p = packets_due w (sy_ticks y) \<and> size (delivered p) = 4
     \<and> PriorityQueue_count (ws_queue p) = 0"
proof -
  obtain w calls p j ret where m: "main_program dec_ops (example_os 0) example_defaults uninit_arguments False [''ip-sentinel'', ''eth0'', ''-n''] [] = (Inr (example_args, WorkerProcess w), calls)"
    and y: "system_run (list_vector dos_null) example_args w 100 (example_ran p)" and j: "ws_sent p = [(j, ret)]" by (rule example_system)
  let ?y = "example_ran p"
  have k: "jobs_by 100 (sy_ticks ?y)" "tick_ok (example_tick 160 False)" "\<not> wt_readable (example_tick 160 False)"
    "100 + 60 \<le> wt_due_time (example_tick 160 False)"
    by (simp_all add: jobs_by_def example_ran_facts) (simp_all add: tick_ok_def example_tick_def sizeof_ArpMessage_def)
  have s: "list_all sends_ok (sy_ticks ?y)" using tick_sends_ok[OF example_reads(2)] by simp
  have n: "size (packets_due w (sy_ticks ?y)) = 4" "requests_read (sy_ticks ?y) = [example_job]"
    unfolding system_due_size[OF y] system_requests[OF y] by (simp_all add: example_ran_facts)
  from everything_is_sent_in_time[OF y k(1-4)] s obtain p' where
    "worker_step w (sy_worker ?y) (example_tick 160 False) = Inr p'" "PriorityQueue_count (ws_queue p') = 0" "delivered p' = packets_due w (sy_ticks ?y)"
    by blast
  with y n show ?thesis by (intro exI[of _ w] exI[of _ ?y] exI[of _ p']) simp
qed

text \<open>
  C10: every job reaches the wire. Whatever the main process has written to the pipe, a round of the worker of the
  same program that reads the next job returns as long as there is memory and the socket works, and no assertion fails. The first packet it sends is the
  reply for this job, byte by byte.
\<close>

theorem job_reaches_the_wire:
  assumes "main_program F os D u posix argv [] = (Inr (args, WorkerProcess w), calls)"
    and "\<forall>n. length (snd (os_hwaddr os n)) = 14"
    and "system_run V args w t y" and "sy_read y < length (st_pipe (sy_main y))" and "reads_job T"
    and "wt_request T = st_pipe (sy_main y) ! sy_read y" and "tick_ok T" and "room 5 (ws_queue (sy_worker y))"
  shows "\<exists>p j rest. worker_step w (sy_worker y) T = Inr p
     \<and> map fst (ws_sent p) = map fst (ws_sent (sy_worker y)) @ j # rest
     \<and> (let rq = st_pipe (sy_main y) ! sy_read y in
        message_bytes (job_message j) = reply_bytes (link_dest rq) (link_source (wt_rand_time T) (wt_rand T) w rq) (rq_mac rq)
          (arp_tpa (rq_request rq)) (arp_sha (rq_request rq)) (arp_spa (rq_request rq)))"
proof -
  have w: "tm_type (w_llmac w) \<noteq> mcLOCAL" using startup_facts[OF assms(1,2)] by simp
  have q: "pq_inv (ws_queue (sy_worker y))" using system_run_inv[OF assms(3)] by (simp add: system_inv_def Let_def)
  have "\<forall>rq\<in>set (st_pipe (sy_main y)). known_type rq" using main_run_inv[OF system_main_run[OF assms(3)]] by (simp add: sentinel_inv_def)
  then have k: "known_type (wt_request T)" using assms(4,6) by simp
  have "wt_cnt T = sizeof_RequestInfo" using assms(5) by (simp add: reads_job_def)
  from step_returns[OF assms(7) q assms(8) this k w] obtain p where p: "worker_step w (sy_worker y) T = Inr p" by blast
  then obtain answer due new where "round_effect w T (sy_worker y) p answer due new" using step_effect[OF p q] by blast
  then obtain j where j: "Worker_fillPacket (wt_rand_time T) (wt_rand T) w (wt_uninit_job T) (wt_request T) = Inr j"
    "map fst (ws_sent p) = map fst (ws_sent (sy_worker y)) @ j # due"
    using assms(5) by (auto simp: round_effect_def reads_job_def)
  have "message_bytes (job_message j) = reply_bytes (link_dest (wt_request T)) (link_source (wt_rand_time T) (wt_rand T) w (wt_request T)) (rq_mac (wt_request T))
          (arp_tpa (rq_request (wt_request T))) (arp_sha (rq_request (wt_request T))) (arp_spa (rq_request (wt_request T)))"
    by (rule fill_bytes[OF j(1) k w])
  with p j(2) assms(6) show ?thesis by (auto simp: Let_def)
qed

theorem job_reaches_the_wire_witness:
  "\<exists>w p0 p j rest. worker_step w p0 example_job_tick = Inr p \<and> map fst (ws_sent p) = j # rest
     \<and> message_bytes (job_message j) = reply_bytes BCAST_MAC [2, 0, 0, 0, 0, 8] [2, 0, 0, 0, 0, 8] 0x0100000A [2, 0, 0, 0, 0, 9] 0x0900000A"
proof -
  obtain w calls where m: "main_program dec_ops (example_os 0) example_defaults uninit_arguments False [''ip-sentinel'', ''eth0'', ''-n''] [] = (Inr (example_args, WorkerProcess w), calls)"
    using example_main by blast
  obtain p0 where p0: "Worker_run (wt_heap (example_tick 0 True)) w [] = Inr p0" "ws_sent p0 = []" "room 5 (ws_queue p0)"
    using example_worker_started by blast
  have l: "link_dest example_job = BCAST_MAC" "link_source t r w example_job = [2, 0, 0, 0, 0, 8]" for t r
    by (simp_all add: link_dest_def link_source_def example_job_def)
  have h: "sy_read (example_waiting p0) < length (st_pipe (sy_main (example_waiting p0)))"
    "wt_request example_job_tick = st_pipe (sy_main (example_waiting p0)) ! sy_read (example_waiting p0)"
    "room 5 (ws_queue (sy_worker (example_waiting p0)))"
    using p0(3) example_pipe example_reads(3) by (simp_all add: example_waiting_def)
  from job_reaches_the_wire[OF m example_hwaddr example_waiting_run[OF p0(1)] h(1) example_reads(1) h(2) example_reads(2) h(3)]
  obtain p j rest where "worker_step w p0 example_job_tick = Inr p" "map fst (ws_sent p) = j # rest"
    "message_bytes (job_message j) = reply_bytes BCAST_MAC [2, 0, 0, 0, 0, 8] (rq_mac example_job)
       (arp_tpa (rq_request example_job)) (arp_sha (rq_request example_job)) (arp_spa (rq_request example_job))"
    using p0(2) by (auto simp: Let_def l example_waiting_def example_answered_def)
  moreover have "rq_mac example_job = [2, 0, 0, 0, 0, 8]" "arp_tpa (rq_request example_job) = 0x0100000A"
    "arp_sha (rq_request example_job) = [2, 0, 0, 0, 0, 9]" "arp_spa (rq_request example_job) = 0x0900000A"
    by (simp_all add: example_job_def example_message_def)
  ultimately show ?thesis by metis
qed

end
